(* ===== verification/Go_Prelude.thy ===== *)
theory Go_Prelude
  imports Main "HOL-Library.AList" "HOL-Library.Sublist" "HOL-Library.Multiset"
begin

text \<open>
  What the components share: the outcome of a Go call, 64-bit wrap-around, the functions of
  the packages \<^verbatim>\<open>strings\<close>, \<^verbatim>\<open>strconv\<close> and \<^verbatim>\<open>slices\<close> the sources call, and Go maps as association
  lists, with the lemmas and the collections of facts the component proofs use.

  A Go map is an association list with distinct keys; the order of the list is the order in
  which one \<^verbatim>\<open>range\<close> visits the entries. Go leaves this order open, so a theorem about a
  \<^verbatim>\<open>range\<close> quantifies over the list, and where the source relies on the order being
  irrelevant a lemma states invariance under permutation.
\<close>

named_theorems go_strings \<open>evaluation of string functions\<close>
named_theorems outcome_splits \<open>case splits on outcomes\<close>

section \<open>Outcomes of a call\<close>

text \<open>
  A Go function that returns \<^verbatim>\<open>(value, error)\<close> either returns a value, returns a non-nil
  error, or panics at run time.
\<close>

datatype panic = NilDereference | IndexOutOfRange | DivideByZero | TypeAssertion

datatype ('e, 'a) outcome = Ok 'a | Err 'e | Panic panic

declare outcome.splits [outcome_splits]

definition is_Ok :: "('e, 'a) outcome \<Rightarrow> bool" where
  "is_Ok r = (case r of Ok _ \<Rightarrow> True | _ \<Rightarrow> False)"

fun and_then :: "('e, 'a) outcome \<Rightarrow> ('a \<Rightarrow> ('e, 'b) outcome) \<Rightarrow> ('e, 'b) outcome" where
  "and_then (Ok a) f = f a"
| "and_then (Err e) f = Err e"
| "and_then (Panic p) f = Panic p"

lemma is_Ok_simps [simp]: "is_Ok (Ok a)" "\<not> is_Ok (Err e)" "\<not> is_Ok (Panic p)"
  by (simp_all add: is_Ok_def)

lemma is_Ok_iff: "is_Ok r \<longleftrightarrow> (\<exists>a. r = Ok a)"
  by (cases r) auto

lemma and_then_Ok_iff: "and_then r f = Ok b \<longleftrightarrow> (\<exists>a. r = Ok a \<and> f a = Ok b)"
  by (cases r) auto

section \<open>Machine integers\<close>

text \<open>Go's \<^verbatim>\<open>int\<close> is 64 bits wide on the targets the program is built for; \<open>wrap64\<close> is the
  two's-complement wrap-around of its arithmetic.\<close>

definition wrap64 :: "int \<Rightarrow> int" where
  "wrap64 x = (x + 2 ^ 63) mod 2 ^ 64 - 2 ^ 63"

abbreviation in_int64 :: "int \<Rightarrow> bool" where
  "in_int64 x \<equiv> - (2 ^ 63) \<le> x \<and> x < 2 ^ 63"

lemma in_int64_u32: "0 \<le> x \<Longrightarrow> x \<le> 4294967295 \<Longrightarrow> in_int64 x"
  by simp

lemma wrap64_id [simp]: "in_int64 x \<Longrightarrow> wrap64 x = x"
  by (simp add: wrap64_def)

lemma wrap64_bounds: "in_int64 (wrap64 x)"
proof -
  have "0 \<le> (x + 2 ^ 63) mod 2 ^ 64" "(x + 2 ^ 63) mod 2 ^ 64 < (2 ^ 64 :: int)"
    by simp_all
  then show ?thesis by (simp add: wrap64_def)
qed

lemma wrap64_cong: "x mod 2 ^ 64 = y mod 2 ^ 64 \<Longrightarrow> wrap64 x = wrap64 y"
  unfolding wrap64_def by (metis mod_add_left_eq)

lemma wrap64_mod: "wrap64 x mod 2 ^ 64 = x mod 2 ^ 64"
  unfolding wrap64_def by (metis add_diff_cancel_right' mod_diff_left_eq)

lemma wrap64_add_left [simp]: "wrap64 (wrap64 x + y) = wrap64 (x + y)"
  by (rule wrap64_cong) (metis mod_add_left_eq wrap64_mod)

lemma wrap64_add_right [simp]: "wrap64 (x + wrap64 y) = wrap64 (x + y)"
  by (metis add.commute wrap64_add_left)

lemma wrap64_idem [simp]: "wrap64 (wrap64 x) = wrap64 x"
  by (rule wrap64_id) (rule wrap64_bounds)

text \<open>The remainder operator truncates towards zero and traps on a zero divisor.\<close>

definition go_rem :: "int \<Rightarrow> int \<Rightarrow> ('e, int) outcome" where
  "go_rem a b = (if b = 0 then Panic DivideByZero else Ok (sgn a * (\<bar>a\<bar> mod \<bar>b\<bar>)))"

lemma go_rem_nonneg: "0 \<le> a \<Longrightarrow> 0 < b \<Longrightarrow> go_rem a b = Ok (a mod b)"
  by (cases "a = 0") (simp_all add: go_rem_def)

lemma go_rem_zero [simp]: "go_rem a 0 = Panic DivideByZero"
  by (simp add: go_rem_def)

lemma go_rem_bounded:
  assumes "0 < b" "go_rem a b = Ok r"
  shows "\<bar>r\<bar> < b"
proof -
  have "\<bar>a\<bar> mod \<bar>b\<bar> < b" "0 \<le> \<bar>a\<bar> mod \<bar>b\<bar>" using assms(1) by simp_all
  with assms show ?thesis by (auto simp: go_rem_def abs_mult sgn_if split: if_splits)
qed

lemma go_rem_Ok_iff: "(\<exists>r. go_rem a b = Ok r) \<longleftrightarrow> b \<noteq> 0"
  by (simp add: go_rem_def)

section \<open>The package strings\<close>

fun HasPrefix :: "string \<Rightarrow> string \<Rightarrow> bool" where
  "HasPrefix s [] = True"
| "HasPrefix [] (c # p) = False"
| "HasPrefix (d # s) (c # p) = (c = d \<and> HasPrefix s p)"

definition TrimPrefix :: "string \<Rightarrow> string \<Rightarrow> string" where
  "TrimPrefix s p = (if HasPrefix s p then drop (length p) s else s)"

fun Contains :: "string \<Rightarrow> string \<Rightarrow> bool" where
  "Contains [] sub = (sub = [])"
| "Contains (c # s) sub = (HasPrefix (c # s) sub \<or> Contains s sub)"

text \<open>\<^verbatim>\<open>strings.Index\<close>: the position of the first occurrence, or -1.\<close>

fun Index_from :: "int \<Rightarrow> string \<Rightarrow> string \<Rightarrow> int" where
  "Index_from i s sub =
     (if HasPrefix s sub then i else case s of [] \<Rightarrow> -1 | _ # t \<Rightarrow> Index_from (i + 1) t sub)"

declare Index_from.simps [simp del]

definition Index :: "string \<Rightarrow> string \<Rightarrow> int" where
  "Index s sub = Index_from 0 s sub"

text \<open>\<^verbatim>\<open>strings.Replace(s, old, new, 1)\<close> for a non-empty \<open>old\<close>.\<close>

fun ReplaceOne :: "string \<Rightarrow> string \<Rightarrow> string \<Rightarrow> string" where
  "ReplaceOne [] old new = []"
| "ReplaceOne (c # s) old new =
     (if HasPrefix (c # s) old then new @ drop (length old) (c # s)
      else c # ReplaceOne s old new)"

text \<open>\<^verbatim>\<open>strings.Split\<close> with a separator of one character, and \<^verbatim>\<open>strings.Join\<close>.\<close>

fun Split :: "string \<Rightarrow> char \<Rightarrow> string list" where
  "Split [] sep = [[]]"
| "Split (c # s) sep =
     (if c = sep then [] # Split s sep
      else case Split s sep of [] \<Rightarrow> [[c]] | w # ws \<Rightarrow> (c # w) # ws)"

fun Join :: "string list \<Rightarrow> string \<Rightarrow> string" where
  "Join [] sep = []"
| "Join [w] sep = w"
| "Join (w # v # ws) sep = w @ sep @ Join (v # ws) sep"

lemma HasPrefix_iff: "HasPrefix s p \<longleftrightarrow> (\<exists>t. s = p @ t)"
  by (induction s p rule: HasPrefix.induct) auto

lemma HasPrefix_append [simp]: "HasPrefix (p @ t) p"
  by (auto simp: HasPrefix_iff)

lemma HasPrefix_refl [simp]: "HasPrefix p p"
  by (auto simp: HasPrefix_iff)

lemma HasPrefix_trans: "HasPrefix s p \<Longrightarrow> HasPrefix p q \<Longrightarrow> HasPrefix s q"
  by (auto simp: HasPrefix_iff)

lemma TrimPrefix_append [simp]: "TrimPrefix (p @ t) p = t"
  by (simp add: TrimPrefix_def)

lemma Contains_iff: "Contains s sub \<longleftrightarrow> (\<exists>a b. s = a @ sub @ b)"
proof (induction s)
  case Nil
  then show ?case by auto
next
  case (Cons c s)
  have "(\<exists>a b. c # s = a @ sub @ b) \<longleftrightarrow> (\<exists>t. c # s = sub @ t) \<or> (\<exists>a b. s = a @ sub @ b)"
    by (metis append_Cons append_Nil append_eq_Cons_conv list.exhaust list.inject)
  with Cons show ?case by (simp add: HasPrefix_iff)
qed

lemma Contains_infix [simp]: "Contains (a @ sub @ b) sub"
  by (auto simp: Contains_iff)

lemma HasPrefix_Contains: "HasPrefix s p \<Longrightarrow> Contains s p"
  by (auto simp: HasPrefix_iff Contains_iff intro: exI [of _ "[]"])

lemma Split_no_sep: "sep \<notin> set s \<Longrightarrow> Split s sep = [s]"
  by (induction s) auto

lemma Split_nonempty [simp]: "Split s sep \<noteq> []"
  by (induction s) (auto split: list.splits)

lemma Split_append_sep: "sep \<notin> set w \<Longrightarrow> Split (w @ sep # s) sep = w # Split s sep"
  by (induction w) auto

lemma Split_Join:
  "ws \<noteq> [] \<Longrightarrow> \<forall>w \<in> set ws. sep \<notin> set w \<Longrightarrow> Split (Join ws [sep]) sep = ws"
proof (induction ws "[sep]" rule: Join.induct)
  case (3 w v ws)
  then show ?case by (simp add: Split_append_sep)
qed (auto simp: Split_no_sep)

section \<open>The package strconv\<close>

definition is_digit :: "char \<Rightarrow> bool" where
  "is_digit c = (48 \<le> (of_char c :: nat) \<and> (of_char c :: nat) \<le> 57)"

definition digit_val :: "char \<Rightarrow> int" where
  "digit_val c = int (of_char c) - 48"

definition digit_char :: "nat \<Rightarrow> char" where
  "digit_char n = char_of (48 + n)"

fun nat_dec :: "nat \<Rightarrow> string" where
  "nat_dec n = (if n < 10 then [digit_char n] else nat_dec (n div 10) @ [digit_char (n mod 10)])"

declare nat_dec.simps [simp del]

definition Itoa :: "int \<Rightarrow> string" where
  "Itoa i = (if i < 0 then CHR ''-'' # nat_dec (nat (- i)) else nat_dec (nat i))"

fun dec_val :: "int \<Rightarrow> string \<Rightarrow> int option" where
  "dec_val acc [] = Some acc"
| "dec_val acc (c # cs) = (if is_digit c then dec_val (10 * acc + digit_val c) cs else None)"

definition unsigned_dec :: "string \<Rightarrow> int option" where
  "unsigned_dec s = (if s = [] then None else dec_val 0 s)"

text \<open>\<^verbatim>\<open>strconv.Atoi\<close>: an optional sign, at least one digit, and a value that fits 64 bits.\<close>

definition Atoi :: "string \<Rightarrow> int option" where
  "Atoi s =
     (let v = (case s of
                 [] \<Rightarrow> None
               | c # r \<Rightarrow> (if c = CHR ''-'' then map_option uminus (unsigned_dec r)
                           else if c = CHR ''+'' then unsigned_dec r
                           else unsigned_dec s))
      in case v of None \<Rightarrow> None | Some i \<Rightarrow> (if in_int64 i then Some i else None))"

text \<open>\<^verbatim>\<open>strconv.ParseUint(s, 10, 32)\<close>: the value and whether the error is nil. A syntax error
  gives 0, a value out of range the largest 32-bit number.\<close>

fun ParseUint32_loop :: "int \<Rightarrow> string \<Rightarrow> int \<times> bool" where
  "ParseUint32_loop n [] = (n, True)"
| "ParseUint32_loop n (c # cs) =
     (if \<not> is_digit c then (0, False)
      else if 10 * n + digit_val c > 4294967295 then (4294967295, False)
      else ParseUint32_loop (10 * n + digit_val c) cs)"

definition ParseUint32 :: "string \<Rightarrow> int \<times> bool" where
  "ParseUint32 s = (if s = [] then (0, False) else ParseUint32_loop 0 s)"

lemma digit_char_digit [simp]: "n < 10 \<Longrightarrow> is_digit (digit_char n)"
  by (simp add: is_digit_def digit_char_def)

lemma digit_val_digit_char [simp]: "n < 10 \<Longrightarrow> digit_val (digit_char n) = int n"
  by (simp add: digit_val_def digit_char_def)

lemma digit_val_bounds: "is_digit c \<Longrightarrow> 0 \<le> digit_val c \<and> digit_val c \<le> 9"
  by (auto simp: is_digit_def digit_val_def)

lemma nat_dec_digits: "c \<in> set (nat_dec n) \<Longrightarrow> is_digit c"
proof (induction n rule: nat_dec.induct)
  case (1 n)
  then show ?case by (subst (asm) nat_dec.simps) (auto split: if_splits)
qed

lemma nat_dec_nonempty [simp]: "nat_dec n \<noteq> []"
  by (subst nat_dec.simps) simp

lemma dec_val_append:
  "dec_val a (xs @ ys) = (case dec_val a xs of None \<Rightarrow> None | Some b \<Rightarrow> dec_val b ys)"
  by (induction xs arbitrary: a) auto

lemma dec_val_nat_dec: "dec_val 0 (nat_dec n) = Some (int n)"
proof (induction n rule: nat_dec.induct)
  case (1 n)
  show ?case
  proof (cases "n < 10")
    case True
    then show ?thesis by (subst nat_dec.simps) simp
  next
    case False
    with 1 have "dec_val 0 (nat_dec (n div 10)) = Some (int (n div 10))" by simp
    with False show ?thesis
      by (subst nat_dec.simps) (simp add: dec_val_append zdiv_int zmod_int)
  qed
qed

lemma unsigned_dec_nat_dec [simp]: "unsigned_dec (nat_dec n) = Some (int n)"
  by (simp add: unsigned_dec_def dec_val_nat_dec)

lemma not_digit_sign [simp]: "\<not> is_digit CHR ''-''" "\<not> is_digit CHR ''+''" "\<not> is_digit CHR '',''"
  by (simp_all add: is_digit_def)

lemma nat_dec_no_sign:
  "CHR ''-'' \<notin> set (nat_dec n)" "CHR '','' \<notin> set (nat_dec n)" "CHR ''+'' \<notin> set (nat_dec n)"
  by (auto dest: nat_dec_digits)

lemma Atoi_Itoa [simp]: "in_int64 i \<Longrightarrow> Atoi (Itoa i) = Some i"
proof (cases "i < 0")
  case True
  moreover assume "in_int64 i"
  ultimately show ?thesis by (simp add: Atoi_def Itoa_def)
next
  case False
  assume "in_int64 i"
  obtain c r where cr: "nat_dec (nat i) = c # r" by (cases "nat_dec (nat i)") auto
  have "c \<noteq> CHR ''-''" "c \<noteq> CHR ''+''"
    using nat_dec_no_sign [of "nat i"] cr by auto
  with False \<open>in_int64 i\<close> show ?thesis
    by (simp add: Atoi_def Itoa_def cr) (simp flip: cr)
qed

lemma Itoa_inj: "in_int64 i \<Longrightarrow> in_int64 j \<Longrightarrow> Itoa i = Itoa j \<Longrightarrow> i = j"
  by (metis Atoi_Itoa option.inject)

lemma Itoa_inj_nonneg: "0 \<le> i \<Longrightarrow> 0 \<le> j \<Longrightarrow> Itoa i = Itoa j \<Longrightarrow> i = j"
  by (simp add: Itoa_def) (metis int_nat_eq option.inject unsigned_dec_nat_dec)

lemma dec_val_mono: "dec_val a cs = Some v \<Longrightarrow> 0 \<le> a \<Longrightarrow> a \<le> v"
proof (induction cs arbitrary: a)
  case (Cons c cs)
  then have d: "is_digit c" and "dec_val (10 * a + digit_val c) cs = Some v"
    by (auto split: if_splits)
  with Cons.IH [of "10 * a + digit_val c"] Cons.prems(2) digit_val_bounds [OF d]
  show ?case by auto
qed simp

lemma ParseUint32_loop_dec_val:
  "dec_val a cs = Some v \<Longrightarrow> 0 \<le> a \<Longrightarrow> v \<le> 4294967295 \<Longrightarrow> ParseUint32_loop a cs = (v, True)"
proof (induction cs arbitrary: a)
  case (Cons c cs)
  then have d: "is_digit c" and v: "dec_val (10 * a + digit_val c) cs = Some v"
    by (auto split: if_splits)
  have nn: "0 \<le> 10 * a + digit_val c" using Cons.prems(2) digit_val_bounds [OF d] by auto
  from dec_val_mono [OF v nn] Cons.prems(3) d Cons.IH [OF v nn] show ?case by auto
qed simp

lemma ParseUint32_Itoa [simp]:
  assumes "0 \<le> i" "i \<le> 4294967295"
  shows "ParseUint32 (Itoa i) = (i, True)"
proof -
  have "dec_val 0 (nat_dec (nat i)) = Some i"
    using assms(1) by (simp add: dec_val_nat_dec)
  then show ?thesis
    using assms by (simp add: ParseUint32_def Itoa_def ParseUint32_loop_dec_val)
qed

lemma ParseUint32_loop_range:
  "0 \<le> n \<Longrightarrow> n \<le> 4294967295 \<Longrightarrow> 0 \<le> fst (ParseUint32_loop n cs) \<and> fst (ParseUint32_loop n cs) \<le> 4294967295"
proof (induction n cs rule: ParseUint32_loop.induct)
  case (2 n c cs)
  then show ?case using digit_val_bounds [of c] by auto
qed simp

lemma ParseUint32_range: "0 \<le> fst (ParseUint32 s) \<and> fst (ParseUint32 s) \<le> 4294967295"
  using ParseUint32_loop_range [of 0 s] by (auto simp: ParseUint32_def)

section \<open>Lists\<close>

lemma sum_list_map_perm:
  "mset xs = mset ys \<Longrightarrow> sum_list (map f xs) = (sum_list (map f ys) :: int)"
  by (metis mset_map sum_mset_sum_list)

lemma find_append:
  "find P (xs @ ys) = (case find P xs of Some x \<Rightarrow> Some x | None \<Rightarrow> find P ys)"
  by (induction xs) auto

lemma perm_set_eq: "mset xs = mset ys \<Longrightarrow> set xs = set ys"
  by (metis set_mset_mset)

text \<open>Go maps: overwriting an entry of an association list.\<close>

lemma set_update_subset: "set (AList.update k v al) \<subseteq> insert (k, v) (set al)"
  by (induction al) auto

end
