(* ===== verification/Cpu_Annotation.thy ===== *)
theory Cpu_Annotation
  imports Go_Prelude
begin

text \<open>
  The CPU annotation of a pod, \<^verbatim>\<open>pkg/types/cpu-annotation.go\<close>: which processes of which
  container run on which pool, decoded from JSON and validated. The JSON decoder is a parameter
  (\<open>unmarshal\<close>): it gives the containers it could fill in and the error it reports, since the
  source stores the containers before it looks at the error. CPU amounts are added up with
  Go's 64-bit wrap-around.

  The lemmas show that a decoded annotation is keyed by container name and valid, that the sums
  and the pool list are those of the named container, and that none of them depends on the
  order in which the map is visited.
\<close>

section \<open>Data\<close>

record process =
  ProcName :: string
  Args :: "string list"
  CPUs :: int
  PoolName :: string

record ann_container =
  ann_Name :: string
  Processes :: "process list"

type_synonym cpu_annotation = "(string \<times> ann_container) list"

datatype annotation_error =
  ErrNoContainerName
| ErrNoProcesses
| ErrNoProcessName
| ErrNoCpus
| AnnotationUnmarshal string

section \<open>Operations\<close>

definition NewCPUAnnotation :: cpu_annotation where
  "NewCPUAnnotation = []"

fun Containers :: "cpu_annotation \<Rightarrow> string list" where
  "Containers [] = []"
| "Containers ((_, cont) # rest) = ann_Name cont # Containers rest"

definition ContainerExists :: "cpu_annotation \<Rightarrow> string \<Rightarrow> bool" where
  "ContainerExists ann name = (map_of ann name \<noteq> None)"

text \<open>The loops over the processes of a container and over the containers, with the test on
  the process as a parameter; the three sums of the source are its instances.\<close>

fun add_processes :: "(process \<Rightarrow> bool) \<Rightarrow> int \<Rightarrow> process list \<Rightarrow> int" where
  "add_processes sel cpuTime [] = cpuTime"
| "add_processes sel cpuTime (process # ps) =
     add_processes sel (if sel process then wrap64 (cpuTime + CPUs process) else cpuTime) ps"

fun add_containers :: "(process \<Rightarrow> bool) \<Rightarrow> string \<Rightarrow> int \<Rightarrow> cpu_annotation \<Rightarrow> int" where
  "add_containers sel container cpuTime [] = cpuTime"
| "add_containers sel container cpuTime ((_, cont) # rest) =
     add_containers sel container
       (if ann_Name cont = container then add_processes sel cpuTime (Processes cont) else cpuTime) rest"

definition ContainerSharedCPUTime :: "cpu_annotation \<Rightarrow> string \<Rightarrow> int" where
  "ContainerSharedCPUTime ann container =
     add_containers (\<lambda>process. HasPrefix (PoolName process) ''shared'') container 0 ann"

definition ContainerExclusiveCPU :: "cpu_annotation \<Rightarrow> string \<Rightarrow> int" where
  "ContainerExclusiveCPU ann container =
     add_containers (\<lambda>process. HasPrefix (PoolName process) ''exclusive'') container 0 ann"

definition ContainerTotalCPURequest :: "cpu_annotation \<Rightarrow> string \<Rightarrow> string \<Rightarrow> int" where
  "ContainerTotalCPURequest ann pool cName =
     add_containers (\<lambda>process. PoolName process = pool) cName 0 ann"

text \<open>\<^verbatim>\<open>ContainerPools\<close>: \<open>pools\<close> is the list built so far, its elements the keys of \<^verbatim>\<open>poolMap\<close>.\<close>

fun pools_of_processes :: "string list \<Rightarrow> process list \<Rightarrow> string list" where
  "pools_of_processes pools [] = pools"
| "pools_of_processes pools (process # ps) =
     pools_of_processes
       (if PoolName process \<in> set pools then pools else pools @ [PoolName process]) ps"

fun ContainerPools_loop :: "string \<Rightarrow> string list \<Rightarrow> cpu_annotation \<Rightarrow> string list" where
  "ContainerPools_loop cName pools [] = pools"
| "ContainerPools_loop cName pools ((_, container) # rest) =
     ContainerPools_loop cName
       (if ann_Name container = cName then pools_of_processes pools (Processes container) else pools) rest"

definition ContainerPools :: "cpu_annotation \<Rightarrow> string \<Rightarrow> string list" where
  "ContainerPools ann cName = ContainerPools_loop cName [] ann"

fun store_containers :: "cpu_annotation \<Rightarrow> ann_container list \<Rightarrow> cpu_annotation" where
  "store_containers ann [] = ann"
| "store_containers ann (c # cs) = store_containers (AList.update (ann_Name c) c ann) cs"

fun validate_processes :: "process list \<Rightarrow> annotation_error option" where
  "validate_processes [] = None"
| "validate_processes (p # ps) =
     (if ProcName p = [] then Some ErrNoProcessName
      else if CPUs p = 0 then Some ErrNoCpus
      else validate_processes ps)"

fun validate_containers :: "cpu_annotation \<Rightarrow> annotation_error option" where
  "validate_containers [] = None"
| "validate_containers ((_, c) # rest) =
     (if ann_Name c = [] then Some ErrNoContainerName
      else if Processes c = [] then Some ErrNoProcesses
      else case validate_processes (Processes c) of
             Some e \<Rightarrow> Some e
           | None \<Rightarrow> validate_containers rest)"

text \<open>\<^verbatim>\<open>Decode\<close> mutates its receiver: the result is the new map and the returned error.\<close>

definition Decode ::
  "(string \<Rightarrow> ann_container list \<times> string option) \<Rightarrow> cpu_annotation \<Rightarrow> string
    \<Rightarrow> cpu_annotation \<times> annotation_error option" where
  "Decode unmarshal ann annotation =
     (let (containers, err) = unmarshal annotation;
          ann' = store_containers ann containers
      in case err of
           Some e \<Rightarrow> (ann', Some (AnnotationUnmarshal e))
         | None \<Rightarrow> (ann', validate_containers ann'))"

section \<open>Sums\<close>

text \<open>What the loops compute: the exact sum, wrapped once.\<close>

definition requested :: "(process \<Rightarrow> bool) \<Rightarrow> process list \<Rightarrow> int" where
  "requested sel ps = sum_list (map CPUs (filter sel ps))"

definition requested_by :: "(process \<Rightarrow> bool) \<Rightarrow> string \<Rightarrow> cpu_annotation \<Rightarrow> int" where
  "requested_by sel c ann =
     sum_list (map (\<lambda>(_, cont). if ann_Name cont = c then requested sel (Processes cont) else 0) ann)"

lemma add_processes_wrap:
  "wrap64 (add_processes sel a ps) = wrap64 (a + requested sel ps)"
proof (induction ps arbitrary: a)
  case (Cons p ps)
  show ?case
  proof (cases "sel p")
    case True
    have "wrap64 (add_processes sel a (p # ps)) = wrap64 (wrap64 (a + CPUs p) + requested sel ps)"
      using True Cons.IH [of "wrap64 (a + CPUs p)"] by simp
    then show ?thesis using True by (simp add: requested_def add.assoc)
  next
    case False
    then show ?thesis using Cons.IH [of a] by (simp add: requested_def)
  qed
qed (simp add: requested_def)

lemma add_processes_int64: "in_int64 a \<Longrightarrow> in_int64 (add_processes sel a ps)"
proof (induction ps arbitrary: a)
  case (Cons p ps)
  then show ?case using wrap64_bounds [of "a + CPUs p"] by simp
qed simp

lemma add_containers_int64: "in_int64 a \<Longrightarrow> in_int64 (add_containers sel c a ann)"
proof (induction ann arbitrary: a)
  case (Cons e ann)
  then show ?case using add_processes_int64 [OF Cons.prems] by (cases e) simp
qed simp

lemma add_containers_wrap:
  "wrap64 (add_containers sel c a ann) = wrap64 (a + requested_by sel c ann)"
proof (induction ann arbitrary: a)
  case (Cons e ann)
  obtain k cont where e: "e = (k, cont)" by (cases e)
  show ?case
  proof (cases "ann_Name cont = c")
    case True
    have "wrap64 (add_containers sel c a (e # ann)) =
        wrap64 (add_processes sel a (Processes cont) + requested_by sel c ann)"
      using True e Cons.IH by simp
    also have "\<dots> = wrap64 (wrap64 (add_processes sel a (Processes cont)) + requested_by sel c ann)"
      by simp
    also have "\<dots> = wrap64 (a + requested sel (Processes cont) + requested_by sel c ann)"
      by (simp add: add_processes_wrap)
    finally show ?thesis using True e by (simp add: requested_by_def add.assoc)
  next
    case False
    then show ?thesis using e Cons.IH [of a] by (simp add: requested_by_def)
  qed
qed (simp add: requested_by_def)

lemma add_containers_eq: "add_containers sel c 0 ann = wrap64 (requested_by sel c ann)"
  using add_containers_wrap [of sel c 0 ann] add_containers_int64 [of 0 sel c ann] by simp

lemmas annotation_sums =
  ContainerSharedCPUTime_def ContainerExclusiveCPU_def ContainerTotalCPURequest_def add_containers_eq

lemma requested_by_perm: "mset ann = mset ann' \<Longrightarrow> requested_by sel c ann = requested_by sel c ann'"
  unfolding requested_by_def by (rule sum_list_map_perm)

section \<open>Well-formed annotations\<close>

text \<open>The invariant of the map: distinct keys, each the name of the container it maps to.\<close>

definition ann_keyed :: "cpu_annotation \<Rightarrow> bool" where
  "ann_keyed ann \<longleftrightarrow> distinct (map fst ann) \<and> (\<forall>(k, c) \<in> set ann. ann_Name c = k)"

lemma ann_keyed_New [simp]: "ann_keyed NewCPUAnnotation"
  by (simp add: ann_keyed_def NewCPUAnnotation_def)

lemma ann_keyed_update: "ann_keyed ann \<Longrightarrow> ann_keyed (AList.update (ann_Name c) c ann)"
  using set_update_subset [of "ann_Name c" c ann]
  by (auto simp: ann_keyed_def distinct_update)

lemma ann_keyed_store: "ann_keyed ann \<Longrightarrow> ann_keyed (store_containers ann cs)"
  by (induction cs arbitrary: ann) (simp_all add: ann_keyed_update)

lemma ann_keyed_Decode: "ann_keyed ann \<Longrightarrow> ann_keyed (fst (Decode um ann s))"
  by (simp add: Decode_def Let_def ann_keyed_store split: prod.splits option.splits)

text \<open>The last container of a name wins.\<close>

lemma map_of_store_containers:
  "map_of (store_containers ann cs) n =
     (case find (\<lambda>c. ann_Name c = n) (rev cs) of Some c \<Rightarrow> Some c | None \<Rightarrow> map_of ann n)"
proof (induction cs arbitrary: ann)
  case (Cons c cs)
  then show ?case
    by (simp add: update_conv' find_append split: option.splits)
qed simp

lemma requested_by_keyed:
  assumes "ann_keyed ann"
  shows "requested_by sel n ann =
    (case map_of ann n of None \<Rightarrow> 0 | Some c \<Rightarrow> requested sel (Processes c))"
  using assms
proof (induction ann)
  case (Cons e ann)
  obtain k c where e: "e = (k, c)" by (cases e)
  have keyed: "ann_keyed ann" and k: "ann_Name c = k" and fresh: "k \<notin> fst ` set ann"
    using Cons.prems e by (auto simp: ann_keyed_def)
  have "map_of ann k = None" using fresh by (simp add: map_of_eq_None_iff)
  with Cons.IH [OF keyed] k e show ?case by (auto simp: requested_by_def)
qed (simp add: requested_by_def)

lemma validate_processes_None_iff:
  "validate_processes ps = None \<longleftrightarrow> (\<forall>p \<in> set ps. ProcName p \<noteq> [] \<and> CPUs p \<noteq> 0)"
  by (induction ps) auto

definition container_valid :: "ann_container \<Rightarrow> bool" where
  "container_valid c \<longleftrightarrow> ann_Name c \<noteq> [] \<and> Processes c \<noteq> [] \<and>
     (\<forall>p \<in> set (Processes c). ProcName p \<noteq> [] \<and> CPUs p \<noteq> 0)"

lemma validate_containers_None_iff:
  "validate_containers ann = None \<longleftrightarrow> (\<forall>(k, c) \<in> set ann. container_valid c)"
proof (induction ann)
  case (Cons e ann)
  obtain k c where e: "e = (k, c)" by (cases e)
  have "validate_containers (e # ann) = None \<longleftrightarrow> container_valid c \<and> validate_containers ann = None"
    by (cases "validate_processes (Processes c)")
       (auto simp: e container_valid_def simp flip: validate_processes_None_iff)
  with Cons e show ?case by simp
qed simp

lemma Containers_eq: "Containers ann = map (ann_Name \<circ> snd) ann"
  by (induction ann) auto

lemma Containers_keyed: "ann_keyed ann \<Longrightarrow> Containers ann = map fst ann"
  by (auto simp: Containers_eq ann_keyed_def)

lemma set_pools_of_processes [simp]:
  "set (pools_of_processes pools ps) = set pools \<union> PoolName ` set ps"
  by (induction ps arbitrary: pools) auto

lemma distinct_pools_of_processes: "distinct pools \<Longrightarrow> distinct (pools_of_processes pools ps)"
  by (induction ps arbitrary: pools) auto

lemma set_ContainerPools_loop:
  "set (ContainerPools_loop n pools ann) =
     set pools \<union> (\<Union>e \<in> set ann. if ann_Name (snd e) = n then PoolName ` set (Processes (snd e)) else {})"
proof (induction ann arbitrary: pools)
  case (Cons e ann)
  then show ?case by (cases e) (simp add: Un_assoc)
qed simp

lemma distinct_ContainerPools_loop: "distinct pools \<Longrightarrow> distinct (ContainerPools_loop n pools ann)"
  by (induction ann arbitrary: pools) (auto simp: distinct_pools_of_processes)

lemma set_ContainerPools_keyed:
  assumes "ann_keyed ann"
  shows "set (ContainerPools ann n) =
    (case map_of ann n of None \<Rightarrow> {} | Some c \<Rightarrow> PoolName ` set (Processes c))"
proof -
  have keyed: "e \<in> set ann \<Longrightarrow> ann_Name (snd e) = n \<Longrightarrow> map_of ann n = Some (snd e)" for e
    using assms by (cases e) (auto simp: ann_keyed_def)
  have "set (ContainerPools ann n) =
      (\<Union>e \<in> set ann. if ann_Name (snd e) = n then PoolName ` set (Processes (snd e)) else {})"
    by (simp add: ContainerPools_def set_ContainerPools_loop)
  also have "\<dots> = (case map_of ann n of None \<Rightarrow> {} | Some c \<Rightarrow> PoolName ` set (Processes c))"
  proof (cases "map_of ann n")
    case None
    with keyed show ?thesis by (auto split: if_splits)
  next
    case (Some c)
    then have "(n, c) \<in> set ann" by (rule map_of_SomeD)
    moreover from this have "ann_Name c = n" using assms by (auto simp: ann_keyed_def)
    ultimately have "PoolName ` set (Processes c) \<subseteq>
      (\<Union>e \<in> set ann. if ann_Name (snd e) = n then PoolName ` set (Processes (snd e)) else {})"
      by (force intro!: UN_upper)
    with keyed Some show ?thesis by (auto split: if_splits)
  qed
  finally show ?thesis .
qed

text \<open>The amount a container is annotated with, over the processes that satisfy a test.\<close>

definition annotated_total :: "cpu_annotation \<Rightarrow> string \<Rightarrow> (process \<Rightarrow> bool) \<Rightarrow> int" where
  "annotated_total ann n sel =
     wrap64 (case map_of ann n of None \<Rightarrow> 0 | Some c \<Rightarrow> requested sel (Processes c))"

section \<open>Properties\<close>

text \<open>C32: Decoding an annotation into an empty map succeeds exactly when the JSON is well formed
  and every container that remains (the last one of each name) has a name, at least one process,
  and only processes with a name and a non-zero CPU amount; the map is then keyed by container
  name, and a lookup gives the last container decoded under that name.\<close>

theorem Decode_correct:
  "(snd (Decode um NewCPUAnnotation s) = None \<longleftrightarrow>
      snd (um s) = None \<and> (\<forall>(k, c) \<in> set (fst (Decode um NewCPUAnnotation s)). container_valid c)) \<and>
   ann_keyed (fst (Decode um NewCPUAnnotation s)) \<and>
   (\<forall>n. map_of (fst (Decode um NewCPUAnnotation s)) n = find (\<lambda>c. ann_Name c = n) (rev (fst (um s))))"
proof (intro conjI allI)
  show "ann_keyed (fst (Decode um NewCPUAnnotation s))"
    by (rule ann_keyed_Decode) (rule ann_keyed_New)
  show "snd (Decode um NewCPUAnnotation s) = None \<longleftrightarrow>
      snd (um s) = None \<and> (\<forall>(k, c) \<in> set (fst (Decode um NewCPUAnnotation s)). container_valid c)"
    by (auto simp: Decode_def Let_def validate_containers_None_iff split: prod.splits option.splits)
  show "map_of (fst (Decode um NewCPUAnnotation s)) n = find (\<lambda>c. ann_Name c = n) (rev (fst (um s)))" for n
    by (auto simp: Decode_def Let_def NewCPUAnnotation_def map_of_store_containers
        split: prod.splits option.splits)
qed

theorem Decode_correct_witness:
  "snd (Decode (\<lambda>s. ([\<lparr>ann_Name = ''c1'', Processes = [\<lparr>ProcName = ''sh'', Args = [], CPUs = 1, PoolName = ''shared''\<rparr>]\<rparr>], None))
     NewCPUAnnotation ''x'') = None"
  by (subst conjunct1 [OF Decode_correct])
     (simp add: Decode_def NewCPUAnnotation_def container_valid_def)

text \<open>C33: On a keyed annotation the CPU time of a container on the shared pools, on the exclusive
  pools, and on one pool is the sum over the processes annotated for that container, reduced to
  64 bits, and 0 for a container without annotation; the pools of a container are listed once
  each. None of this depends on the order in which the map is visited.\<close>

theorem annotation_queries:
  assumes "ann_keyed ann" and "mset ann = mset ann'"
  shows "ContainerSharedCPUTime ann' n = annotated_total ann n (\<lambda>p. HasPrefix (PoolName p) ''shared'') \<and>
    ContainerExclusiveCPU ann' n = annotated_total ann n (\<lambda>p. HasPrefix (PoolName p) ''exclusive'') \<and>
    ContainerTotalCPURequest ann' pool n = annotated_total ann n (\<lambda>p. PoolName p = pool) \<and>
    set (ContainerPools ann' n) =
      (case map_of ann n of None \<Rightarrow> {} | Some c \<Rightarrow> PoolName ` set (Processes c)) \<and>
    distinct (ContainerPools ann' n)"
proof (intro conjI)
  have req: "requested_by sel n ann' = (case map_of ann n of None \<Rightarrow> 0 | Some c \<Rightarrow> requested sel (Processes c))" for sel
    using requested_by_perm [OF assms(2)] requested_by_keyed [OF assms(1)] by metis
  show "ContainerSharedCPUTime ann' n = annotated_total ann n (\<lambda>p. HasPrefix (PoolName p) ''shared'')"
    "ContainerExclusiveCPU ann' n = annotated_total ann n (\<lambda>p. HasPrefix (PoolName p) ''exclusive'')"
    "ContainerTotalCPURequest ann' pool n = annotated_total ann n (\<lambda>p. PoolName p = pool)"
    by (simp_all add: annotation_sums req annotated_total_def)
  have "set (ContainerPools ann' n) = set (ContainerPools ann n)"
    using perm_set_eq [OF assms(2)] by (simp add: ContainerPools_def set_ContainerPools_loop)
  then show "set (ContainerPools ann' n) =
      (case map_of ann n of None \<Rightarrow> {} | Some c \<Rightarrow> PoolName ` set (Processes c))"
    by (simp add: set_ContainerPools_keyed [OF assms(1)])
  show "distinct (ContainerPools ann' n)"
    by (simp add: ContainerPools_def distinct_ContainerPools_loop)
qed

definition example_annotation :: cpu_annotation where
  "example_annotation =
     [(''Container2'', \<lparr>ann_Name = ''Container2'', Processes =
        [\<lparr>ProcName = ''proc4'', Args = [''-c'', ''1''], CPUs = 120, PoolName = ''shared-pool1''\<rparr>,
         \<lparr>ProcName = ''proc5'', Args = [''-c'', ''1''], CPUs = 1, PoolName = ''exclusive-pool2''\<rparr>,
         \<lparr>ProcName = ''proc6'', Args = [''-c'', ''1''], CPUs = 130, PoolName = ''shared-pool1''\<rparr>,
         \<lparr>ProcName = ''proc7'', Args = [''-c'', ''1''], CPUs = 300, PoolName = ''shared-pool3''\<rparr>]\<rparr>)]"

theorem annotation_queries_witness:
  "ContainerSharedCPUTime example_annotation ''Container2'' = 550 \<and>
   ContainerTotalCPURequest example_annotation ''shared-pool1'' ''Container2'' = 250"
proof -
  have "ann_keyed example_annotation" by (simp add: ann_keyed_def example_annotation_def)
  from annotation_queries [OF this refl, of "''Container2''" "''shared-pool1''"] show ?thesis
    by (simp add: example_annotation_def requested_def wrap64_def annotated_total_def)
qed

end
