(* ===== verification/Checkpoint.thy ===== *)
theory Checkpoint
  imports Go_Prelude
begin

text \<open>
  The kubelet's device checkpoint: \<^verbatim>\<open>pkg/checkpoint/checkpoint.go\<close> (the types and the
  translation of the format of Kubernetes 1.21 to the older one) and the second reader,
  \<^verbatim>\<open>pkg/utils/util.go\<close> with \<^verbatim>\<open>pkg/types/type.go\<close>. The JSON decoders are parameters. The lemmas
  show that the translation keeps every entry in its place and merges the device ids of all
  NUMA nodes, and how the two readers choose between the formats.
\<close>

section \<open>The formats\<close>

record pod_devices_entry =
  PodUID :: string
  ContainerName :: string
  ResourceName :: string
  DeviceIDs :: "string list"

record new_pod_devices_entry =
  n_PodUID :: string
  n_ContainerName :: string
  n_ResourceName :: string
  n_DeviceIDs :: "(int \<times> string list) list"

record cp_file =
  PodDeviceEntries :: "pod_devices_entry list"

record new_cp_file =
  n_PodDeviceEntries :: "new_pod_devices_entry list"

definition entry_zero :: pod_devices_entry where
  "entry_zero = \<lparr>PodUID = [], ContainerName = [], ResourceName = [], DeviceIDs = []\<rparr>"

section \<open>Translation\<close>

fun append_devices :: "string list \<Rightarrow> (int \<times> string list) list \<Rightarrow> string list" where
  "append_devices ids [] = ids"
| "append_devices ids ((_, devicesPerNUMA) # rest) = append_devices (ids @ devicesPerNUMA) rest"

text \<open>The loop fills the preallocated slice position by position.\<close>

fun translate_loop ::
  "nat \<Rightarrow> new_pod_devices_entry list \<Rightarrow> pod_devices_entry list \<Rightarrow> pod_devices_entry list" where
  "translate_loop entryID [] old = old"
| "translate_loop entryID (e # es) old =
     translate_loop (Suc entryID) es
       (old[entryID := (old ! entryID)
          \<lparr>PodUID := n_PodUID e, ContainerName := n_ContainerName e, ResourceName := n_ResourceName e,
           DeviceIDs := append_devices (DeviceIDs (old ! entryID)) (n_DeviceIDs e)\<rparr>])"

definition TranslateNewCheckpointToOld :: "new_cp_file \<Rightarrow> cp_file" where
  "TranslateNewCheckpointToOld newFile =
     \<lparr>PodDeviceEntries =
        translate_loop 0 (n_PodDeviceEntries newFile)
          (replicate (length (n_PodDeviceEntries newFile)) entry_zero)\<rparr>"

text \<open>The reference: each entry on its own.\<close>

definition flatten_entry :: "new_pod_devices_entry \<Rightarrow> pod_devices_entry" where
  "flatten_entry e =
     \<lparr>PodUID = n_PodUID e, ContainerName = n_ContainerName e, ResourceName = n_ResourceName e,
      DeviceIDs = concat (map snd (n_DeviceIDs e))\<rparr>"

lemma append_devices_eq: "append_devices ids m = ids @ concat (map snd m)"
  by (induction ids m rule: append_devices.induct) auto

lemma translate_loop_eq:
  "translate_loop (length done) es (done @ replicate (length es) entry_zero) = done @ map flatten_entry es"
proof (induction es arbitrary: "done")
  case (Cons e es)
  have step: "(done @ replicate (length (e # es)) entry_zero)[length done := flatten_entry e] =
      (done @ [flatten_entry e]) @ replicate (length es) entry_zero" by simp
  have "translate_loop (length done) (e # es) (done @ replicate (length (e # es)) entry_zero) =
      translate_loop (length (done @ [flatten_entry e])) es ((done @ [flatten_entry e]) @ replicate (length es) entry_zero)"
    using step by (simp add: nth_append entry_zero_def append_devices_eq flatten_entry_def)
  also have "\<dots> = (done @ [flatten_entry e]) @ map flatten_entry es" by (rule Cons.IH)
  finally show ?case by simp
qed simp

lemma Translate_eq_map:
  "PodDeviceEntries (TranslateNewCheckpointToOld nf) = map flatten_entry (n_PodDeviceEntries nf)"
  using translate_loop_eq [of "[]" "n_PodDeviceEntries nf"]
  by (simp add: TranslateNewCheckpointToOld_def)

section \<open>The device ids of a container\<close>

text \<open>The reader of \<^verbatim>\<open>cpusetter\<close> (first part of \<^verbatim>\<open>getListOfAllocatedExclusiveCpus\<close>): the old format is
  tried first, the new one if that fails.\<close>

datatype checkpoint_error = CheckpointAccess string | CheckpointUnmarshal string

record cp_env =
  cp_read :: "(string, string) outcome"
  cp_unmarshal_old :: "string \<Rightarrow> (string, cp_file) outcome"
  cp_unmarshal_new :: "string \<Rightarrow> (string, new_cp_file) outcome"

definition read_checkpoint :: "cp_env \<Rightarrow> (checkpoint_error, cp_file) outcome" where
  "read_checkpoint env =
     (case cp_read env of
        Panic p \<Rightarrow> Panic p
      | Err e \<Rightarrow> Err (CheckpointAccess e)
      | Ok buf \<Rightarrow>
          (case cp_unmarshal_old env buf of
             Panic p \<Rightarrow> Panic p
           | Ok cp \<Rightarrow> Ok cp
           | Err _ \<Rightarrow>
               (case cp_unmarshal_new env buf of
                  Panic p \<Rightarrow> Panic p
                | Err e \<Rightarrow> Err (CheckpointUnmarshal e)
                | Ok newCpFile \<Rightarrow> Ok (TranslateNewCheckpointToOld newCpFile))))"

fun collect_devices ::
  "string \<Rightarrow> string \<Rightarrow> string \<Rightarrow> string list \<Rightarrow> pod_devices_entry list \<Rightarrow> string list" where
  "collect_devices podID contName poolName deviceIDs [] = deviceIDs"
| "collect_devices podID contName poolName deviceIDs (e # es) =
     collect_devices podID contName poolName
       (if PodUID e = podID \<and> ContainerName e = contName \<and> ResourceName e = poolName
        then deviceIDs @ DeviceIDs e else deviceIDs) es"

lemma collect_devices_eq:
  "collect_devices u c r ids es =
     ids @ concat (map DeviceIDs (filter (\<lambda>e. PodUID e = u \<and> ContainerName e = c \<and> ResourceName e = r) es))"
  by (induction es arbitrary: ids) auto

section \<open>The second reader\<close>

text \<open>The types of \<^verbatim>\<open>pkg/types/type.go\<close>; the pointer \<^verbatim>\<open>Data\<close> is an option.\<close>

record dev_entry =
  d_PodUID :: string
  d_ContainerName :: string
  d_ResourceName :: string
  d_DeviceIDs :: "string list"
  d_AllocResp :: string

record dev_entry_numa =
  dn_PodUID :: string
  dn_ContainerName :: string
  dn_ResourceName :: string
  dn_DeviceIDs :: "(int \<times> string list) list"
  dn_AllocResp :: string

record checkpoint_v1 =
  d_PodDeviceEntries :: "dev_entry list"
  d_RegisteredDevices :: "(string \<times> string list) list"

record checkpoint_numa =
  dn_PodDeviceEntries :: "dev_entry_numa list"
  dn_RegisteredDevices :: "(string \<times> string list) list"

record gcd_env =
  gcd_read :: "(string, string) outcome"
  gcd_numa :: "string \<Rightarrow> (string, checkpoint_numa option) outcome"
  gcd_v2 :: "string \<Rightarrow> (string, checkpoint_v1 option) outcome"
  gcd_v1 :: "string \<Rightarrow> (string, checkpoint_v1) outcome"

definition flatten_numa_entry :: "dev_entry_numa \<Rightarrow> dev_entry" where
  "flatten_numa_entry v =
     \<lparr>d_PodUID = dn_PodUID v, d_ContainerName = dn_ContainerName v, d_ResourceName = dn_ResourceName v,
      d_DeviceIDs = append_devices [] (dn_DeviceIDs v), d_AllocResp = dn_AllocResp v\<rparr>"

definition GetCheckpointData :: "gcd_env \<Rightarrow> (string, checkpoint_v1) outcome" where
  "GetCheckpointData env =
     (case gcd_read env of
        Panic p \<Rightarrow> Panic p
      | Err e \<Rightarrow> Err e
      | Ok data \<Rightarrow>
          (case gcd_numa env data of
             Panic p \<Rightarrow> Panic p
           | Ok None \<Rightarrow> Panic NilDereference
           | Ok (Some d) \<Rightarrow>
               Ok \<lparr>d_PodDeviceEntries = map flatten_numa_entry (dn_PodDeviceEntries d),
                   d_RegisteredDevices = dn_RegisteredDevices d\<rparr>
           | Err _ \<Rightarrow>
               (case gcd_v2 env data of
                  Panic p \<Rightarrow> Panic p
                | Err e \<Rightarrow> Err e
                | Ok (Some d) \<Rightarrow> Ok d
                | Ok None \<Rightarrow> gcd_v1 env data)))"

section \<open>Properties\<close>

text \<open>C34: The translation of a checkpoint of Kubernetes 1.21 keeps the entries in place and number;
  each entry keeps its pod, container and resource and gets the device ids of all its NUMA nodes,
  one node after the other. So the devices of a container are the same whatever the order in
  which the NUMA map is visited.\<close>

theorem Translate_correct:
  "PodDeviceEntries (TranslateNewCheckpointToOld nf) = map flatten_entry (n_PodDeviceEntries nf) \<and>
   set (collect_devices u c r [] (PodDeviceEntries (TranslateNewCheckpointToOld nf))) =
     {d. \<exists>e \<in> set (n_PodDeviceEntries nf). n_PodUID e = u \<and> n_ContainerName e = c \<and>
           n_ResourceName e = r \<and> (\<exists>(numa, ds) \<in> set (n_DeviceIDs e). d \<in> set ds)}"
proof
  show eq: "PodDeviceEntries (TranslateNewCheckpointToOld nf) = map flatten_entry (n_PodDeviceEntries nf)"
    by (rule Translate_eq_map)
  show "set (collect_devices u c r [] (PodDeviceEntries (TranslateNewCheckpointToOld nf))) =
     {d. \<exists>e \<in> set (n_PodDeviceEntries nf). n_PodUID e = u \<and> n_ContainerName e = c \<and>
           n_ResourceName e = r \<and> (\<exists>(numa, ds) \<in> set (n_DeviceIDs e). d \<in> set ds)}"
    unfolding eq collect_devices_eq case_prod_unfold by (auto simp: flatten_entry_def) (metis snd_conv)
qed

definition example_new_file :: new_cp_file where
  "example_new_file =
     \<lparr>n_PodDeviceEntries =
        [\<lparr>n_PodUID = ''u1'', n_ContainerName = ''c1'', n_ResourceName = ''bonc.k8s.io/exclusive_a'',
          n_DeviceIDs = [(0, [''3'', ''4'']), (1, [''36''])]\<rparr>]\<rparr>"

theorem Translate_correct_witness:
  "set (collect_devices ''u1'' ''c1'' ''bonc.k8s.io/exclusive_a'' []
     (PodDeviceEntries (TranslateNewCheckpointToOld example_new_file))) = {''3'', ''4'', ''36''}"
  unfolding conjunct2 [OF Translate_correct] by (auto simp: example_new_file_def)

text \<open>A checkpoint in the oldest format (no \<^verbatim>\<open>Data\<close> member) makes the first decoding of
  \<^verbatim>\<open>GetCheckpointData\<close> succeed with a nil \<^verbatim>\<open>Data\<close>, and the function dereferences it: it panics
  before it reaches its branch for that format.\<close>

theorem GetCheckpointData_v1_panics:
  assumes "gcd_read env = Ok data" and "gcd_numa env data = Ok None"
  shows "GetCheckpointData env = Panic NilDereference"
  using assms by (simp add: GetCheckpointData_def)

definition v1_env :: gcd_env where
  "v1_env = \<lparr>gcd_read = Ok ''{}'', gcd_numa = (\<lambda>_. Ok None), gcd_v2 = (\<lambda>_. Ok None),
     gcd_v1 = (\<lambda>_. Ok \<lparr>d_PodDeviceEntries = [], d_RegisteredDevices = []\<rparr>)\<rparr>"

theorem GetCheckpointData_v1_panics_witness: "GetCheckpointData v1_env = Panic NilDereference"
  by (rule GetCheckpointData_v1_panics [of _ "''{}''"]) (simp_all add: v1_env_def)

end
