(* ===== verification/Cpuset_Lib.thy ===== *)
theory Cpuset_Lib
  imports Go_Prelude
begin

text \<open>
  The interface of the third-party package \<^verbatim>\<open>k8s.io/utils/cpuset\<close>, which every component of
  CPU-Pooler calls and which is not part of the repository. Its operations are the fields of
  \<open>cpuset_api\<close>, an argument of every definition that calls them, and what the package
  documents about them is the locale \<open>cpuset_lib\<close>: a CPUSet is a set of CPU ids, \<^verbatim>\<open>List\<close> is
  its sorted list of elements, and \<^verbatim>\<open>String\<close> is the canonical Linux CPU list which \<^verbatim>\<open>Parse\<close>
  reads back. The last section gives a concrete instance of the interface with the Linux list
  format (ranges included) and interprets the locale on it, so that the laws are known to be
  consistent and the witnesses of the other theories can evaluate.
\<close>

section \<open>The interface\<close>

record 's cpuset_api =
  cs_zero :: 's
  cs_New :: "int list \<Rightarrow> 's"
  cs_Parse :: "string \<Rightarrow> 's \<times> bool"
  cs_String :: "'s \<Rightarrow> string"
  cs_Union :: "'s \<Rightarrow> 's list \<Rightarrow> 's"
  cs_List :: "'s \<Rightarrow> int list"
  cs_Size :: "'s \<Rightarrow> int"
  cs_IsEmpty :: "'s \<Rightarrow> bool"
  cs_Contains :: "'s \<Rightarrow> int \<Rightarrow> bool"
  cs_Equals :: "'s \<Rightarrow> 's \<Rightarrow> bool"

text \<open>The boolean of \<open>cs_Parse\<close> says that the returned error is nil. \<open>cs_elems\<close> is the set a
  CPUSet denotes.\<close>

definition cs_elems :: "'s cpuset_api \<Rightarrow> 's \<Rightarrow> int set" where
  "cs_elems cs s = set (cs_List cs s)"

locale cpuset_lib =
  fixes cs :: "'s cpuset_api"
  assumes List_sorted: "sorted (cs_List cs s)"
    and List_distinct: "distinct (cs_List cs s)"
    and elems_zero [simp]: "cs_elems cs (cs_zero cs) = {}"
    and elems_New [simp]: "cs_elems cs (cs_New cs xs) = set xs"
    and elems_Union [simp]: "cs_elems cs (cs_Union cs s ts) = cs_elems cs s \<union> (\<Union>t \<in> set ts. cs_elems cs t)"
    and IsEmpty_iff: "cs_IsEmpty cs s \<longleftrightarrow> cs_elems cs s = {}"
    and Contains_iff_elem: "cs_Contains cs s x \<longleftrightarrow> x \<in> cs_elems cs s"
    and Equals_iff: "cs_Equals cs s t \<longleftrightarrow> cs_elems cs s = cs_elems cs t"
    and Size_card: "cs_Size cs s = int (card (cs_elems cs s))"
    and String_canonical: "cs_elems cs s = cs_elems cs t \<Longrightarrow> cs_String cs s = cs_String cs t"
    and String_empty_iff: "cs_String cs s = [] \<longleftrightarrow> cs_elems cs s = {}"
    and Parse_String: "\<forall>x \<in> cs_elems cs s. 0 \<le> x \<Longrightarrow>
      \<exists>t. cs_Parse cs (cs_String cs s) = (t, True) \<and> cs_elems cs t = cs_elems cs s"
begin

lemma List_cong: "cs_elems cs s = cs_elems cs t \<Longrightarrow> cs_List cs s = cs_List cs t"
  using List_sorted List_distinct by (metis cs_elems_def sorted_distinct_set_unique)

lemma List_nonempty: "cs_elems cs s \<noteq> {} \<Longrightarrow> cs_List cs s \<noteq> []"
  by (auto simp: cs_elems_def)

lemma hd_List_elem: "cs_elems cs s \<noteq> {} \<Longrightarrow> hd (cs_List cs s) \<in> cs_elems cs s"
  by (simp add: cs_elems_def)

lemma Size_List: "cs_Size cs s = int (length (cs_List cs s))"
  by (simp add: Size_card cs_elems_def distinct_card List_distinct)

lemma finite_elems [simp]: "finite (cs_elems cs s)"
  by (simp add: cs_elems_def)

lemma String_inj:
  assumes "\<forall>x \<in> cs_elems cs s. 0 \<le> x" "\<forall>x \<in> cs_elems cs t. 0 \<le> x"
    and "cs_String cs s = cs_String cs t"
  shows "cs_elems cs s = cs_elems cs t"
proof -
  obtain s' where "cs_Parse cs (cs_String cs s) = (s', True)" "cs_elems cs s' = cs_elems cs s"
    using Parse_String [OF assms(1)] by blast
  moreover obtain t' where "cs_Parse cs (cs_String cs t) = (t', True)" "cs_elems cs t' = cs_elems cs t"
    using Parse_String [OF assms(2)] by blast
  ultimately show ?thesis using assms(3) by simp
qed

lemma Parse_empty: "cs_elems cs (fst (cs_Parse cs [])) = {}"
proof -
  have "cs_String cs (cs_zero cs) = []" by (simp add: String_empty_iff)
  with Parse_String [of "cs_zero cs"] show ?thesis by auto
qed

lemma Parse_String_fst:
  "\<forall>x \<in> cs_elems cs s. 0 \<le> x \<Longrightarrow> cs_elems cs (fst (cs_Parse cs (cs_String cs s))) = cs_elems cs s"
  using Parse_String [of s] by fastforce

end

section \<open>An instance: sets of CPU ids in the Linux list format\<close>

text \<open>A set is represented by any list of its elements; \<open>ref_List\<close> sorts it. A run \<open>(a, b)\<close>
  of consecutive ids is printed as \<^verbatim>\<open>a-b\<close>.\<close>

definition ref_List :: "int list \<Rightarrow> int list" where
  "ref_List xs = sort (remdups xs)"

fun runs :: "int list \<Rightarrow> (int \<times> int) list" where
  "runs [] = []"
| "runs (x # xs) =
     (case runs xs of
        [] \<Rightarrow> [(x, x)]
      | (a, b) # rs \<Rightarrow> (if a = x + 1 then (x, b) # rs else (x, x) # (a, b) # rs))"

definition show_run :: "int \<times> int \<Rightarrow> string" where
  "show_run r = (case r of (a, b) \<Rightarrow> if a = b then Itoa a else Itoa a @ ''-'' @ Itoa b)"

definition ref_String :: "int list \<Rightarrow> string" where
  "ref_String xs = Join (map show_run (runs (ref_List xs))) '',''"

definition parse_run :: "string \<Rightarrow> int list option" where
  "parse_run s =
     (case Split s CHR ''-'' of
        [a] \<Rightarrow> map_option (\<lambda>x. [x]) (unsigned_dec a)
      | [a, b] \<Rightarrow>
          (case (unsigned_dec a, unsigned_dec b) of
             (Some x, Some y) \<Rightarrow> (if x \<le> y then Some [x..y] else None)
           | _ \<Rightarrow> None)
      | _ \<Rightarrow> None)"

fun parse_runs :: "string list \<Rightarrow> int list option" where
  "parse_runs [] = Some []"
| "parse_runs (w # ws) =
     (case (parse_run w, parse_runs ws) of (Some xs, Some ys) \<Rightarrow> Some (xs @ ys) | _ \<Rightarrow> None)"

definition ref_Parse :: "string \<Rightarrow> int list \<times> bool" where
  "ref_Parse s =
     (if s = [] then ([], True)
      else case parse_runs (Split s CHR '','') of None \<Rightarrow> ([], False) | Some xs \<Rightarrow> (xs, True))"

definition ref_cpuset :: "int list cpuset_api" where
  "ref_cpuset =
     \<lparr>cs_zero = [], cs_New = (\<lambda>xs. xs), cs_Parse = ref_Parse, cs_String = ref_String,
      cs_Union = (\<lambda>s ts. s @ concat ts), cs_List = ref_List,
      cs_Size = (\<lambda>s. int (length (ref_List s))), cs_IsEmpty = (\<lambda>s. s = []),
      cs_Contains = (\<lambda>s x. x \<in> set s), cs_Equals = (\<lambda>s t. set s = set t)\<rparr>"

lemma set_ref_List [simp]: "set (ref_List xs) = set xs"
  by (simp add: ref_List_def)

lemma runs_eq_Nil [simp]: "runs xs = [] \<longleftrightarrow> xs = []"
  by (cases xs) (auto split: list.splits)

lemma runs_cover: "(\<Union>(a, b) \<in> set (runs xs). {a..b}) = set xs \<and> (\<forall>(a, b) \<in> set (runs xs). a \<le> b)"
proof (induction xs)
  case (Cons x xs)
  show ?case
  proof (cases "runs xs")
    case Nil
    with Cons show ?thesis by simp
  next
    case (Cons r rs)
    obtain a b where r: "r = (a, b)" by (cases r)
    have "a = x + 1 \<Longrightarrow> a \<le> b \<Longrightarrow> {x..b} = insert x {a..b}" by auto
    with Cons.IH Cons r show ?thesis by auto
  qed
qed simp

lemma unsigned_dec_Itoa [simp]: "0 \<le> x \<Longrightarrow> unsigned_dec (Itoa x) = Some x"
  by (simp add: Itoa_def)

lemma Itoa_nonneg_chars:
  "0 \<le> x \<Longrightarrow> CHR ''-'' \<notin> set (Itoa x) \<and> CHR '','' \<notin> set (Itoa x) \<and> Itoa x \<noteq> []"
  by (simp add: Itoa_def nat_dec_no_sign)

lemma parse_show_run:
  assumes "0 \<le> a" "a \<le> b"
  shows "parse_run (show_run (a, b)) = Some [a..b]"
  using assms Itoa_nonneg_chars [of a] Itoa_nonneg_chars [of b]
  by (cases "a = b")
     (simp_all add: parse_run_def show_run_def Split_no_sep Split_append_sep)

lemma show_run_chars:
  "0 \<le> a \<Longrightarrow> a \<le> b \<Longrightarrow> CHR '','' \<notin> set (show_run (a, b)) \<and> show_run (a, b) \<noteq> []"
  using Itoa_nonneg_chars [of a] Itoa_nonneg_chars [of b] by (auto simp: show_run_def)

lemma parse_show_runs:
  "\<forall>(a, b) \<in> set rs. 0 \<le> a \<and> a \<le> b \<Longrightarrow>
   \<exists>ys. parse_runs (map show_run rs) = Some ys \<and> set ys = (\<Union>(a, b) \<in> set rs. {a..b})"
proof (induction rs)
  case (Cons r rs)
  obtain a b where r: "r = (a, b)" by (cases r)
  from Cons obtain ys where "parse_runs (map show_run rs) = Some ys"
    "set ys = (\<Union>(a, b) \<in> set rs. {a..b})" by auto
  moreover have "parse_run (show_run r) = Some [a..b]" using Cons.prems r by (simp add: parse_show_run)
  ultimately show ?case by (simp add: r)
qed simp

lemma Join_eq_Nil: "\<forall>w \<in> set ws. w \<noteq> [] \<Longrightarrow> Join ws sep = [] \<longleftrightarrow> ws = []"
  by (cases "(ws, sep)" rule: Join.cases) auto

lemma ref_runs_nonneg:
  assumes "\<forall>x \<in> set xs. 0 \<le> x"
  shows "\<forall>(a, b) \<in> set (runs (ref_List xs)). 0 \<le> a \<and> a \<le> b"
proof (clarify, rule conjI)
  fix a b assume ab: "(a, b) \<in> set (runs (ref_List xs))"
  then show le: "a \<le> b" using runs_cover [of "ref_List xs"] by auto
  from ab le have "a \<in> (\<Union>(a, b) \<in> set (runs (ref_List xs)). {a..b})" by force
  then have "a \<in> set xs" using runs_cover [of "ref_List xs"] by simp
  with assms show "0 \<le> a" by simp
qed

lemma show_run_nonempty: "show_run r \<noteq> []"
  by (cases r) (auto simp: show_run_def Itoa_def)

lemma ref_String_Nil_iff: "ref_String xs = [] \<longleftrightarrow> xs = []"
proof -
  have "ref_String xs = [] \<longleftrightarrow> map show_run (runs (ref_List xs)) = []"
    unfolding ref_String_def by (rule Join_eq_Nil) (auto simp: show_run_nonempty)
  also have "\<dots> \<longleftrightarrow> ref_List xs = []" by simp
  also have "\<dots> \<longleftrightarrow> xs = []" by (metis set_empty set_ref_List)
  finally show ?thesis .
qed

lemma ref_Parse_String:
  assumes "\<forall>x \<in> set xs. 0 \<le> x"
  shows "\<exists>t. ref_Parse (ref_String xs) = (t, True) \<and> set t = set xs"
proof (cases "xs = []")
  case True
  then have "ref_String xs = []" by (simp add: ref_String_Nil_iff)
  with True show ?thesis by (simp add: ref_Parse_def)
next
  case False
  let ?rs = "runs (ref_List xs)"
  note nn = ref_runs_nonneg [OF assms]
  have ne: "?rs \<noteq> []" using False by (metis runs_eq_Nil set_empty set_ref_List)
  have "\<forall>w \<in> set (map show_run ?rs). CHR '','' \<notin> set w"
    using nn by (auto dest: show_run_chars)
  then have "Split (ref_String xs) CHR '','' = map show_run ?rs"
    using ne unfolding ref_String_def by (intro Split_Join) simp_all
  moreover obtain ys where "parse_runs (map show_run ?rs) = Some ys"
    "set ys = (\<Union>(a, b) \<in> set ?rs. {a..b})" using parse_show_runs [OF nn] by blast
  ultimately show ?thesis using False runs_cover [of "ref_List xs"]
    by (simp add: ref_Parse_def ref_String_Nil_iff)
qed

lemma ref_elems [simp]: "cs_elems ref_cpuset s = set s"
  by (simp add: cs_elems_def ref_cpuset_def)

lemma ref_List_cong: "set s = set t \<Longrightarrow> ref_List s = ref_List t"
  by (metis distinct_remdups distinct_sort ref_List_def set_ref_List sorted_distinct_set_unique sorted_sort)

interpretation ref: cpuset_lib ref_cpuset
proof
  fix s t :: "int list"
  show "cs_String ref_cpuset s = [] \<longleftrightarrow> cs_elems ref_cpuset s = {}"
    by (simp add: ref_String_Nil_iff) (simp add: ref_cpuset_def ref_String_Nil_iff)
  show "\<forall>x \<in> cs_elems ref_cpuset s. 0 \<le> x \<Longrightarrow>
      \<exists>t. cs_Parse ref_cpuset (cs_String ref_cpuset s) = (t, True) \<and> cs_elems ref_cpuset t = cs_elems ref_cpuset s"
    using ref_Parse_String [of s] by (simp, simp add: ref_cpuset_def)
  show "cs_elems ref_cpuset s = cs_elems ref_cpuset t \<Longrightarrow> cs_String ref_cpuset s = cs_String ref_cpuset t"
    using ref_List_cong [of s t] by (simp, simp add: ref_cpuset_def ref_String_def)
  show "cs_Size ref_cpuset s = int (card (cs_elems ref_cpuset s))"
    by (simp, simp add: ref_cpuset_def ref_List_def)
       (metis List.card_set length_sort)
qed (simp_all, (simp_all add: ref_cpuset_def ref_List_def)?)

lemmas ref_cpuset_evals =
  ref_cpuset_def ref_List_def ref_Parse_def ref_String_def show_run_def parse_run_def
  unsigned_dec_def is_digit_def digit_val_def digit_char_def Itoa_def

end
