(* ===== verification/Pool_Config.thy ===== *)
theory Pool_Config
  imports Cpuset_Lib
begin

text \<open>
  The CPU pools of a node: \<^verbatim>\<open>pkg/types/pool.go\<close> and \<^verbatim>\<open>pkg/types/pool_type.go\<close>. A pool
  configuration is read from the YAML files of the configuration directory, one configuration
  is selected by the labels of the node, and a pool of it is selected by a name prefix.

  Parameters, for code outside the repository: the cpuset package (\<open>cs\<close>), the YAML decoder,
  the topology of the machine (\<^verbatim>\<open>topology.GetCGPUTopology\<close>), and the files, all gathered in
  \<open>pool_env\<close>. The lemmas show which configuration and which pool is selected, that a pool
  read from a file is well formed, and when a selection does not depend on the order in which
  Go visits a map.
\<close>

section \<open>Data\<close>

text \<open>The fields of \<^verbatim>\<open>topology.Topology\<close> (package \<^verbatim>\<open>nxsre/toolkit\<close>) the sources read; the zero
  value of the struct stands for a missing map entry.\<close>

record topology =
  t_Node :: int
  t_Core :: int
  t_Devices :: "string list"

definition topology_zero :: topology where
  "topology_zero = \<lparr>t_Node = 0, t_Core = 0, t_Devices = []\<rparr>"

definition topo_at :: "(int \<times> topology) list \<Rightarrow> int \<Rightarrow> topology" where
  "topo_at m k = (case map_of m k of None \<Rightarrow> topology_zero | Some t \<Rightarrow> t)"

record 's pool =
  CPUset :: 's
  CPUStr :: string
  HTPolicy :: string
  Overcommitment :: int
  NumaWeight :: string
  PhysicalCore :: int
  CoreMap :: "(int \<times> topology) list"

record 's pool_config =
  Pools :: "(string \<times> 's pool) list"
  NodeSelector :: "(string \<times> string) list"

definition SharedPoolID :: string where "SharedPoolID = ''shared''"
definition ExclusivePoolID :: string where "ExclusivePoolID = ''exclusive''"
definition CloudphonePoolID :: string where "CloudphonePoolID = ''cloudphone''"
definition DefaultPoolID :: string where "DefaultPoolID = ''default''"
definition SingleThreadHTPolicy :: string where "SingleThreadHTPolicy = ''singleThreaded''"
definition MultiThreadHTPolicy :: string where "MultiThreadHTPolicy = ''multiThreaded''"

lemmas pool_ids [go_strings] =
  SharedPoolID_def ExclusivePoolID_def CloudphonePoolID_def DefaultPoolID_def
  SingleThreadHTPolicy_def MultiThreadHTPolicy_def

datatype pool_error =
  NodeLabelsError string
| GlobError string
| ReadFileError string
| YamlError string
| CpusParseError string
| NoMatchingConfig

section \<open>Operations\<close>

definition pool_zero :: "'s cpuset_api \<Rightarrow> 's pool" where
  "pool_zero cs =
     \<lparr>CPUset = cs_zero cs, CPUStr = [], HTPolicy = [], Overcommitment = 0, NumaWeight = [],
      PhysicalCore = 0, CoreMap = []\<rparr>"

definition DeterminePoolType :: "string \<Rightarrow> string" where
  "DeterminePoolType poolName =
     (if HasPrefix poolName SharedPoolID then SharedPoolID
      else if HasPrefix poolName ExclusivePoolID then ExclusivePoolID
      else if HasPrefix poolName CloudphonePoolID then CloudphonePoolID
      else DefaultPoolID)"

fun SelectPool_loop :: "'s pool \<Rightarrow> (string \<times> 's pool) list \<Rightarrow> string \<Rightarrow> 's pool" where
  "SelectPool_loop z [] pre = z"
| "SelectPool_loop z ((poolName, pool) # ps) pre =
     (if HasPrefix poolName pre then pool else SelectPool_loop z ps pre)"

definition SelectPool :: "'s cpuset_api \<Rightarrow> 's pool_config \<Rightarrow> string \<Rightarrow> 's pool" where
  "SelectPool cs poolConf pre = SelectPool_loop (pool_zero cs) (Pools poolConf) pre"

text \<open>One round of the loop of \<^verbatim>\<open>ReadPoolConfigFile\<close>: the CPU list is parsed, the
  hyper-threading policy defaulted and the core map restricted to the pool.\<close>

definition prepare_pool ::
  "'s cpuset_api \<Rightarrow> (int \<times> topology) list \<Rightarrow> 's pool \<Rightarrow> (pool_error, 's pool) outcome" where
  "prepare_pool cs coreMap poolBody =
     (case cs_Parse cs (CPUStr poolBody) of
        (_, False) \<Rightarrow> Err (CpusParseError (CPUStr poolBody))
      | (cset, True) \<Rightarrow>
          Ok (poolBody
            \<lparr>CPUset := cset,
             HTPolicy := (if HTPolicy poolBody = [] then SingleThreadHTPolicy else HTPolicy poolBody),
             CoreMap := filter (\<lambda>(k, v). cs_Contains cs cset k) coreMap\<rparr>))"

fun prepare_pools ::
  "'s cpuset_api \<Rightarrow> (int \<times> topology) list \<Rightarrow> (string \<times> 's pool) list
    \<Rightarrow> (pool_error, (string \<times> 's pool) list) outcome" where
  "prepare_pools cs coreMap [] = Ok []"
| "prepare_pools cs coreMap ((poolName, poolBody) # ps) =
     and_then (prepare_pool cs coreMap poolBody) (\<lambda>p.
     and_then (prepare_pools cs coreMap ps) (\<lambda>qs. Ok ((poolName, p) # qs)))"

text \<open>The environment of the configuration reader. \<open>pe_glob\<close> is the result of the glob
  \<^verbatim>\<open>poolconfig-*\<close> in the configuration directory.\<close>

record 's pool_env =
  pe_topology :: "(int \<times> topology) list"
  pe_glob :: "(string, string list) outcome"
  pe_ReadFile :: "string \<Rightarrow> (string, string) outcome"
  pe_yaml :: "string \<Rightarrow> (string, 's pool_config) outcome"

definition ReadPoolConfigFile ::
  "'s cpuset_api \<Rightarrow> 's pool_env \<Rightarrow> string \<Rightarrow> (pool_error, 's pool_config) outcome" where
  "ReadPoolConfigFile cs env name =
     (case pe_ReadFile env name of
        Panic p \<Rightarrow> Panic p
      | Err e \<Rightarrow> Err (ReadFileError e)
      | Ok file \<Rightarrow>
          (case pe_yaml env file of
             Panic p \<Rightarrow> Panic p
           | Err e \<Rightarrow> Err (YamlError e)
           | Ok poolConfig \<Rightarrow>
               and_then (prepare_pools cs (pe_topology env) (Pools poolConfig))
                 (\<lambda>ps. Ok (poolConfig\<lparr>Pools := ps\<rparr>))))"

fun ReadAll_loop ::
  "'s cpuset_api \<Rightarrow> 's pool_env \<Rightarrow> string list \<Rightarrow> (pool_error, 's pool_config list) outcome" where
  "ReadAll_loop cs env [] = Ok []"
| "ReadAll_loop cs env (f # fs) =
     and_then (ReadPoolConfigFile cs env f) (\<lambda>pc.
     and_then (ReadAll_loop cs env fs) (\<lambda>pcs. Ok (pc # pcs)))"

definition ReadAllPoolConfigs ::
  "'s cpuset_api \<Rightarrow> 's pool_env \<Rightarrow> (pool_error, 's pool_config list) outcome" where
  "ReadAllPoolConfigs cs env =
     (case pe_glob env of
        Panic p \<Rightarrow> Panic p
      | Err e \<Rightarrow> Err (GlobError e)
      | Ok files \<Rightarrow> ReadAll_loop cs env files)"

text \<open>The label map is \<open>None\<close> when it is nil. The inner loop of \<^verbatim>\<open>readPoolConfig\<close> accepts a
  configuration as soon as one label agrees with the node selector.\<close>

fun selector_matches :: "(string \<times> string) list \<Rightarrow> (string \<times> string) list \<Rightarrow> bool" where
  "selector_matches sel [] = False"
| "selector_matches sel ((label, labelValue) # ls) =
     (case map_of sel label of
        Some value \<Rightarrow> (if value = labelValue then True else selector_matches sel ls)
      | None \<Rightarrow> selector_matches sel ls)"

fun readPoolConfig_loop ::
  "(string \<times> string) list option \<Rightarrow> 's pool_config list \<Rightarrow> (pool_error, 's pool_config) outcome" where
  "readPoolConfig_loop labelMap [] = Err NoMatchingConfig"
| "readPoolConfig_loop labelMap (poolConf # pcs) =
     (case labelMap of
        None \<Rightarrow> Ok poolConf
      | Some labels \<Rightarrow>
          (if selector_matches (NodeSelector poolConf) labels then Ok poolConf
           else readPoolConfig_loop labelMap pcs))"

definition readPoolConfig ::
  "'s cpuset_api \<Rightarrow> 's pool_env \<Rightarrow> (string \<times> string) list option
    \<Rightarrow> (pool_error, 's pool_config) outcome" where
  "readPoolConfig cs env labelMap =
     and_then (ReadAllPoolConfigs cs env) (readPoolConfig_loop labelMap)"

definition DeterminePoolConfig ::
  "'s cpuset_api \<Rightarrow> 's pool_env \<Rightarrow> (string, (string \<times> string) list option) outcome
    \<Rightarrow> (pool_error, 's pool_config) outcome" where
  "DeterminePoolConfig cs env nodeLabels =
     (case nodeLabels of
        Panic p \<Rightarrow> Panic p
      | Err e \<Rightarrow> Err (NodeLabelsError e)
      | Ok labels \<Rightarrow> readPoolConfig cs env labels)"

section \<open>Pool types\<close>

lemma DeterminePoolType_range:
  "DeterminePoolType n \<in> {SharedPoolID, ExclusivePoolID, CloudphonePoolID, DefaultPoolID}"
  by (simp add: DeterminePoolType_def)

lemma not_two_prefixes:
  "HasPrefix n SharedPoolID \<Longrightarrow> \<not> HasPrefix n ExclusivePoolID"
  "HasPrefix n SharedPoolID \<Longrightarrow> \<not> HasPrefix n CloudphonePoolID"
  "HasPrefix n ExclusivePoolID \<Longrightarrow> \<not> HasPrefix n CloudphonePoolID"
  by (auto simp: HasPrefix_iff pool_ids)

lemma pool_ids_distinct [simp]:
  "SharedPoolID \<noteq> ExclusivePoolID" "SharedPoolID \<noteq> CloudphonePoolID" "SharedPoolID \<noteq> DefaultPoolID"
  "ExclusivePoolID \<noteq> CloudphonePoolID" "ExclusivePoolID \<noteq> DefaultPoolID" "CloudphonePoolID \<noteq> DefaultPoolID"
  "ExclusivePoolID \<noteq> SharedPoolID" "CloudphonePoolID \<noteq> SharedPoolID" "DefaultPoolID \<noteq> SharedPoolID"
  "CloudphonePoolID \<noteq> ExclusivePoolID" "DefaultPoolID \<noteq> ExclusivePoolID" "DefaultPoolID \<noteq> CloudphonePoolID"
  by (simp_all add: pool_ids)

lemma DeterminePoolType_shared_iff: "DeterminePoolType n = SharedPoolID \<longleftrightarrow> HasPrefix n SharedPoolID"
  by (auto simp: DeterminePoolType_def dest: not_two_prefixes)

lemma DeterminePoolType_exclusive_iff:
  "DeterminePoolType n = ExclusivePoolID \<longleftrightarrow> HasPrefix n ExclusivePoolID"
  using not_two_prefixes [of n] by (simp add: DeterminePoolType_def)

lemma DeterminePoolType_cloudphone_iff:
  "DeterminePoolType n = CloudphonePoolID \<longleftrightarrow> HasPrefix n CloudphonePoolID"
  using not_two_prefixes [of n] by (auto simp: DeterminePoolType_def)

section \<open>Selecting a pool\<close>

lemma SelectPool_loop_cases:
  "SelectPool_loop z ps pre = z \<or> (\<exists>n. (n, SelectPool_loop z ps pre) \<in> set ps \<and> HasPrefix n pre)"
  by (induction z ps pre rule: SelectPool_loop.induct) auto

lemma SelectPool_loop_none: "\<forall>(n, p) \<in> set ps. \<not> HasPrefix n pre \<Longrightarrow> SelectPool_loop z ps pre = z"
  by (induction ps) auto

text \<open>Only one pool name has the prefix: then every visiting order selects that pool.\<close>

definition prefix_unambiguous :: "(string \<times> 's pool) list \<Rightarrow> string \<Rightarrow> bool" where
  "prefix_unambiguous ps pre =
     (\<forall>(n, p) \<in> set ps. \<forall>(m, q) \<in> set ps. HasPrefix n pre \<longrightarrow> HasPrefix m pre \<longrightarrow> n = m \<and> p = q)"

lemma SelectPool_loop_unique:
  "prefix_unambiguous ps pre \<Longrightarrow> (n, p) \<in> set ps \<Longrightarrow> HasPrefix n pre \<Longrightarrow> SelectPool_loop z ps pre = p"
proof (induction ps)
  case (Cons q ps)
  obtain m r where q: "q = (m, r)" by (cases q)
  have amb: "prefix_unambiguous ps pre" using Cons.prems(1) by (auto simp: prefix_unambiguous_def)
  show ?case
  proof (cases "HasPrefix m pre")
    case True
    with Cons.prems q have "r = p" by (fastforce simp: prefix_unambiguous_def)
    with True q show ?thesis by simp
  next
    case False
    with Cons.prems q have "(n, p) \<in> set ps" by auto
    with False q Cons.IH [OF amb] Cons.prems(3) show ?thesis by simp
  qed
qed simp

lemma SelectPool_unique:
  "prefix_unambiguous (Pools pc) pre \<Longrightarrow> (n, p) \<in> set (Pools pc) \<Longrightarrow> HasPrefix n pre
    \<Longrightarrow> SelectPool cs pc pre = p"
  by (simp add: SelectPool_def SelectPool_loop_unique)

lemma SelectPool_none:
  "\<forall>(n, p) \<in> set (Pools pc). \<not> HasPrefix n pre \<Longrightarrow> SelectPool cs pc pre = pool_zero cs"
  by (simp add: SelectPool_def SelectPool_loop_none)

lemma SelectPool_order_irrelevant:
  assumes amb: "prefix_unambiguous (Pools pc) pre"
    and perm: "mset (Pools pc) = mset (Pools pc')"
  shows "SelectPool cs pc pre = SelectPool cs pc' pre"
proof (cases "\<exists>n p. (n, p) \<in> set (Pools pc) \<and> HasPrefix n pre")
  case True
  then obtain n p where np: "(n, p) \<in> set (Pools pc)" "HasPrefix n pre" by blast
  have eq: "set (Pools pc') = set (Pools pc)" using perm by (metis set_mset_mset)
  then have "prefix_unambiguous (Pools pc') pre" using amb by (simp add: prefix_unambiguous_def)
  with np eq amb show ?thesis by (metis SelectPool_unique)
next
  case False
  have eq: "set (Pools pc') = set (Pools pc)" using perm by (metis set_mset_mset)
  from False have "SelectPool cs pc pre = pool_zero cs" by (intro SelectPool_none) auto
  moreover from False eq have "SelectPool cs pc' pre = pool_zero cs" by (intro SelectPool_none) auto
  ultimately show ?thesis by simp
qed

section \<open>Reading configurations\<close>

text \<open>What a pool read from a file satisfies.\<close>

definition pool_wf :: "'s cpuset_api \<Rightarrow> (int \<times> topology) list \<Rightarrow> 's pool \<Rightarrow> bool" where
  "pool_wf cs coreMap p \<longleftrightarrow>
     cs_Parse cs (CPUStr p) = (CPUset p, True) \<and> HTPolicy p \<noteq> [] \<and>
     CoreMap p = filter (\<lambda>(k, v). cs_Contains cs (CPUset p) k) coreMap"

lemma prepare_pool_wf: "prepare_pool cs cm b = Ok p \<Longrightarrow> pool_wf cs cm p"
  by (auto simp: prepare_pool_def pool_wf_def pool_ids split: prod.splits bool.splits if_splits)

lemma prepare_pool_frame:
  "prepare_pool cs cm b = Ok p \<Longrightarrow>
     CPUStr p = CPUStr b \<and> Overcommitment p = Overcommitment b \<and> NumaWeight p = NumaWeight b \<and>
     (HTPolicy b \<noteq> [] \<longrightarrow> HTPolicy p = HTPolicy b)"
  by (auto simp: prepare_pool_def split: prod.splits bool.splits)

text \<open>What a pool becomes, field by field.\<close>

definition pool_read :: "'s cpuset_api \<Rightarrow> (int \<times> topology) list \<Rightarrow> 's pool \<Rightarrow> 's pool \<Rightarrow> bool" where
  "pool_read cs coreMap b p \<longleftrightarrow>
     cs_Parse cs (CPUStr b) = (CPUset p, True) \<and> CPUStr p = CPUStr b \<and>
     HTPolicy p = (if HTPolicy b = [] then SingleThreadHTPolicy else HTPolicy b) \<and>
     Overcommitment p = Overcommitment b \<and> NumaWeight p = NumaWeight b \<and> PhysicalCore p = PhysicalCore b \<and>
     (\<forall>k v. (k, v) \<in> set (CoreMap p) \<longleftrightarrow> (k, v) \<in> set coreMap \<and> cs_Contains cs (CPUset p) k)"

lemma prepare_pool_read: "prepare_pool cs cm b = Ok p \<Longrightarrow> pool_read cs cm b p"
  by (auto simp: prepare_pool_def pool_read_def split: prod.splits bool.splits)

lemma prepare_pools_read:
  "prepare_pools cs cm ps = Ok qs \<Longrightarrow> list_all2 (\<lambda>(n, b) (m, p). n = m \<and> pool_read cs cm b p) ps qs"
proof (induction ps arbitrary: qs)
  case (Cons b ps)
  obtain n body where b: "b = (n, body)" by (cases b)
  with Cons.prems obtain p rs where
    "prepare_pool cs cm body = Ok p" "prepare_pools cs cm ps = Ok rs" "qs = (n, p) # rs"
    by (auto simp: and_then_Ok_iff)
  with Cons.IH [of rs] b show ?case by (auto dest: prepare_pool_read)
qed simp

lemma prepare_pools_wf:
  "prepare_pools cs cm ps = Ok qs \<Longrightarrow> map fst qs = map fst ps \<and> (\<forall>(n, p) \<in> set qs. pool_wf cs cm p)"
proof (induction ps arbitrary: qs)
  case (Cons b ps)
  obtain n body where b: "b = (n, body)" by (cases b)
  with Cons.prems obtain p rs where
    "prepare_pool cs cm body = Ok p" "prepare_pools cs cm ps = Ok rs" "qs = (n, p) # rs"
    by (auto simp: and_then_Ok_iff)
  with Cons.IH [of rs] b show ?case by (auto dest: prepare_pool_wf)
qed simp

lemma prepare_pools_Ok_iff:
  "is_Ok (prepare_pools cs cm ps) \<longleftrightarrow> (\<forall>(n, p) \<in> set ps. snd (cs_Parse cs (CPUStr p)))"
proof (induction ps)
  case (Cons b ps)
  obtain n body where b: "b = (n, body)" by (cases b)
  have "is_Ok (prepare_pool cs cm body) \<longleftrightarrow> snd (cs_Parse cs (CPUStr body))"
    by (auto simp: prepare_pool_def split: prod.splits bool.splits)
  with Cons b show ?case by (auto simp: is_Ok_iff and_then_Ok_iff)
qed simp

lemma ReadPoolConfigFile_Ok:
  assumes "ReadPoolConfigFile cs env name = Ok pc"
  obtains content raw where "pe_ReadFile env name = Ok content" "pe_yaml env content = Ok raw"
    "prepare_pools cs (pe_topology env) (Pools raw) = Ok (Pools pc)"
    "NodeSelector pc = NodeSelector raw"
  using assms
  by (auto simp: ReadPoolConfigFile_def and_then_Ok_iff split: outcome.splits)

lemma ReadAll_loop_Ok_iff:
  "ReadAll_loop cs env fs = Ok pcs \<longleftrightarrow> list_all2 (\<lambda>f pc. ReadPoolConfigFile cs env f = Ok pc) fs pcs"
proof (induction fs arbitrary: pcs)
  case (Cons f fs)
  show ?case by (cases pcs) (auto simp: and_then_Ok_iff Cons.IH)
qed auto

text \<open>The decoded files behind the configurations.\<close>

lemma files_decoded:
  "list_all2 (\<lambda>f c. ReadPoolConfigFile cs env f = Ok c) files pcs \<Longrightarrow>
     \<exists>raws. list_all2 (\<lambda>f raw. \<exists>body. pe_ReadFile env f = Ok body \<and> pe_yaml env body = Ok raw) files raws \<and>
       list_all2 (\<lambda>raw c. NodeSelector c = NodeSelector raw \<and>
         prepare_pools cs (pe_topology env) (Pools raw) = Ok (Pools c)) raws pcs"
proof (induction files arbitrary: pcs)
  case (Cons f files)
  then obtain c cs' where c: "pcs = c # cs'" "ReadPoolConfigFile cs env f = Ok c" by (auto simp: list_all2_Cons1)
  with Cons obtain raws where "list_all2 (\<lambda>f raw. \<exists>body. pe_ReadFile env f = Ok body \<and> pe_yaml env body = Ok raw) files raws"
    "list_all2 (\<lambda>raw c. NodeSelector c = NodeSelector raw \<and>
       prepare_pools cs (pe_topology env) (Pools raw) = Ok (Pools c)) raws cs'" by auto
  moreover obtain body raw where "pe_ReadFile env f = Ok body" "pe_yaml env body = Ok raw"
    "prepare_pools cs (pe_topology env) (Pools raw) = Ok (Pools c)" "NodeSelector c = NodeSelector raw"
    using c(2) by (rule ReadPoolConfigFile_Ok)
  ultimately show ?case using c(1) by (intro exI [of _ "raw # raws"]) auto
qed simp

lemma selector_matches_iff:
  "selector_matches sel ls \<longleftrightarrow> (\<exists>(l, v) \<in> set ls. map_of sel l = Some v)"
  by (induction sel ls rule: selector_matches.induct) (auto split: option.splits)

lemma readPoolConfig_loop_Ok_iff:
  "readPoolConfig_loop (Some ls) pcs = Ok pc \<longleftrightarrow>
     (\<exists>i < length pcs. pc = pcs ! i \<and> selector_matches (NodeSelector pc) ls \<and>
        (\<forall>j < i. \<not> selector_matches (NodeSelector (pcs ! j)) ls))"
proof (induction pcs)
  case (Cons q pcs)
  show ?case
  proof (cases "selector_matches (NodeSelector q) ls")
    case True
    then show ?thesis
      by (auto intro!: exI [of _ 0]) (metis less_Suc_eq_0_disj nth_Cons_0)
  next
    case False
    have "(\<exists>i < length (q # pcs). pc = (q # pcs) ! i \<and> selector_matches (NodeSelector pc) ls \<and>
        (\<forall>j < i. \<not> selector_matches (NodeSelector ((q # pcs) ! j)) ls)) \<longleftrightarrow>
      (\<exists>i < length pcs. pc = pcs ! i \<and> selector_matches (NodeSelector pc) ls \<and>
        (\<forall>j < i. \<not> selector_matches (NodeSelector (pcs ! j)) ls))" (is "?L \<longleftrightarrow> ?R")
    proof
      assume ?L
      then obtain i where i: "i < length (q # pcs)" "pc = (q # pcs) ! i"
        "selector_matches (NodeSelector pc) ls"
        "\<forall>j < i. \<not> selector_matches (NodeSelector ((q # pcs) ! j)) ls" by blast
      with False obtain k where "i = Suc k" by (cases i) auto
      with i show ?R by (auto intro!: exI [of _ k])
    next
      assume ?R
      then obtain i where "i < length pcs" "pc = pcs ! i" "selector_matches (NodeSelector pc) ls"
        "\<forall>j < i. \<not> selector_matches (NodeSelector (pcs ! j)) ls" by blast
      with False show ?L by (auto intro!: exI [of _ "Suc i"] simp: nth_Cons split: nat.splits)
    qed
    with False Cons.IH show ?thesis by simp
  qed
qed simp

lemma readPoolConfig_loop_mem: "readPoolConfig_loop ls pcs = Ok pc \<Longrightarrow> pc \<in> set pcs"
  by (induction ls pcs rule: readPoolConfig_loop.induct) (auto split: option.splits if_splits)

text \<open>Every configuration that is used was read from one of the files.\<close>

lemma DeterminePoolConfig_file:
  assumes "DeterminePoolConfig cs env labels = Ok pc"
  obtains f where "ReadPoolConfigFile cs env f = Ok pc"
proof -
  obtain pcs ls where pcs: "ReadAllPoolConfigs cs env = Ok pcs" "readPoolConfig_loop ls pcs = Ok pc"
    using assms by (auto simp: DeterminePoolConfig_def readPoolConfig_def and_then_Ok_iff split: outcome.splits)
  then obtain fs where "list_all2 (\<lambda>f pc. ReadPoolConfigFile cs env f = Ok pc) fs pcs"
    by (auto simp: ReadAllPoolConfigs_def ReadAll_loop_Ok_iff split: outcome.splits)
  moreover have "pc \<in> set pcs" using pcs(2) by (rule readPoolConfig_loop_mem)
  ultimately show thesis using that by (auto simp: list_all2_conv_all_nth in_set_conv_nth)
qed

lemma DeterminePoolConfig_keys:
  assumes "DeterminePoolConfig cs env labels = Ok pc"
    and "\<forall>content raw. pe_yaml env content = Ok raw \<longrightarrow> distinct (map fst (Pools raw))"
  shows "distinct (map fst (Pools pc))"
proof -
  from assms(1) obtain f where "ReadPoolConfigFile cs env f = Ok pc" by (rule DeterminePoolConfig_file)
  then obtain content raw where "pe_yaml env content = Ok raw"
    "prepare_pools cs (pe_topology env) (Pools raw) = Ok (Pools pc)"
    by (rule ReadPoolConfigFile_Ok)
  with assms(2) show ?thesis by (auto dest: prepare_pools_wf)
qed

section \<open>Properties\<close>

text \<open>C31: Selecting a pool by a prefix: when at most one pool name has the prefix, every order in which
  the map is visited selects the pool of that name, or the zero value when no name has it.\<close>

theorem SelectPool_correct:
  fixes pc pc' :: "'s pool_config"
  assumes "prefix_unambiguous (Pools pc) pre" "mset (Pools pc') = mset (Pools pc)"
  shows "((n, p) \<in> set (Pools pc) \<and> HasPrefix n pre \<longrightarrow> SelectPool cs pc' pre = p) \<and>
    ((\<forall>(n, p) \<in> set (Pools pc). \<not> HasPrefix n pre) \<longrightarrow> SelectPool cs pc' pre = pool_zero cs)"
  using SelectPool_order_irrelevant [OF assms(1) assms(2) [symmetric], of cs]
    SelectPool_unique [OF assms(1), of n p cs] SelectPool_none [of pc pre cs] by auto

definition named_pool :: "string \<Rightarrow> int list \<Rightarrow> string \<times> int list pool" where
  "named_pool n cpus = (n, (pool_zero ref_cpuset)\<lparr>CPUset := cpus\<rparr>)"

theorem SelectPool_correct_witness:
  "SelectPool ref_cpuset \<lparr>Pools = [named_pool ''shared'' [1], named_pool ''default'' [0]], NodeSelector = []\<rparr> ''default'' =
     (pool_zero ref_cpuset)\<lparr>CPUset := [0]\<rparr>"
  using SelectPool_correct [of "\<lparr>Pools = [named_pool ''default'' [0], named_pool ''shared'' [1]], NodeSelector = []\<rparr>" "''default''"
      "\<lparr>Pools = [named_pool ''shared'' [1], named_pool ''default'' [0]], NodeSelector = []\<rparr>" "''default''"
      "(pool_zero ref_cpuset)\<lparr>CPUset := [0]\<rparr>" ref_cpuset]
  by (simp add: prefix_unambiguous_def named_pool_def)

text \<open>With two different pools under one prefix the selected pool depends on the visiting order of
  the map: the first one visited is taken.\<close>

theorem SelectPool_ambiguous:
  assumes "HasPrefix n pre" "HasPrefix m pre" "p \<noteq> q"
  shows "SelectPool cs \<lparr>Pools = [(n, p), (m, q)], NodeSelector = sel\<rparr> pre \<noteq>
    SelectPool cs \<lparr>Pools = [(m, q), (n, p)], NodeSelector = sel\<rparr> pre"
  using assms by (simp add: SelectPool_def)

theorem SelectPool_ambiguous_witness:
  "SelectPool ref_cpuset \<lparr>Pools = [named_pool ''exclusive'' [1], named_pool ''exclusive_b'' [2]], NodeSelector = []\<rparr> ''exclusive'' \<noteq>
   SelectPool ref_cpuset \<lparr>Pools = [named_pool ''exclusive_b'' [2], named_pool ''exclusive'' [1]], NodeSelector = []\<rparr> ''exclusive''"
  unfolding named_pool_def by (rule SelectPool_ambiguous) (simp_all add: pool_zero_def)

text \<open>C30: Reading the configuration of a node with labels: every file is read and decoded, and the result is
  the first configuration, in file order, whose node selector agrees with a label of the node. It has the
  node selector and, under the same names and in the same order, the pools of the decoded file: the CPU set
  of each is parsed from its list, a missing threading policy has become single-threaded, the core map
  has exactly the cores of the topology on the pool's own CPUs, and everything else is as in the file.\<close>

theorem readPoolConfig_correct:
  assumes "pe_glob env = Ok files" "readPoolConfig cs env (Some labels) = Ok pc"
  shows "\<exists>raws. list_all2 (\<lambda>f raw. \<exists>body. pe_ReadFile env f = Ok body \<and> pe_yaml env body = Ok raw) files raws \<and>
    (\<exists>i < length files. NodeSelector pc = NodeSelector (raws ! i) \<and>
       (\<exists>(l, v) \<in> set labels. map_of (NodeSelector (raws ! i)) l = Some v) \<and>
       (\<forall>j < i. \<forall>(l, v) \<in> set labels. map_of (NodeSelector (raws ! j)) l \<noteq> Some v) \<and>
       list_all2 (\<lambda>(n, b) (m, p). n = m \<and>
         cs_Parse cs (CPUStr b) = (CPUset p, True) \<and> CPUStr p = CPUStr b \<and>
         HTPolicy p = (if HTPolicy b = [] then SingleThreadHTPolicy else HTPolicy b) \<and>
         Overcommitment p = Overcommitment b \<and> NumaWeight p = NumaWeight b \<and> PhysicalCore p = PhysicalCore b \<and>
         (\<forall>k v. (k, v) \<in> set (CoreMap p) \<longleftrightarrow> (k, v) \<in> set (pe_topology env) \<and> cs_Contains cs (CPUset p) k))
         (Pools (raws ! i)) (Pools pc))"
proof -
  obtain pcs where files: "list_all2 (\<lambda>f c. ReadPoolConfigFile cs env f = Ok c) files pcs"
    and loop: "readPoolConfig_loop (Some labels) pcs = Ok pc"
    using assms by (auto simp: readPoolConfig_def ReadAllPoolConfigs_def and_then_Ok_iff ReadAll_loop_Ok_iff)
  obtain i where i: "i < length pcs" "pc = pcs ! i" "selector_matches (NodeSelector pc) labels"
    "\<forall>j < i. \<not> selector_matches (NodeSelector (pcs ! j)) labels"
    using loop readPoolConfig_loop_Ok_iff by blast
  obtain raws where raws: "list_all2 (\<lambda>f raw. \<exists>body. pe_ReadFile env f = Ok body \<and> pe_yaml env body = Ok raw) files raws"
    and read: "list_all2 (\<lambda>raw c. NodeSelector c = NodeSelector raw \<and>
      prepare_pools cs (pe_topology env) (Pools raw) = Ok (Pools c)) raws pcs"
    using files_decoded [OF files] by blast
  have len: "length files = length pcs" "length raws = length pcs"
    using files read by (simp_all add: list_all2_lengthD)
  have sel: "NodeSelector (pcs ! j) = NodeSelector (raws ! j)" if "j < length pcs" for j
    using list_all2_nthD [OF read, of j] that len by simp
  have "list_all2 (\<lambda>(n, b) (m, p). n = m \<and> pool_read cs (pe_topology env) b p) (Pools (raws ! i)) (Pools pc)"
    using list_all2_nthD [OF read, of i] i(1,2) len by (simp add: prepare_pools_read)
  moreover have "\<exists>(l, v) \<in> set labels. map_of (NodeSelector (raws ! i)) l = Some v"
    using i sel [OF i(1)] selector_matches_iff by metis
  moreover have "\<forall>j < i. \<forall>(l, v) \<in> set labels. map_of (NodeSelector (raws ! j)) l \<noteq> Some v"
    using i(1,4) sel unfolding selector_matches_iff by fastforce
  ultimately show ?thesis using raws i(1,2) sel [OF i(1)] len unfolding pool_read_def
    by (intro exI [of _ raws] exI [of _ i] conjI) simp_all
qed

text \<open>Two configuration files, the second one for the node's label.\<close>

definition two_configs :: "int list pool_env" where
  "two_configs =
     \<lparr>pe_topology = [(0, topology_zero), (1, topology_zero)], pe_glob = Ok [''poolconfig-a'', ''poolconfig-b''],
      pe_ReadFile = Ok,
      pe_yaml = (\<lambda>f. Ok \<lparr>Pools = [(''exclusive'', (pool_zero ref_cpuset)\<lparr>CPUStr := ''1''\<rparr>)],
        NodeSelector = [(''kind'', if f = ''poolconfig-a'' then ''master'' else ''worker'')]\<rparr>)\<rparr>"

definition worker_config :: "int list pool_config" where
  "worker_config = (case readPoolConfig ref_cpuset two_configs (Some [(''kind'', ''worker'')]) of Ok pc \<Rightarrow> pc
     | _ \<Rightarrow> \<lparr>Pools = [], NodeSelector = []\<rparr>)"

theorem readPoolConfig_correct_witness:
  "\<exists>p. Pools worker_config = [(''exclusive'', p)] \<and> cs_Parse ref_cpuset ''1'' = (CPUset p, True) \<and>
     HTPolicy p = SingleThreadHTPolicy \<and> NodeSelector worker_config = [(''kind'', ''worker'')]"
proof -
  have g: "pe_glob two_configs = Ok [''poolconfig-a'', ''poolconfig-b'']" by code_simp
  have r: "readPoolConfig ref_cpuset two_configs (Some [(''kind'', ''worker'')]) = Ok worker_config" by code_simp
  have y: "pe_ReadFile two_configs = Ok" "pe_yaml two_configs f = Ok \<lparr>Pools = [(''exclusive'', (pool_zero ref_cpuset)\<lparr>CPUStr := ''1''\<rparr>)],
        NodeSelector = [(''kind'', if f = ''poolconfig-a'' then ''master'' else ''worker'')]\<rparr>" for f
    by (simp_all add: two_configs_def)
  show ?thesis
    using readPoolConfig_correct [OF g r]
    by (auto simp: y list_all2_Cons1 numeral_2_eq_2 less_Suc_eq pool_zero_def split: prod.splits)
qed

end
