(* ===== verification/Device_Ids.thy ===== *)
theory Device_Ids
  imports Go_Prelude
begin

text \<open>
  Device ids, the contract between the device plugin and cpusetter. The plugin advertises CPU
  \<open>cpu\<close> of a machine with \<open>n\<close> CPUs under the ids \<open>cpu + k * n\<close>, one for each \<open>k\<close> below
  the overcommitment of the pool; both programs turn an id back into a CPU by a remainder, each
  with its own number parser. The locale \<open>device_decoder\<close> is what the plugin promises the
  kubelet and cpusetter relies on; it is interpreted on the plugin's decoder in
  \<open>Device_Plugin\<close> and on cpusetter's in \<open>Cpuset_Choice\<close>.
\<close>

definition device_id :: "int \<Rightarrow> int \<Rightarrow> int \<Rightarrow> string" where
  "device_id n cpu k = Itoa (wrap64 (cpu + wrap64 (k * n)))"

text \<open>The ids in use: the CPU is one of the machine's and the id fits the 32 bits the plugin
  parses.\<close>

definition valid_slot :: "int \<Rightarrow> int \<Rightarrow> int \<Rightarrow> bool" where
  "valid_slot n cpu k \<longleftrightarrow> 0 \<le> cpu \<and> cpu < n \<and> 0 \<le> k \<and> cpu + k * n \<le> 4294967295"

lemma device_id_exact:
  assumes "valid_slot n cpu k"
  shows "device_id n cpu k = Itoa (cpu + k * n)" and "0 \<le> cpu + k * n" and "0 \<le> k * n"
proof -
  show kn: "0 \<le> k * n" using assms by (simp add: valid_slot_def)
  with assms show nn: "0 \<le> cpu + k * n" by (simp add: valid_slot_def)
  have le: "0 \<le> cpu" "cpu + k * n \<le> 4294967295" using assms by (simp_all add: valid_slot_def)
  have "in_int64 (k * n)" by (rule in_int64_u32) (use kn le in linarith)+
  moreover have "in_int64 (cpu + k * n)" by (rule in_int64_u32) (use nn le in linarith)+
  ultimately show "device_id n cpu k = Itoa (cpu + k * n)" by (simp add: device_id_def)
qed

lemma slot_mod: "valid_slot n cpu k \<Longrightarrow> (cpu + k * n) mod n = cpu"
  by (simp add: valid_slot_def)

lemma device_id_inj:
  assumes "valid_slot n cpu k" "valid_slot n cpu' k'" "device_id n cpu k = device_id n cpu' k'"
  shows "cpu = cpu' \<and> k = k'"
proof -
  note e = device_id_exact [OF assms(1)] and e' = device_id_exact [OF assms(2)]
  have le: "cpu + k * n \<le> 4294967295" "cpu' + k' * n \<le> 4294967295"
    using assms(1,2) by (simp_all add: valid_slot_def)
  have "Itoa (cpu + k * n) = Itoa (cpu' + k' * n)" using assms(3) e(1) e'(1) by simp
  then have eq: "cpu + k * n = cpu' + k' * n"
    by (rule Itoa_inj [OF in_int64_u32 [OF e(2) le(1)] in_int64_u32 [OF e'(2) le(2)]])
  have cpu: "cpu = cpu'" using slot_mod [OF assms(1)] slot_mod [OF assms(2)] eq by simp
  with eq assms(1) show ?thesis by (auto simp: valid_slot_def)
qed

locale device_decoder =
  fixes decode :: "int \<Rightarrow> string \<Rightarrow> int option"
  assumes decode_device_id: "valid_slot n cpu k \<Longrightarrow> decode n (device_id n cpu k) = Some cpu"
begin

text \<open>The CPUs behind a list of ids.\<close>

definition decoded :: "int \<Rightarrow> string list \<Rightarrow> int set" where
  "decoded n ids = {cpu. \<exists>i \<in> set ids. decode n i = Some cpu}"

lemma decoded_Nil [simp]: "decoded n [] = {}"
  by (simp add: decoded_def)

lemma decoded_Cons:
  "decoded n (i # ids) = (case decode n i of None \<Rightarrow> {} | Some c \<Rightarrow> {c}) \<union> decoded n ids"
  by (auto simp: decoded_def split: option.splits)

lemma decoded_advertised:
  assumes "\<And>cpu k. (cpu, k) \<in> set slots \<Longrightarrow> valid_slot n cpu k"
  shows "decoded n (map (\<lambda>(cpu, k). device_id n cpu k) slots) = fst ` set slots"
  using assms
proof (induction slots)
  case (Cons s slots)
  obtain cpu k where s: "s = (cpu, k)" by (cases s)
  have "decode n (device_id n cpu k) = Some cpu"
    using Cons.prems s by (intro decode_device_id) simp
  with Cons s show ?case by (simp add: decoded_Cons)
qed simp

text \<open>Two CPUs are never confused: slots of different CPUs decode to different sets.\<close>

lemma decoded_disjoint:
  assumes "\<And>cpu k. (cpu, k) \<in> set a \<union> set b \<Longrightarrow> valid_slot n cpu k"
    and "fst ` set a \<inter> fst ` set b = {}"
  shows "decoded n (map (\<lambda>(cpu, k). device_id n cpu k) a)
       \<inter> decoded n (map (\<lambda>(cpu, k). device_id n cpu k) b) = {}"
  using assms decoded_advertised [of a n] decoded_advertised [of b n] by auto

end

end
