(* ===== verification/Device_Plugin.thy ===== *)
theory Device_Plugin
  imports Pool_Config Device_Ids "HOL-Library.Log_Nat"
begin

text \<open>
  The device plugin's manager of one pool, \<^verbatim>\<open>cmd/cpu-device-plugin/cpu-device-plugin.go\<close>: the
  devices it advertises (\<^verbatim>\<open>ListAndWatch\<close>), what it tells a container that was given devices
  (\<^verbatim>\<open>Allocate\<close>), and which free devices it prefers (\<^verbatim>\<open>GetPreferredAllocation\<close>).

  Parameters, for code outside the repository: the cpuset package, the sibling lookup
  \<^verbatim>\<open>topology.AddHTSiblingsToCPUSet\<close>, and the weighted round robin of \<^verbatim>\<open>smallnest/weighted\<close>,
  as the state of a poller with its \<^verbatim>\<open>Next\<close> (for extension devices) and as the choice among
  weighted NUMA nodes (for the preferred allocation).
\<close>

section \<open>State\<close>

record device =
  dev_ID :: string
  dev_Health :: string
  dev_Topology :: "int option"

datatype server = NoServer | Serving | NoListener | StoppedServer

record ('s, 'w) cdm =
  cdm_pool :: "'s pool"
  socketFile :: string
  sharedPoolCPUs :: string
  poolType :: string
  nodeTopology :: "(int \<times> int) list"
  htTopology :: "(int \<times> string) list"
  cloudphoneExtDevs :: "(int \<times> 'w) list"
  cloudphoneCPUTopol :: "(int \<times> topology) list"
  cacheDevices :: "(string \<times> device) list"
  numCPU :: int
  grpcServer :: server

text \<open>A missing entry of the node topology reads as node 0.\<close>

definition node_of :: "('s, 'w) cdm \<Rightarrow> int \<Rightarrow> int" where
  "node_of cdm cpu = (case map_of (nodeTopology cdm) cpu of None \<Rightarrow> 0 | Some n \<Rightarrow> n)"

section \<open>ListAndWatch\<close>

text \<open>What the first round of the loop computes; later rounds only sleep. The result is the
  device list of the response and the updated manager.\<close>

definition shared_device :: "int \<Rightarrow> device" where
  "shared_device i = \<lparr>dev_ID = Itoa i, dev_Health = ''Healthy'', dev_Topology = None\<rparr>"

definition exclusive_device :: "('s, 'w) cdm \<Rightarrow> int \<Rightarrow> int \<Rightarrow> device" where
  "exclusive_device cdm cpuID overID =
     \<lparr>dev_ID = Itoa (wrap64 (cpuID + wrap64 (overID * numCPU cdm))), dev_Health = ''Healthy'',
      dev_Topology = map_of (nodeTopology cdm) cpuID\<rparr>"

definition fix_overcommitment :: "('s, 'w) cdm \<Rightarrow> ('s, 'w) cdm" where
  "fix_overcommitment cdm =
     (if Overcommitment (cdm_pool cdm) < 1
      then cdm\<lparr>cdm_pool := (cdm_pool cdm)\<lparr>Overcommitment := 1\<rparr>\<rparr> else cdm)"

fun cache_all :: "(string \<times> device) list \<Rightarrow> device list \<Rightarrow> (string \<times> device) list" where
  "cache_all cache [] = cache"
| "cache_all cache (d # ds) = cache_all (AList.update (dev_ID d) d cache) ds"

fun exclusive_loop ::
  "('s, 'w) cdm \<Rightarrow> int list \<Rightarrow> (string \<times> device) list \<Rightarrow> device list
    \<Rightarrow> ('s, 'w) cdm \<times> (string \<times> device) list \<times> device list" where
  "exclusive_loop cdm [] cache devs = (cdm, cache, devs)"
| "exclusive_loop cdm (cpuID # cpus) cache devs =
     (let cdm' = fix_overcommitment cdm;
          ds = map (exclusive_device cdm' cpuID) [0..Overcommitment (cdm_pool cdm') - 1]
      in exclusive_loop cdm' cpus (cache_all cache ds) (devs @ ds))"

definition list_devices :: "'s cpuset_api \<Rightarrow> ('s, 'w) cdm \<Rightarrow> device list \<times> ('s, 'w) cdm" where
  "list_devices cs cdm =
     (if poolType cdm = ''shared'' then
        (map shared_device [0..wrap64 (cs_Size cs (CPUset (cdm_pool cdm)) * 1000) - 1],
         cdm\<lparr>cacheDevices := []\<rparr>)
      else
        (case exclusive_loop cdm (cs_List cs (CPUset (cdm_pool cdm))) [] [] of
           (cdm', cache, devs) \<Rightarrow> (devs, cdm'\<lparr>cacheDevices := cache\<rparr>)))"

text \<open>\<^verbatim>\<open>ListAndWatch\<close> itself: the response is sent once; if sending fails the call returns the
  error (\<open>Some\<close>), otherwise it never returns (\<open>None\<close>) and the manager keeps its state.\<close>

definition ListAndWatch ::
  "'s cpuset_api \<Rightarrow> (device list \<Rightarrow> string option) \<Rightarrow> ('s, 'w) cdm
    \<Rightarrow> device list \<times> ('s, 'w) cdm \<times> string option" where
  "ListAndWatch cs send cdm =
     (case list_devices cs cdm of (resp, cdm') \<Rightarrow> (resp, cdm', send resp))"

section \<open>Allocate\<close>

record device_spec =
  ContainerPath :: string
  HostPath :: string
  Permissions :: string

record container_resp =
  cr_Envs :: "(string \<times> string) list"
  cr_Devices :: "device_spec list"

text \<open>One device id: an unparsable id is skipped.\<close>

definition alloc_cpu :: "int \<Rightarrow> string \<Rightarrow> (unit, int option) outcome" where
  "alloc_cpu n i =
     (case ParseUint32 i of
        (_, False) \<Rightarrow> Ok None
      | (idN, True) \<Rightarrow> and_then (go_rem idN n) (\<lambda>r. Ok (Some r)))"

fun alloc_cpus :: "'s cpuset_api \<Rightarrow> int \<Rightarrow> 's \<Rightarrow> string list \<Rightarrow> (unit, 's) outcome" where
  "alloc_cpus cs n cpusAllocated [] = Ok cpusAllocated"
| "alloc_cpus cs n cpusAllocated (i # ids) =
     and_then (alloc_cpu n i) (\<lambda>r. case r of
         None \<Rightarrow> alloc_cpus cs n cpusAllocated ids
       | Some c \<Rightarrow> alloc_cpus cs n (cs_Union cs cpusAllocated [cs_New cs [c]]) ids)"

text \<open>The CPUs of the pool on the NUMA node of the first allocated CPU. The index is evaluated in
  the loop, so an empty allocation panics when the core map has an entry.\<close>

fun numa_cpus :: "('s, 'w) cdm \<Rightarrow> int list \<Rightarrow> (int \<times> topology) list \<Rightarrow> (unit, int list) outcome" where
  "numa_cpus cdm alloc [] = Ok []"
| "numa_cpus cdm alloc ((cpu, topol) # rest) =
     (case alloc of
        [] \<Rightarrow> Panic IndexOutOfRange
      | c0 # _ \<Rightarrow>
          and_then (numa_cpus cdm alloc rest) (\<lambda>cpus.
            Ok (if t_Node (topo_at (cloudphoneCPUTopol cdm) c0) = t_Node topol then cpu # cpus else cpus)))"

definition alloc_envs ::
  "'s cpuset_api \<Rightarrow> ('s, 'w) cdm \<Rightarrow> 's \<Rightarrow> (unit, (string \<times> string) list) outcome" where
  "alloc_envs cs cdm cpusAllocated =
     (if poolType cdm = ''shared'' then Ok [(''SHARED_CPUS'', sharedPoolCPUs cdm)]
      else if poolType cdm = ''cloudphone'' then
        and_then (numa_cpus cdm (cs_List cs cpusAllocated) (CoreMap (cdm_pool cdm))) (\<lambda>cpus.
          Ok [(''CLOUDPHONE_CPUS'', cs_String cs cpusAllocated),
              (''NUMA_CPUS'', cs_String cs (cs_New cs cpus))])
      else Ok [(''EXCLUSIVE_CPUS'', cs_String cs cpusAllocated)])"

definition plain_spec :: "string \<Rightarrow> device_spec" where
  "plain_spec v = \<lparr>ContainerPath = v, HostPath = v, Permissions = ''rwm''\<rparr>"

definition render_spec :: "string \<Rightarrow> device_spec" where
  "render_spec dev =
     \<lparr>ContainerPath = (if HasPrefix dev ''/dev/dri/renderD'' then ''/dev/dri/renderD128'' else dev),
      HostPath = dev, Permissions = ''rwm''\<rparr>"

text \<open>The extension devices of the NUMA node of CPU \<open>c0\<close>: the poller of the node advances. The
  result of \<open>sw_next\<close> is \<open>None\<close> when the item is not a topology.\<close>

definition ext_devices ::
  "('w \<Rightarrow> topology option \<times> 'w) \<Rightarrow> ('s, 'w) cdm \<Rightarrow> int \<Rightarrow> device_spec list \<times> ('s, 'w) cdm" where
  "ext_devices sw_next cdm c0 =
     (let node = node_of cdm c0 in
      case map_of (cloudphoneExtDevs cdm) node of
        None \<Rightarrow> ([], cdm)
      | Some w \<Rightarrow>
          (case sw_next w of (topol, w') \<Rightarrow>
             ((case topol of None \<Rightarrow> [] | Some t \<Rightarrow> map plain_spec (t_Devices t)),
              cdm\<lparr>cloudphoneExtDevs := AList.update node w' (cloudphoneExtDevs cdm)\<rparr>)))"

definition allocate_container ::
  "'s cpuset_api \<Rightarrow> ('s \<Rightarrow> (int \<times> string) list \<Rightarrow> 's) \<Rightarrow> ('w \<Rightarrow> topology option \<times> 'w)
    \<Rightarrow> ('s, 'w) cdm \<Rightarrow> string list \<Rightarrow> (unit, container_resp \<times> ('s, 'w) cdm) outcome" where
  "allocate_container cs addHT sw_next cdm devicesIDs =
     and_then (alloc_cpus cs (numCPU cdm) (fst (cs_Parse cs [])) devicesIDs) (\<lambda>cpus.
       let cpusAllocated =
         (if HTPolicy (cdm_pool cdm) = MultiThreadHTPolicy then addHT cpus (htTopology cdm) else cpus)
       in and_then (alloc_envs cs cdm cpusAllocated) (\<lambda>envs.
            case cs_List cs cpusAllocated of
              [] \<Rightarrow> Panic IndexOutOfRange
            | c0 # _ \<Rightarrow>
                (case ext_devices sw_next cdm c0 of (ext, cdm') \<Rightarrow>
                   Ok (\<lparr>cr_Envs = envs,
                        cr_Devices = ext @ map render_spec (t_Devices (topo_at (cloudphoneCPUTopol cdm) c0))\<rparr>,
                       cdm'))))"

fun Allocate ::
  "'s cpuset_api \<Rightarrow> ('s \<Rightarrow> (int \<times> string) list \<Rightarrow> 's) \<Rightarrow> ('w \<Rightarrow> topology option \<times> 'w)
    \<Rightarrow> ('s, 'w) cdm \<Rightarrow> string list list \<Rightarrow> (unit, container_resp list \<times> ('s, 'w) cdm) outcome" where
  "Allocate cs addHT sw_next cdm [] = Ok ([], cdm)"
| "Allocate cs addHT sw_next cdm (devicesIDs # reqs) =
     and_then (allocate_container cs addHT sw_next cdm devicesIDs) (\<lambda>(r, cdm').
     and_then (Allocate cs addHT sw_next cdm' reqs) (\<lambda>(rs, cdm''). Ok (r # rs, cdm'')))"

section \<open>GetPreferredAllocation\<close>

text \<open>\<^verbatim>\<open>float64\<close> of an integer (and \<^verbatim>\<open>strconv.ParseFloat\<close> of its decimal form): rounded to 53
  significant bits, ties to even.\<close>

definition f64 :: "int \<Rightarrow> int" where
  "f64 x =
     (if \<bar>x\<bar> \<le> 2 ^ 53 then x
      else let k = 2 ^ (floorlog 2 (nat \<bar>x\<bar>) - 53); q = \<bar>x\<bar> div k; r = \<bar>x\<bar> mod k
           in sgn x * k * (if 2 * r < k \<or> (2 * r = k \<and> even q) then q else q + 1))"

definition parse_float_id :: "string \<Rightarrow> int" where
  "parse_float_id s = (case Atoi s of None \<Rightarrow> 0 | Some i \<Rightarrow> f64 i)"

text \<open>\<^verbatim>\<open>slices.SortFunc\<close> with the comparison of the source: descending by numeric value. That sort is not stable;
  ids that parse to the same number, which the plugin never advertises twice, keep their order here, one of
  the orders the source may give.\<close>

definition sort_ids :: "string list \<Rightarrow> string list" where
  "sort_ids ids = sort_key (\<lambda>s. - fst (ParseUint32 s)) ids"

text \<open>The free devices by NUMA node, with the weight of the node. A device that is not cached, or
  has no topology, is dereferenced as nil.\<close>

fun numa_groups ::
  "('s, 'w) cdm \<Rightarrow> string list \<Rightarrow> (int \<times> int \<times> string list) list
    \<Rightarrow> (unit, (int \<times> int \<times> string list) list) outcome" where
  "numa_groups cdm [] numaMap = Ok numaMap"
| "numa_groups cdm (i # ids) numaMap =
     (case map_of (cacheDevices cdm) i of
        None \<Rightarrow> Panic NilDereference
      | Some d \<Rightarrow>
          (case dev_Topology d of
             None \<Rightarrow> Panic NilDereference
           | Some node \<Rightarrow>
               numa_groups cdm ids
                 (AList.update node
                    (case map_of numaMap node of
                       None \<Rightarrow> (0, [i])
                     | Some (weight, xs) \<Rightarrow> (weight + 1, xs @ [i])) numaMap)))"

text \<open>The loop that builds the preferred ids: \<open>idSet\<close> holds the CPUs taken so far. A change of
  NUMA node or a gap in the numbering starts over.\<close>

definition starts_over :: "('s, 'w) cdm \<Rightarrow> string list \<Rightarrow> int \<Rightarrow> int \<Rightarrow> bool" where
  "starts_over cdm preferredIDs i r =
     (preferredIDs \<noteq> [] \<and>
      (let preId = parse_float_id (last preferredIDs) in
         (case (go_rem preId (numCPU cdm) :: (unit, int) outcome) of
            Ok pr \<Rightarrow> node_of cdm r \<noteq> node_of cdm pr
          | _ \<Rightarrow> True) \<or>
         \<bar>f64 (preId - f64 i)\<bar> \<noteq> 1))"

fun preferred_loop ::
  "('s, 'w) cdm \<Rightarrow> int \<Rightarrow> string list \<Rightarrow> string list \<Rightarrow> int list \<Rightarrow> (unit, string list) outcome" where
  "preferred_loop cdm allocationSize [] preferredIDs idSet = Ok preferredIDs"
| "preferred_loop cdm allocationSize (n # ns) preferredIDs idSet =
     (case Atoi n of
        None \<Rightarrow> preferred_loop cdm allocationSize ns preferredIDs idSet
      | Some i \<Rightarrow>
          and_then (go_rem i (numCPU cdm)) (\<lambda>r.
            if r \<in> set idSet then preferred_loop cdm allocationSize ns preferredIDs idSet
            else
              (let over = starts_over cdm preferredIDs i r;
                   preferredIDs' = (if over then [] else preferredIDs) @ [Itoa i];
                   idSet' = r # (if over then [] else idSet)
               in if int (length preferredIDs') = allocationSize then Ok preferredIDs'
                  else preferred_loop cdm allocationSize ns preferredIDs' idSet')))"

record pref_request =
  AvailableDeviceIDs :: "string list"
  AllocationSize :: int

text \<open>One container request: \<open>None\<close> is the early return of the whole call when the round robin
  gives no NUMA node. \<open>sw_pick\<close> is the first \<^verbatim>\<open>Next\<close> of a fresh round robin to which the
  given items were added with their weights.\<close>

definition preferred_container ::
  "((int \<times> int) list \<Rightarrow> int option) \<Rightarrow> ('s, 'w) cdm \<Rightarrow> pref_request
    \<Rightarrow> (unit, string list option) outcome" where
  "preferred_container sw_pick cdm c =
     and_then (numa_groups cdm (sort_ids (AvailableDeviceIDs c)) []) (\<lambda>numaMap.
       case sw_pick (map (\<lambda>(k, weight, _). (k, weight)) numaMap) of
         None \<Rightarrow> Ok None
       | Some numa \<Rightarrow>
           and_then (preferred_loop cdm (AllocationSize c)
               (sort_ids (case map_of numaMap numa of None \<Rightarrow> [] | Some (_, xs) \<Rightarrow> xs)) [] [])
             (\<lambda>ids. Ok (Some ids)))"

fun GetPreferredAllocation ::
  "((int \<times> int) list \<Rightarrow> int option) \<Rightarrow> ('s, 'w) cdm \<Rightarrow> pref_request list
    \<Rightarrow> (unit, string list list) outcome" where
  "GetPreferredAllocation sw_pick cdm [] = Ok []"
| "GetPreferredAllocation sw_pick cdm (c # reqs) =
     and_then (preferred_container sw_pick cdm c) (\<lambda>r. case r of
         None \<Rightarrow> Ok []
       | Some ids \<Rightarrow> and_then (GetPreferredAllocation sw_pick cdm reqs) (\<lambda>rs. Ok (ids # rs)))"

section \<open>Advertised devices\<close>

definition effective_overcommitment :: "('s, 'w) cdm \<Rightarrow> int" where
  "effective_overcommitment cdm = max 1 (Overcommitment (cdm_pool cdm))"

text \<open>The slots of a pool, in the order the plugin advertises them: each CPU with each of its
  overcommitment indices.\<close>

definition slots_of :: "int list \<Rightarrow> int \<Rightarrow> (int \<times> int) list" where
  "slots_of cpus over = concat (map (\<lambda>cpu. map (Pair cpu) [0..over - 1]) cpus)"

definition pool_slots :: "'s cpuset_api \<Rightarrow> ('s, 'w) cdm \<Rightarrow> (int \<times> int) list" where
  "pool_slots cs cdm = slots_of (cs_List cs (CPUset (cdm_pool cdm))) (effective_overcommitment cdm)"

definition slot_ids :: "('s, 'w) cdm \<Rightarrow> (int \<times> int) list \<Rightarrow> string list" where
  "slot_ids cdm slots = map (\<lambda>(cpu, k). device_id (numCPU cdm) cpu k) slots"

text \<open>The pool lies on the machine, and its ids fit 32 bits.\<close>

definition cdm_wf :: "'s cpuset_api \<Rightarrow> ('s, 'w) cdm \<Rightarrow> bool" where
  "cdm_wf cs cdm \<longleftrightarrow>
     (\<forall>cpu \<in> cs_elems cs (CPUset (cdm_pool cdm)). 0 \<le> cpu \<and> cpu < numCPU cdm) \<and>
     numCPU cdm * effective_overcommitment cdm \<le> 4294967296"

lemma fix_overcommitment_simps [simp]:
  "numCPU (fix_overcommitment cdm) = numCPU cdm"
  "nodeTopology (fix_overcommitment cdm) = nodeTopology cdm"
  "exclusive_device (fix_overcommitment cdm) = exclusive_device cdm"
  "Overcommitment (cdm_pool (fix_overcommitment cdm)) = effective_overcommitment cdm"
  "effective_overcommitment (fix_overcommitment cdm) = effective_overcommitment cdm"
  "fix_overcommitment (fix_overcommitment cdm) = fix_overcommitment cdm"
  by (auto simp: fix_overcommitment_def exclusive_device_def effective_overcommitment_def fun_eq_iff)

lemma cache_all_append: "cache_all cache (xs @ ys) = cache_all (cache_all cache xs) ys"
  by (induction xs arbitrary: cache) auto

lemma map_of_cache_all:
  "map_of (cache_all cache ds) i =
     (case find (\<lambda>d. dev_ID d = i) (rev ds) of Some d \<Rightarrow> Some d | None \<Rightarrow> map_of cache i)"
  by (induction ds arbitrary: cache) (simp_all add: update_conv' find_append split: option.splits)

lemma exclusive_loop_eq:
  "exclusive_loop cdm cpus cache devs =
     (let ds = map (\<lambda>(cpu, k). exclusive_device cdm cpu k) (slots_of cpus (effective_overcommitment cdm))
      in (if cpus = [] then cdm else fix_overcommitment cdm, cache_all cache ds, devs @ ds))"
proof (induction cpus arbitrary: cdm cache devs)
  case (Cons cpu cpus)
  then show ?case
    by (auto simp: Let_def slots_of_def cache_all_append comp_def)
qed (simp add: slots_of_def)

lemma list_devices_exclusive:
  assumes "poolType cdm \<noteq> ''shared''"
  shows "fst (list_devices cs cdm) = map (\<lambda>(cpu, k). exclusive_device cdm cpu k) (pool_slots cs cdm)"
    and "cacheDevices (snd (list_devices cs cdm)) = cache_all [] (fst (list_devices cs cdm))"
  using assms by (simp_all add: list_devices_def exclusive_loop_eq Let_def pool_slots_def)

lemma dev_ID_exclusive [simp]: "dev_ID (exclusive_device cdm cpu k) = device_id (numCPU cdm) cpu k"
  by (simp add: exclusive_device_def device_id_def)

lemma set_slots_of: "set (slots_of cpus over) = set cpus \<times> {0..over - 1}"
  by (auto simp: slots_of_def)

lemma distinct_slots_of: "distinct cpus \<Longrightarrow> distinct (slots_of cpus over)"
  by (induction cpus) (auto simp: slots_of_def distinct_map inj_on_def)

lemma length_slots_of: "0 \<le> over \<Longrightarrow> int (length (slots_of cpus over)) = int (length cpus) * over"
  by (induction cpus) (simp_all add: slots_of_def algebra_simps)

lemma effective_overcommitment_pos: "1 \<le> effective_overcommitment cdm"
  by (simp add: effective_overcommitment_def)

lemma cdm_wf_slot:
  assumes "cdm_wf cs cdm" "(cpu, k) \<in> set (pool_slots cs cdm)"
  shows "valid_slot (numCPU cdm) cpu k"
proof -
  let ?n = "numCPU cdm" and ?o = "effective_overcommitment cdm"
  have cpu: "0 \<le> cpu" "cpu < ?n" and k: "0 \<le> k" "k \<le> ?o - 1"
    using assms by (auto simp: cdm_wf_def pool_slots_def set_slots_of cs_elems_def)
  have "k * ?n \<le> (?o - 1) * ?n" using k cpu by (intro mult_right_mono) auto
  then have "cpu + k * ?n \<le> ?n * ?o - 1" using cpu by (simp add: algebra_simps)
  with assms(1) cpu k show ?thesis by (simp add: valid_slot_def cdm_wf_def)
qed

lemma slot_ids_distinct:
  assumes "cdm_wf cs cdm" "set slots \<subseteq> set (pool_slots cs cdm)" "distinct slots"
  shows "distinct (slot_ids cdm slots)"
proof -
  have "inj_on (\<lambda>(cpu, k). device_id (numCPU cdm) cpu k) (set slots)"
  proof (rule inj_onI, clarify)
    fix c k c' k' assume "(c, k) \<in> set slots" "(c', k') \<in> set slots"
      and eq: "device_id (numCPU cdm) c k = device_id (numCPU cdm) c' k'"
    then have "valid_slot (numCPU cdm) c k" "valid_slot (numCPU cdm) c' k'"
      using cdm_wf_slot [OF assms(1)] assms(2) by blast+
    then show "c = c' \<and> k = k'" using eq by (rule device_id_inj)
  qed
  with assms(3) show ?thesis by (simp add: slot_ids_def distinct_map)
qed

lemma find_distinct:
  "distinct (map f xs) \<Longrightarrow> x \<in> set xs \<Longrightarrow> find (\<lambda>y. f y = f x) xs = Some x"
  by (induction xs) (auto simp: rev_image_eqI)

section \<open>Allocated CPUs\<close>

text \<open>The plugin's decoder of device ids meets the contract.\<close>

definition plugin_decode :: "int \<Rightarrow> string \<Rightarrow> int option" where
  "plugin_decode n i = (case alloc_cpu n i of Ok r \<Rightarrow> r | _ \<Rightarrow> None)"

interpretation plugin: device_decoder plugin_decode
proof
  fix n cpu k assume v: "valid_slot n cpu k"
  note e = device_id_exact [OF v]
  have "ParseUint32 (device_id n cpu k) = (cpu + k * n, True)"
    using e v by (simp add: valid_slot_def)
  moreover have "0 < n" using v by (simp add: valid_slot_def)
  ultimately show "plugin_decode n (device_id n cpu k) = Some cpu"
    using e(2) slot_mod [OF v] by (simp add: plugin_decode_def alloc_cpu_def go_rem_nonneg)
qed

lemma alloc_cpu_total: "n \<noteq> 0 \<Longrightarrow> alloc_cpu n i = Ok (plugin_decode n i)"
  by (auto simp: plugin_decode_def alloc_cpu_def go_rem_def split: prod.splits bool.splits)

lemma alloc_cpus_elems:
  assumes "cpuset_lib cs" "n \<noteq> 0"
  shows "\<exists>s. alloc_cpus cs n acc ids = Ok s \<and> cs_elems cs s = cs_elems cs acc \<union> plugin.decoded n ids"
proof (induction ids arbitrary: acc)
  case (Cons i ids)
  note lib = cpuset_lib.elems_Union [OF assms(1)] cpuset_lib.elems_New [OF assms(1)]
  show ?case
  proof (cases "plugin_decode n i")
    case None
    with Cons.IH [of acc] assms(2) show ?thesis by (simp add: alloc_cpu_total plugin.decoded_Cons)
  next
    case (Some c)
    with Cons.IH [of "cs_Union cs acc [cs_New cs [c]]"] assms(2) show ?thesis
      by (simp add: alloc_cpu_total plugin.decoded_Cons lib Un_ac)
  qed
qed simp

lemma alloc_cpus_fresh:
  assumes "cpuset_lib cs" "n \<noteq> 0"
  obtains s where "alloc_cpus cs n (fst (cs_Parse cs [])) ids = Ok s"
    "cs_elems cs s = plugin.decoded n ids"
  using alloc_cpus_elems [OF assms, of "fst (cs_Parse cs [])" ids] cpuset_lib.Parse_empty [OF assms(1)]
  by auto

lemma decoded_slots:
  assumes "cdm_wf cs cdm" "set slots \<subseteq> set (pool_slots cs cdm)"
  shows "plugin.decoded (numCPU cdm) (slot_ids cdm slots) = fst ` set slots"
  unfolding slot_ids_def
  by (rule plugin.decoded_advertised) (use assms cdm_wf_slot in blast)

lemma pool_slots_elems: "fst ` set (pool_slots cs cdm) = cs_elems cs (CPUset (cdm_pool cdm))"
  using effective_overcommitment_pos [of cdm]
  by (auto simp: pool_slots_def set_slots_of cs_elems_def image_iff)

lemma cdm_wf_numCPU_pos:
  assumes "cdm_wf cs cdm" "set slots \<subseteq> set (pool_slots cs cdm)" "slots \<noteq> []"
  shows "0 < numCPU cdm"
proof -
  obtain cpu k where "(cpu, k) \<in> set slots" using assms(3) by (cases slots) auto
  with assms(1,2) have "valid_slot (numCPU cdm) cpu k" using cdm_wf_slot by blast
  then show ?thesis by (simp add: valid_slot_def)
qed

text \<open>A single-threaded exclusive pool: what the container is told.\<close>

lemma allocate_exclusive:
  assumes lib: "cpuset_lib cs" and wf: "cdm_wf cs cdm"
    and excl: "poolType cdm = ''exclusive''" and st: "HTPolicy (cdm_pool cdm) \<noteq> MultiThreadHTPolicy"
    and slots: "set slots \<subseteq> set (pool_slots cs cdm)" "slots \<noteq> []"
  shows "\<exists>devs cdm'. allocate_container cs addHT sw_next cdm (slot_ids cdm slots) =
    Ok (\<lparr>cr_Envs = [(''EXCLUSIVE_CPUS'', cs_String cs (cs_New cs (map fst slots)))], cr_Devices = devs\<rparr>, cdm')"
proof -
  have n: "numCPU cdm \<noteq> 0" using cdm_wf_numCPU_pos [OF wf slots] by simp
  obtain s where s: "alloc_cpus cs (numCPU cdm) (fst (cs_Parse cs [])) (slot_ids cdm slots) = Ok s"
    and el: "cs_elems cs s = fst ` set slots"
    using alloc_cpus_fresh [OF lib n] decoded_slots [OF wf slots(1)] by metis
  have str: "cs_String cs s = cs_String cs (cs_New cs (map fst slots))"
    by (rule cpuset_lib.String_canonical [OF lib]) (simp add: el cpuset_lib.elems_New [OF lib])
  obtain c0 rest where "cs_List cs s = c0 # rest"
    using el slots(2) by (cases "cs_List cs s") (auto simp: cs_elems_def)
  then show ?thesis
    using s st excl str
    by (simp add: allocate_container_def Let_def alloc_envs_def split: prod.splits)
qed

text \<open>A shared pool: the container is told the CPUs of the shared pool, whatever its devices are.\<close>

lemma allocate_shared:
  assumes lib: "cpuset_lib cs" and "poolType cdm = ''shared''" "HTPolicy (cdm_pool cdm) \<noteq> MultiThreadHTPolicy" "0 < numCPU cdm"
    and small: "cs_Size cs (CPUset (cdm_pool cdm)) * 1000 \<le> 4294967296"
    and ids: "set ids \<subseteq> set (map dev_ID (fst (list_devices cs cdm)))" "ids \<noteq> []"
  shows "\<exists>devs cdm'. allocate_container cs addHT sw_next cdm ids =
    Ok (\<lparr>cr_Envs = [(''SHARED_CPUS'', sharedPoolCPUs cdm)], cr_Devices = devs\<rparr>, cdm')"
proof -
  have n: "numCPU cdm \<noteq> 0" using assms(4) by simp
  obtain s where s: "alloc_cpus cs (numCPU cdm) (fst (cs_Parse cs [])) ids = Ok s"
    and el: "cs_elems cs s = plugin.decoded (numCPU cdm) ids"
    using alloc_cpus_fresh [OF lib n] by metis
  have "in_int64 (cs_Size cs (CPUset (cdm_pool cdm)) * 1000)"
    using small cpuset_lib.Size_List [OF lib] by simp
  then have "hd ids \<in> Itoa ` set [0..cs_Size cs (CPUset (cdm_pool cdm)) * 1000 - 1]"
    using ids assms(2) hd_in_set [of ids] by (auto simp: list_devices_def shared_device_def)
  then obtain i where i: "hd ids = Itoa i" "0 \<le> i" "i \<le> 4294967295" using small by auto
  then have "plugin_decode (numCPU cdm) (hd ids) = Some (i mod numCPU cdm)"
    using assms(4) by (simp add: plugin_decode_def alloc_cpu_def go_rem_nonneg)
  then have "i mod numCPU cdm \<in> cs_elems cs s" using el ids(2) hd_in_set [of ids] unfolding plugin.decoded_def by blast
  then have "cs_elems cs s \<noteq> {}" by blast
  then obtain c0 rest where "cs_List cs s = c0 # rest" by (cases "cs_List cs s") (auto simp: cs_elems_def)
  then show ?thesis
    using s assms(2,3) by (simp add: allocate_container_def Let_def alloc_envs_def split: prod.splits)
qed

lemma ids_are_slots:
  "set ids \<subseteq> set (slot_ids cdm ps) \<Longrightarrow> \<exists>slots. set slots \<subseteq> set ps \<and> ids = slot_ids cdm slots"
proof (induction ids)
  case (Cons i ids)
  then obtain slots where s: "set slots \<subseteq> set ps" "ids = slot_ids cdm slots" by auto
  from Cons.prems obtain x where "x \<in> set ps" "i = (\<lambda>(cpu, k). device_id (numCPU cdm) cpu k) x"
    by (auto simp: slot_ids_def)
  with s show ?case by (intro exI [of _ "x # slots"]) (simp add: slot_ids_def)
qed (simp add: slot_ids_def)

lemma slots_one_per_cpu:
  assumes "Overcommitment (cdm_pool cdm) \<le> 1"
    and "set a \<subseteq> set (pool_slots cs cdm)" "set b \<subseteq> set (pool_slots cs cdm)" "set a \<inter> set b = {}"
  shows "fst ` set a \<inter> fst ` set b = {}"
proof -
  have "\<forall>s \<in> set a \<union> set b. snd s = 0"
    using assms(1-3) by (fastforce simp: pool_slots_def set_slots_of effective_overcommitment_def)
  then have "(c, k) \<in> set a \<Longrightarrow> (c, k') \<in> set b \<Longrightarrow> k = k'" for c k k'
    by (metis UnCI snd_conv)
  with assms(4) show ?thesis by fastforce
qed

section \<open>Preferred allocations\<close>

text \<open>A run: consecutive numbers on one NUMA node, no CPU twice.\<close>

definition consecutive_run :: "('s, 'w) cdm \<Rightarrow> int list \<Rightarrow> bool" where
  "consecutive_run cdm is \<longleftrightarrow>
     successively (\<lambda>a b. \<bar>a - b\<bar> = 1 \<and> node_of cdm (a mod numCPU cdm) = node_of cdm (b mod numCPU cdm)) is \<and>
     distinct (map (\<lambda>i. i mod numCPU cdm) is)"

lemma f64_small [simp]: "0 \<le> x \<Longrightarrow> x \<le> 4294967295 \<Longrightarrow> f64 x = x"
  by (simp add: f64_def)

lemma f64_diff_small [simp]:
  "0 \<le> x \<Longrightarrow> x \<le> 4294967295 \<Longrightarrow> 0 \<le> y \<Longrightarrow> y \<le> 4294967295 \<Longrightarrow> f64 (x - y) = x - y"
proof -
  assume "0 \<le> x" "x \<le> 4294967295" "0 \<le> y" "y \<le> 4294967295"
  then have "\<bar>x - y\<bar> \<le> 2 ^ 53" by simp
  then show ?thesis by (simp add: f64_def)
qed

abbreviation u32 :: "int \<Rightarrow> bool" where
  "u32 i \<equiv> 0 \<le> i \<and> i \<le> 4294967295"

lemma starts_over_iff:
  assumes "0 < numCPU cdm" "\<forall>j \<in> set is. u32 j" "u32 i" "is \<noteq> []"
  shows "starts_over cdm (map Itoa is) i r \<longleftrightarrow>
    node_of cdm r \<noteq> node_of cdm (last is mod numCPU cdm) \<or> \<bar>last is - i\<bar> \<noteq> 1"
proof -
  have l: "u32 (last is)" using assms(2,4) by simp
  then have "parse_float_id (Itoa (last is)) = last is"
    using Atoi_Itoa [OF in_int64_u32, of "last is"] by (simp add: parse_float_id_def)
  moreover have "(go_rem (last is) (numCPU cdm) :: (unit, int) outcome) = Ok (last is mod numCPU cdm)"
    using l assms(1) by (simp add: go_rem_nonneg)
  ultimately show ?thesis using assms(3,4) l by (simp add: starts_over_def last_map Let_def)
qed

text \<open>A fresh CPU extends the run, or starts a new one.\<close>

lemma consecutive_run_extend:
  assumes "0 < numCPU cdm" "\<forall>i \<in> set is. u32 i" "u32 j" "consecutive_run cdm is"
    "j mod numCPU cdm \<notin> (\<lambda>i. i mod numCPU cdm) ` set is"
  shows "consecutive_run cdm ((if starts_over cdm (map Itoa is) j (j mod numCPU cdm) then [] else is) @ [j])"
proof (cases "is = [] \<or> starts_over cdm (map Itoa is) j (j mod numCPU cdm)")
  case True
  then show ?thesis by (auto simp: consecutive_run_def)
next
  case False
  then have "node_of cdm (j mod numCPU cdm) = node_of cdm (last is mod numCPU cdm)" "\<bar>last is - j\<bar> = 1"
    using starts_over_iff [OF assms(1-3)] by auto
  with False assms(4,5) show ?thesis by (auto simp: consecutive_run_def successively_append_iff)
qed

text \<open>One round with a CPU that is not taken.\<close>

lemma preferred_loop_fresh:
  assumes "0 < numCPU cdm" "u32 j" "j mod numCPU cdm \<notin> set idSet"
    and "is' = (if starts_over cdm (map Itoa is) j (j mod numCPU cdm) then [] else is) @ [j]"
    and "idSet' = j mod numCPU cdm # (if starts_over cdm (map Itoa is) j (j mod numCPU cdm) then [] else idSet)"
  shows "preferred_loop cdm alloc (map Itoa (j # js)) (map Itoa is) idSet =
    (if int (length is') = alloc then Ok (map Itoa is') else preferred_loop cdm alloc (map Itoa js) (map Itoa is') idSet')"
proof -
  have "Atoi (Itoa j) = Some j" using Atoi_Itoa [OF in_int64_u32] assms(2) by blast
  moreover have "(go_rem j (numCPU cdm) :: (unit, int) outcome) = Ok (j mod numCPU cdm)"
    using assms(1,2) by (simp add: go_rem_nonneg)
  ultimately show ?thesis using assms(3) unfolding assms(4,5) by (simp add: Let_def)
qed

lemma preferred_loop_taken:
  assumes "0 < numCPU cdm" "u32 j" "j mod numCPU cdm \<in> set idSet"
  shows "preferred_loop cdm alloc (map Itoa (j # js)) is idSet = preferred_loop cdm alloc (map Itoa js) is idSet"
proof -
  have "Atoi (Itoa j) = Some j" using Atoi_Itoa [OF in_int64_u32] assms(2) by blast
  moreover have "(go_rem j (numCPU cdm) :: (unit, int) outcome) = Ok (j mod numCPU cdm)"
    using assms(1,2) by (simp add: go_rem_nonneg)
  ultimately show ?thesis using assms(3) by simp
qed

declare preferred_loop.simps(2) [simp del]

lemma preferred_loop_run:
  assumes "0 < numCPU cdm" "\<forall>j \<in> set js. u32 j"
    and "\<forall>j \<in> set is. u32 j" "consecutive_run cdm is"
    and "set idSet = (\<lambda>i. i mod numCPU cdm) ` set is" "1 \<le> alloc" "int (length is) < alloc"
  shows "\<exists>ks. preferred_loop cdm alloc (map Itoa js) (map Itoa is) idSet = Ok (map Itoa ks) \<and>
    set ks \<subseteq> set is \<union> set js \<and> consecutive_run cdm ks \<and> int (length ks) \<le> alloc \<and> (is \<noteq> [] \<or> js \<noteq> [] \<longrightarrow> ks \<noteq> [])"
  using assms
proof (induction js arbitrary: "is" idSet)
  case Nil
  then show ?case by (intro exI [of _ "is"]) simp
next
  case (Cons j js)
  let ?n = "numCPU cdm"
  have j: "u32 j" and js: "\<forall>j \<in> set js. u32 j" using Cons.prems(2) by simp_all
  show ?case
  proof (cases "j mod ?n \<in> set idSet")
    case True
    then have "is \<noteq> []" using Cons.prems(5) by auto
    with Cons.IH [OF Cons.prems(1) js Cons.prems(3-7)] show ?thesis
      unfolding preferred_loop_taken [OF Cons.prems(1) j True] by auto
  next
    case fresh: False
    define is' where "is' = (if starts_over cdm (map Itoa is) j (j mod ?n) then [] else is) @ [j]"
    define idSet' where "idSet' = j mod ?n # (if starts_over cdm (map Itoa is) j (j mod ?n) then [] else idSet)"
    have u: "\<forall>i \<in> set is'. u32 i" using j Cons.prems(3) by (auto simp: is'_def)
    have run: "consecutive_run cdm is'"
      unfolding is'_def using fresh Cons.prems(5) by (intro consecutive_run_extend [OF Cons.prems(1,3) j Cons.prems(4)]) simp
    have ids: "set idSet' = (\<lambda>i. i mod ?n) ` set is'"
      using Cons.prems(5) by (auto simp: idSet'_def is'_def)
    have len: "int (length is') \<le> alloc" "is' \<noteq> []" using Cons.prems(6,7) by (auto simp: is'_def)
    note step = preferred_loop_fresh [OF Cons.prems(1) j fresh is'_def idSet'_def]
    have sub: "set is' \<subseteq> set is \<union> set (j # js)" by (auto simp: is'_def)
    show ?thesis
    proof (cases "int (length is') = alloc")
      case True
      with step run sub len show ?thesis by (intro exI [of _ "is'"]) simp
    next
      case False
      with len have "int (length is') < alloc" by simp
      from Cons.IH [OF Cons.prems(1) js u run ids Cons.prems(6) this] obtain ks where
        "preferred_loop cdm alloc (map Itoa js) (map Itoa is') idSet' = Ok (map Itoa ks)"
        "set ks \<subseteq> set is' \<union> set js" "consecutive_run cdm ks" "int (length ks) \<le> alloc" "ks \<noteq> []" using len(2) by blast
      with False step sub show ?thesis by (intro exI [of _ ks]) auto
    qed
  qed
qed

text \<open>Inside a run of the size that is asked for, when no CPU comes twice: the run is completed, unless
  what was collected before it is long enough earlier.\<close>

lemma preferred_loop_completes:
  assumes "0 < numCPU cdm" "int (length (r1 @ r2)) = alloc" "consecutive_run cdm (r1 @ r2)"
    and "\<forall>j \<in> set (pre @ r1 @ r2 @ b). u32 j" "distinct (map (\<lambda>j. j mod numCPU cdm) (pre @ r1 @ r2 @ b))"
    and "set idSet = (\<lambda>j. j mod numCPU cdm) ` set (pre @ r1)" "int (length (pre @ r1)) < alloc"
  shows "\<exists>ks. preferred_loop cdm alloc (map Itoa (r2 @ b)) (map Itoa (pre @ r1)) idSet = Ok (map Itoa ks) \<and>
    int (length ks) = alloc"
  using assms
proof (induction r2 arbitrary: r1 pre idSet)
  case (Cons j r2)
  let ?n = "numCPU cdm" and ?is = "pre @ r1"
  define over where "over = starts_over cdm (map Itoa ?is) j (j mod ?n)"
  define is' where "is' = (if over then [] else ?is) @ [j]"
  define idSet' where "idSet' = j mod ?n # (if over then [] else idSet)"
  define pre' where "pre' = (if over then [] else pre)"
  have j: "u32 j" and fresh: "j mod ?n \<notin> set idSet" using Cons.prems(4-6) by auto
  have step: "preferred_loop cdm alloc (map Itoa ((j # r2) @ b)) (map Itoa ?is) idSet =
      (if int (length is') = alloc then Ok (map Itoa is') else preferred_loop cdm alloc (map Itoa (r2 @ b)) (map Itoa is') idSet')"
    using preferred_loop_fresh [OF Cons.prems(1) j fresh is'_def [unfolded over_def] idSet'_def [unfolded over_def], of alloc "r2 @ b"]
    by (simp only: append_Cons)
  have no: "r1 \<noteq> [] \<Longrightarrow> \<not> over"
  proof -
    assume "r1 \<noteq> []"
    moreover from this have "\<bar>last r1 - j\<bar> = 1" "node_of cdm (last r1 mod ?n) = node_of cdm (j mod ?n)"
      using Cons.prems(3) by (auto simp: consecutive_run_def successively_append_iff)
    moreover have "\<forall>i \<in> set ?is. u32 i" using Cons.prems(4) by auto
    ultimately show "\<not> over"
      unfolding over_def using starts_over_iff [OF Cons.prems(1) _ j, of ?is "j mod ?n"] by simp
  qed
  then have is': "is' = pre' @ r1 @ [j]" unfolding is'_def pre'_def by auto
  show ?case
  proof (cases "int (length is') = alloc")
    case True
    with step show ?thesis by (intro exI [of _ is']) (simp del: map_append)
  next
    case False
    have "int (length (pre' @ r1 @ [j])) < alloc" using False Cons.prems(7) unfolding is' pre'_def by auto
    moreover have "set idSet' = (\<lambda>j. j mod ?n) ` set (pre' @ r1 @ [j])"
      using Cons.prems(6) no unfolding idSet'_def pre'_def by (cases "r1 = []") auto
    moreover have "\<forall>j \<in> set (pre' @ (r1 @ [j]) @ r2 @ b). u32 j"
      "distinct (map (\<lambda>j. j mod ?n) (pre' @ (r1 @ [j]) @ r2 @ b))"
      using Cons.prems(4,5) unfolding pre'_def by auto
    moreover have "int (length ((r1 @ [j]) @ r2)) = alloc" "consecutive_run cdm ((r1 @ [j]) @ r2)" using Cons.prems(2,3) by simp_all
    ultimately show ?thesis
      using Cons.IH [OF Cons.prems(1), of "r1 @ [j]" pre' idSet'] False unfolding step is' by (simp only: if_False)
  qed
qed simp

lemma preferred_loop_finds:
  assumes "0 < numCPU cdm" "int (length run) = alloc" "consecutive_run cdm run"
    and "\<forall>j \<in> set (is @ a @ run @ b). u32 j" "distinct (map (\<lambda>j. j mod numCPU cdm) (is @ a @ run @ b))"
    and "set idSet = (\<lambda>j. j mod numCPU cdm) ` set is" "int (length is) < alloc"
  shows "\<exists>ks. preferred_loop cdm alloc (map Itoa (a @ run @ b)) (map Itoa is) idSet = Ok (map Itoa ks) \<and>
    int (length ks) = alloc"
  using assms
proof (induction a arbitrary: "is" idSet)
  case Nil
  then show ?case using preferred_loop_completes [of cdm "[]" run alloc "is" b idSet] by simp
next
  case (Cons j a)
  let ?n = "numCPU cdm"
  define is' where "is' = (if starts_over cdm (map Itoa is) j (j mod ?n) then [] else is) @ [j]"
  define idSet' where "idSet' = j mod ?n # (if starts_over cdm (map Itoa is) j (j mod ?n) then [] else idSet)"
  have j: "u32 j" and fresh: "j mod ?n \<notin> set idSet" using Cons.prems(4-6) by auto
  have step: "preferred_loop cdm alloc (map Itoa ((j # a) @ run @ b)) (map Itoa is) idSet =
      (if int (length is') = alloc then Ok (map Itoa is') else preferred_loop cdm alloc (map Itoa (a @ run @ b)) (map Itoa is') idSet')"
    using preferred_loop_fresh [OF Cons.prems(1) j fresh is'_def idSet'_def, of alloc "a @ run @ b"]
    by (simp only: append_Cons)
  show ?case
  proof (cases "int (length is') = alloc")
    case True
    with step show ?thesis by (intro exI [of _ is']) (simp del: map_append)
  next
    case False
    have "int (length is') < alloc" using False Cons.prems(7) unfolding is'_def by auto
    moreover have "set idSet' = (\<lambda>j. j mod ?n) ` set is'" using Cons.prems(6) unfolding idSet'_def is'_def by auto
    moreover have "\<forall>j \<in> set (is' @ a @ run @ b). u32 j" "distinct (map (\<lambda>j. j mod ?n) (is' @ a @ run @ b))"
      using Cons.prems(4,5) unfolding is'_def by auto
    ultimately show ?thesis using Cons.IH [of is' idSet'] Cons.prems(1-3) unfolding step by (simp only: False if_False)
  qed
qed

lemma numa_groups_total:
  assumes "\<forall>i \<in> set ids. \<exists>d node. map_of (cacheDevices cdm) i = Some d \<and> dev_Topology d = Some node"
  shows "\<exists>m'. numa_groups cdm ids m = Ok m'"
  using assms
proof (induction ids arbitrary: m)
  case (Cons i ids)
  then obtain d node where "map_of (cacheDevices cdm) i = Some d" "dev_Topology d = Some node" by auto
  with Cons show ?case by (auto split: option.splits)
qed simp

text \<open>The group of a node: the devices that are cached with it, in the order they were visited.\<close>

definition on_node :: "('s, 'w) cdm \<Rightarrow> int \<Rightarrow> string \<Rightarrow> bool" where
  "on_node cdm node i = (case map_of (cacheDevices cdm) i of None \<Rightarrow> False | Some d \<Rightarrow> dev_Topology d = Some node)"

definition group_of :: "(int \<times> int \<times> string list) list \<Rightarrow> int \<Rightarrow> string list" where
  "group_of m node = (case map_of m node of None \<Rightarrow> [] | Some (_, xs) \<Rightarrow> xs)"

lemma numa_groups_filter:
  "numa_groups cdm ids m = Ok m' \<Longrightarrow> group_of m' node = group_of m node @ filter (on_node cdm node) ids"
proof (induction ids arbitrary: m)
  case (Cons i ids)
  then obtain d k where d: "map_of (cacheDevices cdm) i = Some d" "dev_Topology d = Some k"
    by (auto split: option.splits)
  define v where "v = (case map_of m k of None \<Rightarrow> (0, [i]) | Some (weight, xs) \<Rightarrow> (weight + 1, xs @ [i]))"
  have "numa_groups cdm ids (AList.update k v m) = Ok m'" using Cons.prems d by (simp add: v_def)
  from Cons.IH [OF this] show ?case
    using d by (auto simp: group_of_def on_node_def v_def update_conv' split: option.splits)
qed simp

lemma numa_groups_nonempty:
  assumes "numa_groups cdm ids m = Ok m'" "ids \<noteq> [] \<or> m \<noteq> []"
  shows "m' \<noteq> []"
  using assms
proof (induction ids arbitrary: m)
  case (Cons i ids)
  then obtain k v where "numa_groups cdm ids (AList.update k v m) = Ok m'"
    by (auto split: option.splits)
  then show ?case by (rule Cons.IH) (simp add: update_nonempty)
qed simp

lemma numa_groups_groups:
  assumes "numa_groups cdm ids m = Ok m'" "\<forall>k w xs. map_of m k = Some (w, xs) \<longrightarrow> xs \<noteq> []" "map_of m' node = Some (w, xs)"
  shows "xs \<noteq> []"
  using assms
proof (induction ids arbitrary: m)
  case (Cons i ids)
  then obtain k where k: "numa_groups cdm ids (AList.update k
      (case map_of m k of None \<Rightarrow> (0, [i]) | Some (weight, xs) \<Rightarrow> (weight + 1, xs @ [i])) m) = Ok m'"
    by (auto split: option.splits)
  from Cons.IH [OF this] Cons.prems(2,3) show ?case by (auto simp: update_conv' split: option.splits if_splits)
qed simp

lemma numeral_ids: "\<forall>i \<in> set ids. \<exists>j. u32 j \<and> i = Itoa j \<Longrightarrow> \<exists>js. ids = map Itoa js \<and> (\<forall>j \<in> set js. u32 j)"
proof (induction ids)
  case (Cons i ids)
  then obtain js where "ids = map Itoa js" "\<forall>j \<in> set js. u32 j" by auto
  moreover obtain j where "u32 j" "i = Itoa j" using Cons.prems by auto
  ultimately show ?case by (intro exI [of _ "j # js"]) auto
qed simp

lemma sort_ids_filter: "sort_ids (filter P (sort_ids ids)) = filter P (sort_ids ids)"
  unfolding sort_ids_def by (rule sort_key_id_if_sorted) (simp add: sorted_filter)

lemma set_sort_ids [simp]: "set (sort_ids ids) = set ids"
  by (simp add: sort_ids_def)

section \<open>Properties\<close>

text \<open>An example manager: CPUs 4 and 5 of a machine with 8 CPUs, each advertised twice.\<close>

definition example_cdm :: "(int list, unit) cdm" where
  "example_cdm =
     \<lparr>cdm_pool = \<lparr>CPUset = [5, 4], CPUStr = ''4-5'', HTPolicy = ''singleThreaded'', Overcommitment = 2,
        NumaWeight = [], PhysicalCore = 0, CoreMap = []\<rparr>,
      socketFile = ''cph-cpudp_exclusive_a.sock'', sharedPoolCPUs = ''0-1'', poolType = ''exclusive'',
      nodeTopology = [(4, 1), (5, 1)], htTopology = [], cloudphoneExtDevs = [], cloudphoneCPUTopol = [],
      cacheDevices = [], numCPU = 8, grpcServer = Serving\<rparr>"

lemma example_cdm_wf: "cdm_wf ref_cpuset example_cdm"
  by (simp add: cdm_wf_def example_cdm_def effective_overcommitment_def)

lemma example_pool_slots: "pool_slots ref_cpuset example_cdm = [(4, 0), (4, 1), (5, 0), (5, 1)]"
  by (simp add: pool_slots_def slots_of_def example_cdm_def effective_overcommitment_def
      ref_cpuset_def ref_List_def upto.simps)

text \<open>C11: The plugin advertises every CPU of an exclusive (or cloudphone) pool under exactly as many
  ids as the pool is overcommitted, in order; all ids are different, and each device can be
  found again in the cache that \<^verbatim>\<open>GetPreferredAllocation\<close> reads.\<close>

theorem list_devices_advertises:
  assumes "cpuset_lib cs" and "cdm_wf cs cdm" and "poolType cdm \<noteq> ''shared''"
  shows "map dev_ID (fst (list_devices cs cdm)) = slot_ids cdm (pool_slots cs cdm) \<and>
    distinct (map dev_ID (fst (list_devices cs cdm))) \<and>
    int (length (fst (list_devices cs cdm))) =
      cs_Size cs (CPUset (cdm_pool cdm)) * max 1 (Overcommitment (cdm_pool cdm)) \<and>
    (\<forall>d \<in> set (fst (list_devices cs cdm)).
       map_of (cacheDevices (snd (list_devices cs cdm))) (dev_ID d) = Some d)"
proof (intro conjI)
  let ?devs = "fst (list_devices cs cdm)"
  show ids: "map dev_ID ?devs = slot_ids cdm (pool_slots cs cdm)"
    by (simp add: list_devices_exclusive [OF assms(3)] slot_ids_def case_prod_unfold comp_def)
  have "distinct (pool_slots cs cdm)"
    unfolding pool_slots_def by (rule distinct_slots_of) (rule cpuset_lib.List_distinct [OF assms(1)])
  then show d: "distinct (map dev_ID ?devs)"
    unfolding ids by (rule slot_ids_distinct [OF assms(2) order_refl])
  show "int (length ?devs) = cs_Size cs (CPUset (cdm_pool cdm)) * max 1 (Overcommitment (cdm_pool cdm))"
    by (simp add: list_devices_exclusive [OF assms(3)] pool_slots_def length_slots_of
        effective_overcommitment_def cpuset_lib.Size_List [OF assms(1)])
  show "\<forall>d \<in> set ?devs. map_of (cacheDevices (snd (list_devices cs cdm))) (dev_ID d) = Some d"
  proof
    fix x assume "x \<in> set ?devs"
    then have "find (\<lambda>y. dev_ID y = dev_ID x) (rev ?devs) = Some x"
      using d by (intro find_distinct) (simp_all flip: rev_map)
    then show "map_of (cacheDevices (snd (list_devices cs cdm))) (dev_ID x) = Some x"
      by (simp add: list_devices_exclusive(2) [OF assms(3)] map_of_cache_all)
  qed
qed

theorem list_devices_advertises_witness:
  "map dev_ID (fst (list_devices ref_cpuset example_cdm)) =
     [device_id 8 4 0, device_id 8 4 1, device_id 8 5 0, device_id 8 5 1]"
proof -
  have "poolType example_cdm \<noteq> ''shared''" by (simp add: example_cdm_def)
  from list_devices_advertises [OF ref.cpuset_lib_axioms example_cdm_wf this] show ?thesis
    by (simp add: example_pool_slots slot_ids_def) (simp add: example_cdm_def)
qed

text \<open>A shared pool is advertised as a thousand devices per CPU with different ids, and its device
  cache is emptied.\<close>

theorem list_devices_shared:
  assumes "poolType cdm = ''shared''"
  shows "map dev_ID (fst (list_devices cs cdm)) = map Itoa [0..wrap64 (cs_Size cs (CPUset (cdm_pool cdm)) * 1000) - 1] \<and>
    distinct (map dev_ID (fst (list_devices cs cdm))) \<and>
    cacheDevices (snd (list_devices cs cdm)) = []"
proof -
  let ?is = "[0..wrap64 (cs_Size cs (CPUset (cdm_pool cdm)) * 1000) - 1]"
  have ids: "map dev_ID (fst (list_devices cs cdm)) = map Itoa ?is"
    using assms by (simp add: list_devices_def shared_device_def)
  moreover have "distinct (map Itoa ?is)"
    by (auto simp: distinct_map intro!: inj_onI Itoa_inj_nonneg)
  ultimately have "distinct (map dev_ID (fst (list_devices cs cdm)))" by simp
  moreover have "cacheDevices (snd (list_devices cs cdm)) = []" using assms by (simp add: list_devices_def)
  ultimately show ?thesis using ids by blast
qed

theorem list_devices_shared_witness:
  "distinct (map dev_ID (fst (list_devices ref_cpuset (example_cdm\<lparr>poolType := ''shared''\<rparr>))))"
proof -
  have "poolType (example_cdm\<lparr>poolType := ''shared''\<rparr>) = ''shared''" by simp
  from list_devices_shared [OF this, of ref_cpuset] show ?thesis by blast
qed

text \<open>C6: A container that is given devices of a single-threaded exclusive pool is told exactly the CPUs
  of these devices in \<^verbatim>\<open>EXCLUSIVE_CPUS\<close>, and they all belong to the pool.\<close>

theorem allocate_exclusive_exact:
  assumes "cpuset_lib cs" and "cdm_wf cs cdm" and "poolType cdm = ''exclusive''"
    and "HTPolicy (cdm_pool cdm) \<noteq> MultiThreadHTPolicy"
    and "set slots \<subseteq> set (pool_slots cs cdm)" and "slots \<noteq> []"
  shows "(\<exists>devs cdm'. allocate_container cs addHT sw_next cdm (slot_ids cdm slots) =
      Ok (\<lparr>cr_Envs = [(''EXCLUSIVE_CPUS'', cs_String cs (cs_New cs (map fst slots)))], cr_Devices = devs\<rparr>, cdm')) \<and>
    set (map fst slots) \<subseteq> cs_elems cs (CPUset (cdm_pool cdm))"
proof
  show "set (map fst slots) \<subseteq> cs_elems cs (CPUset (cdm_pool cdm))"
    using image_mono [OF assms(5), of fst] pool_slots_elems [of cs cdm] by simp
qed (rule allocate_exclusive [OF assms])

theorem allocate_exclusive_exact_witness:
  "\<exists>devs cdm'. allocate_container ref_cpuset (\<lambda>s _. s) (\<lambda>w. (None, w)) example_cdm
      (slot_ids example_cdm [(5, 1), (4, 0)]) =
      Ok (\<lparr>cr_Envs = [(''EXCLUSIVE_CPUS'', ''4-5'')], cr_Devices = devs\<rparr>, cdm')"
proof -
  have str: "cs_String ref_cpuset (cs_New ref_cpuset (map fst [(5, 1), (4, 0 :: int)])) = ''4-5''"
    by code_simp
  have "poolType example_cdm = ''exclusive''" "HTPolicy (cdm_pool example_cdm) \<noteq> MultiThreadHTPolicy"
    "set [(5, 1), (4, 0)] \<subseteq> set (pool_slots ref_cpuset example_cdm)" "[(5, 1), (4, 0 :: int)] \<noteq> ([] :: (int \<times> int) list)"
    by (simp_all add: example_pool_slots) (simp_all add: example_cdm_def MultiThreadHTPolicy_def)
  from allocate_exclusive_exact [OF ref.cpuset_lib_axioms example_cdm_wf this] show ?thesis
    unfolding str by blast
qed

text \<open>C5: Exclusivity. When a pool is not overcommitted, two containers that were given different
  advertised devices of it are told disjoint sets of CPUs, all from the pool.\<close>

theorem exclusive_isolation:
  assumes "cpuset_lib cs" and "cdm_wf cs cdm" and "poolType cdm = ''exclusive''"
    and "HTPolicy (cdm_pool cdm) \<noteq> MultiThreadHTPolicy" and "Overcommitment (cdm_pool cdm) \<le> 1"
    and "set idsA \<subseteq> set (map dev_ID (fst (list_devices cs cdm)))" and "idsA \<noteq> []"
    and "set idsB \<subseteq> set (map dev_ID (fst (list_devices cs cdm)))" and "idsB \<noteq> []"
    and "set idsA \<inter> set idsB = {}"
  shows "\<exists>A B ra rb cA cB.
    allocate_container cs addHT sw_next cdm idsA = Ok (ra, cA) \<and>
    cr_Envs ra = [(''EXCLUSIVE_CPUS'', cs_String cs (cs_New cs A))] \<and>
    allocate_container cs addHT sw_next cdm idsB = Ok (rb, cB) \<and>
    cr_Envs rb = [(''EXCLUSIVE_CPUS'', cs_String cs (cs_New cs B))] \<and>
    set A \<inter> set B = {} \<and> set A \<union> set B \<subseteq> cs_elems cs (CPUset (cdm_pool cdm))"
proof -
  have "poolType cdm \<noteq> ''shared''" using assms(3) by simp
  then have ids: "map dev_ID (fst (list_devices cs cdm)) = slot_ids cdm (pool_slots cs cdm)"
    by (simp add: list_devices_exclusive slot_ids_def case_prod_unfold comp_def)
  obtain a where a: "set a \<subseteq> set (pool_slots cs cdm)" "idsA = slot_ids cdm a"
    using ids_are_slots assms(6) unfolding ids by blast
  obtain b where b: "set b \<subseteq> set (pool_slots cs cdm)" "idsB = slot_ids cdm b"
    using ids_are_slots assms(8) unfolding ids by blast
  have ne: "a \<noteq> []" "b \<noteq> []" and "set a \<inter> set b = {}"
    using a b assms(7,9,10) by (auto simp: slot_ids_def)
  then have "set (map fst a) \<inter> set (map fst b) = {}"
    using slots_one_per_cpu [OF assms(5) a(1) b(1)] by simp
  moreover have "set (map fst a) \<union> set (map fst b) \<subseteq> cs_elems cs (CPUset (cdm_pool cdm))"
    using a(1) b(1) pool_slots_elems [of cs cdm] by auto
  moreover note allocate_exclusive [OF assms(1-4) a(1) ne(1), of addHT sw_next]
    allocate_exclusive [OF assms(1-4) b(1) ne(2), of addHT sw_next]
  ultimately show ?thesis unfolding a(2) b(2) by (metis container_resp.select_convs(1))
qed

text \<open>The example pool without overcommitment: one id per CPU.\<close>

definition example_cdm1 :: "(int list, unit) cdm" where
  "example_cdm1 = example_cdm\<lparr>cdm_pool := (cdm_pool example_cdm)\<lparr>Overcommitment := 0\<rparr>\<rparr>"

lemma example_cdm1_wf: "cdm_wf ref_cpuset example_cdm1"
  by (simp add: cdm_wf_def example_cdm1_def example_cdm_def effective_overcommitment_def)

theorem exclusive_isolation_witness:
  "\<exists>A B ra rb cA cB.
    allocate_container ref_cpuset (\<lambda>s _. s) (\<lambda>w. (None, w)) example_cdm1 [''4''] = Ok (ra, cA) \<and>
    cr_Envs ra = [(''EXCLUSIVE_CPUS'', cs_String ref_cpuset (cs_New ref_cpuset A))] \<and>
    allocate_container ref_cpuset (\<lambda>s _. s) (\<lambda>w. (None, w)) example_cdm1 [''5''] = Ok (rb, cB) \<and>
    cr_Envs rb = [(''EXCLUSIVE_CPUS'', cs_String ref_cpuset (cs_New ref_cpuset B))] \<and>
    set A \<inter> set B = {} \<and> set A \<union> set B \<subseteq> {4, 5}"
proof -
  have ids: "map dev_ID (fst (list_devices ref_cpuset example_cdm1)) = [''4'', ''5'']"
    by code_simp
  have "poolType example_cdm1 = ''exclusive''" "HTPolicy (cdm_pool example_cdm1) \<noteq> MultiThreadHTPolicy"
    "Overcommitment (cdm_pool example_cdm1) \<le> 1"
    "set [''4''] \<subseteq> set (map dev_ID (fst (list_devices ref_cpuset example_cdm1)))" "[''4''] \<noteq> []"
    "set [''5''] \<subseteq> set (map dev_ID (fst (list_devices ref_cpuset example_cdm1)))" "[''5''] \<noteq> []"
    "set [''4''] \<inter> set [''5''] = {}"
    unfolding ids by (simp_all add: example_cdm1_def example_cdm_def MultiThreadHTPolicy_def)
  from exclusive_isolation [OF ref.cpuset_lib_axioms example_cdm1_wf this] show ?thesis
    by (simp add: example_cdm1_def example_cdm_def insert_commute)
qed

text \<open>In an overcommitted pool the same CPU is behind different devices: two containers with one
  device each can be told the same CPU.\<close>

theorem overcommitment_shares_cpu:
  assumes "cpuset_lib cs" and "cdm_wf cs cdm" and "poolType cdm = ''exclusive''"
    and "HTPolicy (cdm_pool cdm) \<noteq> MultiThreadHTPolicy" and "2 \<le> Overcommitment (cdm_pool cdm)"
    and "cpu \<in> cs_elems cs (CPUset (cdm_pool cdm))"
  shows "\<exists>i j ri rj ci cj.
    i \<noteq> j \<and> {i, j} \<subseteq> set (map dev_ID (fst (list_devices cs cdm))) \<and>
    allocate_container cs addHT sw_next cdm [i] = Ok (ri, ci) \<and>
    allocate_container cs addHT sw_next cdm [j] = Ok (rj, cj) \<and>
    cr_Envs ri = cr_Envs rj \<and> cr_Envs ri = [(''EXCLUSIVE_CPUS'', cs_String cs (cs_New cs [cpu]))]"
proof -
  let ?i = "device_id (numCPU cdm) cpu 0" and ?j = "device_id (numCPU cdm) cpu 1"
  have "poolType cdm \<noteq> ''shared''" using assms(3) by simp
  then have ids: "map dev_ID (fst (list_devices cs cdm)) = slot_ids cdm (pool_slots cs cdm)"
    by (simp add: list_devices_exclusive slot_ids_def case_prod_unfold comp_def)
  have s: "(cpu, 0) \<in> set (pool_slots cs cdm)" "(cpu, 1) \<in> set (pool_slots cs cdm)"
    using assms(5,6) by (simp_all add: pool_slots_def set_slots_of cs_elems_def effective_overcommitment_def)
  have one: "k \<in> {0, 1} \<Longrightarrow> \<exists>r c. allocate_container cs addHT sw_next cdm [device_id (numCPU cdm) cpu k] = Ok (r, c) \<and>
      cr_Envs r = [(''EXCLUSIVE_CPUS'', cs_String cs (cs_New cs [cpu]))]" for k
    using allocate_exclusive [OF assms(1-4), of "[(cpu, k)]" addHT sw_next] s
    by (fastforce simp: slot_ids_def)
  obtain ri ci where "allocate_container cs addHT sw_next cdm [?i] = Ok (ri, ci)"
    "cr_Envs ri = [(''EXCLUSIVE_CPUS'', cs_String cs (cs_New cs [cpu]))]" using one [of 0] by auto
  moreover obtain rj cj where "allocate_container cs addHT sw_next cdm [?j] = Ok (rj, cj)"
    "cr_Envs rj = [(''EXCLUSIVE_CPUS'', cs_String cs (cs_New cs [cpu]))]" using one [of 1] by auto
  moreover have "?i \<noteq> ?j" using device_id_inj cdm_wf_slot [OF assms(2)] s by fastforce
  moreover have "{?i, ?j} \<subseteq> set (map dev_ID (fst (list_devices cs cdm)))"
    unfolding ids using s by (force simp: slot_ids_def)
  ultimately show ?thesis
    by - (rule exI [of _ ?i], rule exI [of _ ?j], rule exI [of _ ri], rule exI [of _ rj],
        rule exI [of _ ci], rule exI [of _ cj], simp)
qed

theorem overcommitment_shares_cpu_witness:
  "\<exists>i j ri rj ci cj.
    i \<noteq> j \<and> {i, j} \<subseteq> set (map dev_ID (fst (list_devices ref_cpuset example_cdm))) \<and>
    allocate_container ref_cpuset (\<lambda>s _. s) (\<lambda>w. (None, w)) example_cdm [i] = Ok (ri, ci) \<and>
    allocate_container ref_cpuset (\<lambda>s _. s) (\<lambda>w. (None, w)) example_cdm [j] = Ok (rj, cj) \<and>
    cr_Envs ri = cr_Envs rj \<and> cr_Envs ri = [(''EXCLUSIVE_CPUS'', cs_String ref_cpuset (cs_New ref_cpuset [4]))]"
  by (rule overcommitment_shares_cpu [OF ref.cpuset_lib_axioms example_cdm_wf])
     (simp_all add: example_cdm_def MultiThreadHTPolicy_def)

text \<open>An allocation in which no device id parses (or that names no device at all) panics with an
  index out of range, whatever the type of the pool: the first element of the empty CPU list is
  taken unconditionally.\<close>

theorem allocate_nothing_panics:
  assumes "cpuset_lib cs" and "numCPU cdm \<noteq> 0" and "HTPolicy (cdm_pool cdm) \<noteq> MultiThreadHTPolicy"
    and "\<forall>i \<in> set ids. \<not> snd (ParseUint32 i)"
  shows "allocate_container cs addHT sw_next cdm ids = Panic IndexOutOfRange"
proof -
  have "plugin.decoded (numCPU cdm) ids = {}"
    using assms(4) by (auto simp: plugin.decoded_def plugin_decode_def alloc_cpu_def split: prod.splits bool.splits)
  then obtain s where s: "alloc_cpus cs (numCPU cdm) (fst (cs_Parse cs [])) ids = Ok s" "cs_List cs s = []"
    using alloc_cpus_fresh [OF assms(1,2), of ids] by (auto simp: cs_elems_def)
  have "numa_cpus cdm [] (CoreMap (cdm_pool cdm)) = Ok [] \<or>
      numa_cpus cdm [] (CoreMap (cdm_pool cdm)) = Panic IndexOutOfRange"
    by (cases "CoreMap (cdm_pool cdm)") auto
  then have "(\<exists>envs. alloc_envs cs cdm s = Ok envs) \<or> alloc_envs cs cdm s = Panic IndexOutOfRange"
    by (auto simp: alloc_envs_def s(2))
  with s assms(3) show ?thesis by (auto simp: allocate_container_def)
qed

theorem allocate_nothing_panics_witness:
  "allocate_container ref_cpuset (\<lambda>s _. s) (\<lambda>w. (None, w)) example_cdm [''gpu0''] = Panic IndexOutOfRange"
  by (rule allocate_nothing_panics [OF ref.cpuset_lib_axioms])
     (simp_all add: example_cdm_def MultiThreadHTPolicy_def ParseUint32_def is_digit_def)

text \<open>C12: What the plugin prefers, for free devices that are all cached with a NUMA node: a non-empty run of
  free devices of one NUMA node, numbered consecutively, no CPU twice, not more than were asked for. When
  no two free devices of that node are the same CPU, and its free devices in descending order
  contain a run of the size that was asked for, as many devices as were asked for are preferred.\<close>

theorem preferred_allocation_run:
  assumes "0 < numCPU cdm"
    and "\<forall>i \<in> set (AvailableDeviceIDs c). \<exists>j. u32 j \<and> i = Itoa j"
    and "\<forall>i \<in> set (AvailableDeviceIDs c).
      \<exists>d node. map_of (cacheDevices cdm) i = Some d \<and> dev_Topology d = Some node"
    and "AvailableDeviceIDs c \<noteq> []" and "\<forall>ws. ws \<noteq> [] \<longrightarrow> (\<exists>k. sw_pick ws = Some k \<and> k \<in> fst ` set ws)"
    and "1 \<le> AllocationSize c"
  shows "\<exists>node js is. filter (on_node cdm node) (sort_ids (AvailableDeviceIDs c)) = map Itoa js \<and>
    preferred_container sw_pick cdm c = Ok (Some (map Itoa is)) \<and>
    is \<noteq> [] \<and> set is \<subseteq> set js \<and> consecutive_run cdm is \<and> int (length is) \<le> AllocationSize c \<and>
    (distinct (map (\<lambda>j. j mod numCPU cdm) js) \<and>
       (\<exists>a run b. js = a @ run @ b \<and> consecutive_run cdm run \<and> int (length run) = AllocationSize c) \<longrightarrow>
     int (length is) = AllocationSize c)"
proof -
  obtain m where m: "numa_groups cdm (sort_ids (AvailableDeviceIDs c)) [] = Ok m"
    using numa_groups_total [of "sort_ids (AvailableDeviceIDs c)" cdm] assms(3) by auto
  have "m \<noteq> []" using numa_groups_nonempty [OF m] assms(4) by (metis set_empty set_sort_ids)
  then have "map (\<lambda>(k, weight, _). (k, weight)) m \<noteq> []" by simp
  with assms(5) obtain node where pick: "sw_pick (map (\<lambda>(k, weight, _). (k, weight)) m) = Some node"
    and "node \<in> fst ` set (map (\<lambda>(k, weight, _). (k, weight)) m)" by blast
  then have "node \<in> fst ` set m" by (auto simp: image_image case_prod_unfold)
  then obtain v where v: "map_of m node = Some v" by (metis map_of_eq_None_iff not_None_eq)
  let ?free = "filter (on_node cdm node) (sort_ids (AvailableDeviceIDs c))"
  have group: "group_of m node = ?free" using numa_groups_filter [OF m] by (simp add: group_of_def)
  then have ne: "?free \<noteq> []" using numa_groups_groups [OF m] v by (auto simp: group_of_def split: prod.splits)
  obtain js where js: "?free = map Itoa js" "\<forall>j \<in> set js. u32 j"
    using numeral_ids [of ?free] assms(2) by auto
  have pref: "preferred_container sw_pick cdm c =
      and_then (preferred_loop cdm (AllocationSize c) (map Itoa js) (map Itoa []) []) (\<lambda>ids. Ok (Some ids))"
    using m pick group sort_ids_filter [of "on_node cdm node" "AvailableDeviceIDs c"] js(1)
    by (simp add: preferred_container_def group_of_def)
  obtain ks where ks: "preferred_loop cdm (AllocationSize c) (map Itoa js) (map Itoa []) [] = Ok (map Itoa ks)"
    "set ks \<subseteq> set js" "consecutive_run cdm ks" "int (length ks) \<le> AllocationSize c" "ks \<noteq> []"
    using preferred_loop_run [OF assms(1) js(2), of "[]" "[]" "AllocationSize c"] assms(6) js(1) ne
    by (auto simp: consecutive_run_def)
  have "int (length ks) = AllocationSize c"
    if d: "distinct (map (\<lambda>j. j mod numCPU cdm) js)" and r: "js = a @ run @ b" "consecutive_run cdm run"
      "int (length run) = AllocationSize c" for a run b
    using preferred_loop_finds [OF assms(1) r(3,2), of "[]" a b "[]"] d r(1) js(2) ks(1) assms(6)
    by (auto dest: arg_cong [where f = length])
  with js(1) pref ks show ?thesis by (intro exI [of _ node] exI [of _ js] exI [of _ ks]) auto
qed

theorem preferred_allocation_run_witness:
  "\<exists>is. preferred_container (\<lambda>ws. case ws of [] \<Rightarrow> None | w # _ \<Rightarrow> Some (fst w))
      (snd (list_devices ref_cpuset example_cdm)) \<lparr>AvailableDeviceIDs = [''4'', ''13'', ''5''], AllocationSize = 2\<rparr>
      = Ok (Some (map Itoa is)) \<and> is \<noteq> [] \<and> int (length is) \<le> 2"
proof -
  let ?c = "\<lparr>AvailableDeviceIDs = [''4'', ''13'', ''5''], AllocationSize = 2\<rparr>"
  let ?cdm = "snd (list_devices ref_cpuset example_cdm)"
  let ?pick = "\<lambda>ws :: (int \<times> int) list. case ws of [] \<Rightarrow> None | w # _ \<Rightarrow> Some (fst w)"
  have n: "0 < numCPU ?cdm" by code_simp
  have "Itoa 4 = ''4''" "Itoa 13 = ''13''" "Itoa 5 = ''5''" by code_simp+
  then have i: "\<forall>i \<in> set (AvailableDeviceIDs ?c). \<exists>j. u32 j \<and> i = Itoa j"
    by (auto intro: exI [of _ 4] exI [of _ 13] exI [of _ 5])
  have "map_of (cacheDevices ?cdm) ''4'' = Some \<lparr>dev_ID = ''4'', dev_Health = ''Healthy'', dev_Topology = Some 1\<rparr>"
    "map_of (cacheDevices ?cdm) ''5'' = Some \<lparr>dev_ID = ''5'', dev_Health = ''Healthy'', dev_Topology = Some 1\<rparr>"
    "map_of (cacheDevices ?cdm) ''13'' = Some \<lparr>dev_ID = ''13'', dev_Health = ''Healthy'', dev_Topology = Some 1\<rparr>"
    by code_simp+
  then have t: "\<forall>i \<in> set (AvailableDeviceIDs ?c).
      \<exists>d node. map_of (cacheDevices ?cdm) i = Some d \<and> dev_Topology d = Some node" by simp
  have a: "AvailableDeviceIDs ?c \<noteq> []" "1 \<le> AllocationSize ?c" by simp_all
  have w: "\<forall>ws. ws \<noteq> [] \<longrightarrow> (\<exists>k. ?pick ws = Some k \<and> k \<in> fst ` set ws)" by (auto split: list.splits)
  have "\<exists>is. preferred_container ?pick ?cdm ?c = Ok (Some (map Itoa is)) \<and> is \<noteq> [] \<and> int (length is) \<le> AllocationSize ?c"
    using preferred_allocation_run [OF n i t a(1) w a(2)] by (elim exE conjE) (intro exI conjI; assumption)
  then show ?thesis by simp
qed

text \<open>A preferred allocation asked of a shared pool panics as soon as one device is free, because
  the devices of shared pools are never cached, while the plugin announces preferred
  allocations for every pool.\<close>

theorem preferred_shared_panics:
  assumes "poolType cdm = ''shared''" and "AvailableDeviceIDs c \<noteq> []"
  shows "GetPreferredAllocation sw_pick (snd (list_devices cs cdm)) (c # reqs) = Panic NilDereference"
proof -
  obtain i ids where "sort_ids (AvailableDeviceIDs c) = i # ids"
    using assms(2) by (metis list.exhaust set_empty set_sort_ids)
  with assms(1) show ?thesis by (simp add: preferred_container_def list_devices_def)
qed

theorem preferred_shared_panics_witness:
  "GetPreferredAllocation (\<lambda>ws. None) (snd (list_devices ref_cpuset (example_cdm\<lparr>poolType := ''shared''\<rparr>)))
     [\<lparr>AvailableDeviceIDs = [''0'', ''1''], AllocationSize = 1\<rparr>] = Panic NilDereference"
  by (rule preferred_shared_panics) simp_all

end
