(* ===== verification/Cpu_Info.thy ===== *)
theory Cpu_Info
  imports Go_Prelude
begin

text \<open>
  The number of CPUs of the machine, \<^verbatim>\<open>pkg/utils/cpuinfo.go\<close>: both the device plugin and
  cpusetter take it from here. The scanned lines of \<^verbatim>\<open>/proc/cpuinfo\<close> are an argument (\<open>None\<close>
  when the file cannot be opened). The lemmas show that it is the number of different
  processor entries.
\<close>

record cpu_info =
  Vendor :: string
  Model :: string
  Speed :: string
  Cache :: nat
  Cpus :: nat
  Cores :: nat
  Threads :: nat

abbreviation tab :: char where "tab \<equiv> CHR 0x09"

text \<open>\<^verbatim>\<open>cpuRegTwoColumns.Split(line, 2)\<close> for the expression of one or more tabs, a colon and a
  space: \<open>Some\<close> of the two parts around the first match, \<open>None\<close> when there is none.\<close>

fun two_columns :: "string \<Rightarrow> (string \<times> string) option" where
  "two_columns [] = None"
| "two_columns (c # s) =
     (if c = tab \<and> HasPrefix (dropWhile (\<lambda>d. d = tab) s) '': ''
      then Some ([], drop 2 (dropWhile (\<lambda>d. d = tab) s))
      else map_option (\<lambda>(a, b). (c # a, b)) (two_columns s))"

text \<open>The scan: \<open>core\<close> holds the keys of the map of that name. A line that is the bare word has
  no second column.\<close>

fun scan_cpuinfo :: "string list \<Rightarrow> string list \<Rightarrow> (unit, string list) outcome" where
  "scan_cpuinfo core [] = Ok core"
| "scan_cpuinfo core (line # rest) =
     (case two_columns line of
        None \<Rightarrow> (if line = ''processor'' then Panic IndexOutOfRange else scan_cpuinfo core rest)
      | Some (key, cpuID) \<Rightarrow>
          (if key = ''processor'' then scan_cpuinfo (if cpuID \<in> set core then core else cpuID # core) rest
           else scan_cpuinfo core rest))"

definition GetCpuInfo :: "nat \<Rightarrow> string list option \<Rightarrow> (unit, cpu_info) outcome" where
  "GetCpuInfo numCPU cpuinfo =
     (let res = \<lparr>Vendor = [], Model = [], Speed = [], Cache = 0, Cpus = 0, Cores = 0, Threads = numCPU\<rparr>
      in case cpuinfo of
           None \<Rightarrow> Ok res
         | Some ls \<Rightarrow> and_then (scan_cpuinfo [] ls) (\<lambda>core. Ok (res\<lparr>Cpus := 0, Cores := length core\<rparr>)))"

definition processors :: "string list \<Rightarrow> string set" where
  "processors ls = {v. \<exists>l \<in> set ls. two_columns l = Some (''processor'', v)}"

lemma processors_Nil [simp]: "processors [] = {}"
  by (simp add: processors_def)

lemma processors_Cons:
  "processors (l # ls) = {v. two_columns l = Some (''processor'', v)} \<union> processors ls"
  by (auto simp: processors_def)

lemma scan_cpuinfo_Ok:
  assumes "''processor'' \<notin> set ls" "distinct core"
  shows "\<exists>core'. scan_cpuinfo core ls = Ok core' \<and> distinct core' \<and> set core' = set core \<union> processors ls"
  using assms
proof (induction ls arbitrary: core)
  case (Cons l ls)
  have rest: "''processor'' \<notin> set ls" using Cons.prems(1) by simp
  show ?case
  proof (cases "two_columns l")
    case None
    with Cons.IH [OF rest Cons.prems(2)] Cons.prems(1) show ?thesis by (auto simp: processors_Cons)
  next
    case (Some kv)
    obtain k v where kv: "kv = (k, v)" by (cases kv)
    show ?thesis
    proof (cases "k = ''processor''")
      case True
      with Some kv Cons.IH [OF rest, of "if v \<in> set core then core else v # core"] Cons.prems(2)
      show ?thesis by (auto simp: processors_Cons)
    next
      case False
      with Some kv Cons.IH [OF rest Cons.prems(2)] show ?thesis by (simp add: processors_Cons)
    qed
  qed
qed simp

lemma GetCpuInfo_Cores:
  assumes "''processor'' \<notin> set ls"
  shows "\<exists>info. GetCpuInfo n (Some ls) = Ok info \<and> Cores info = card (processors ls) \<and>
    Cpus info = 0 \<and> Threads info = n"
proof -
  obtain core where "scan_cpuinfo [] ls = Ok core" "distinct core" "set core = processors ls"
    using scan_cpuinfo_Ok [OF assms, of "[]"] by auto
  moreover from this have "length core = card (processors ls)" using distinct_card by metis
  ultimately show ?thesis by (simp add: GetCpuInfo_def)
qed

text \<open>The format the kernel writes: a \<^verbatim>\<open>processor\<close> line per CPU, followed by lines with other keys.\<close>

definition processor_line :: "int \<Rightarrow> string" where
  "processor_line p = ''processor'' @ [tab] @ '': '' @ Itoa p"

definition kernel_cpuinfo :: "(int \<Rightarrow> string list) \<Rightarrow> int \<Rightarrow> string list" where
  "kernel_cpuinfo other n = concat (map (\<lambda>p. processor_line p # other p) [0..n - 1])"

lemma two_columns_processor_line: "two_columns (processor_line p) = Some (''processor'', Itoa p)"
  by (simp add: processor_line_def)

lemma processor_line_neq: "processor_line p \<noteq> ''processor''"
  by (simp add: processor_line_def)

lemma processors_kernel:
  assumes "\<forall>p. \<forall>l \<in> set (other p). \<forall>v. two_columns l \<noteq> Some (''processor'', v)"
  shows "processors (kernel_cpuinfo other n) = Itoa ` {0..n - 1}"
  using assms by (auto simp: processors_def kernel_cpuinfo_def two_columns_processor_line)

text \<open>On a file as the kernel writes it, with one \<^verbatim>\<open>processor\<close> entry for each of the \<open>n\<close> CPUs, the
  number of cores is \<open>n\<close>; the number of physical packages is always reported as 0.\<close>

theorem GetCpuInfo_counts_processors:
  assumes "0 \<le> n" and "\<forall>p. \<forall>l \<in> set (other p). l \<noteq> ''processor'' \<and> (\<forall>v. two_columns l \<noteq> Some (''processor'', v))"
  shows "\<exists>info. GetCpuInfo t (Some (kernel_cpuinfo other n)) = Ok info \<and> int (Cores info) = n \<and> Cpus info = 0"
proof -
  have "''processor'' \<notin> set (kernel_cpuinfo other n)"
    using assms(2) processor_line_neq by (fastforce simp: kernel_cpuinfo_def)
  moreover have "card (processors (kernel_cpuinfo other n)) = nat n"
  proof -
    have "inj_on Itoa {0..n - 1}" by (auto intro!: inj_onI Itoa_inj_nonneg)
    then show ?thesis using assms(2) by (simp add: processors_kernel card_image)
  qed
  ultimately show ?thesis using GetCpuInfo_Cores [of "kernel_cpuinfo other n" t] assms(1) by auto
qed

theorem GetCpuInfo_counts_processors_witness:
  "\<exists>info. GetCpuInfo 4 (Some (kernel_cpuinfo (\<lambda>p. [''BogoMIPS'' @ [tab] @ '': 200.00'']) 4)) = Ok info \<and>
     int (Cores info) = 4 \<and> Cpus info = 0"
  by (rule GetCpuInfo_counts_processors) simp_all

end
