(* ===== verification/Dialer.thy ===== *)
theory Dialer
  imports Go_Prelude
begin

text \<open>
  The dialer of \<^verbatim>\<open>pkg/utils/dialer.go\<close> and the dial helpers of \<^verbatim>\<open>pkg/utils/util.go\<close>: the target of a connection,
  options, and dialling with retries. The network is a parameter: \<open>dial i\<close> is the connection the
  attempt \<open>i\<close> gives, if it succeeds. \<^verbatim>\<open>url.Parse\<close> is a parameter that gives scheme, host and path.

  The lemmas show that the first successful attempt within the retries is returned, that an error is
  returned exactly when all of a positive number of attempts fail, that without attempts neither a
  connection nor an error is returned, and that of several options the last one counts, where the
  option for the underlying dialer has no effect on dialling.
\<close>

section \<open>Targets\<close>

record parsed_url =
  u_Scheme :: string
  u_Host :: string
  u_Path :: string

definition ParseDialTarget :: "(string \<Rightarrow> parsed_url option) \<Rightarrow> string \<Rightarrow> string \<times> string" where
  "ParseDialTarget url_Parse target =
     (let m1 = Index target '':'';
          m2 = Index target '':/''
      in if m1 \<ge> 0 \<and> m2 < 0 \<and> take (nat m1) target = ''unix''
         then (''unix'', drop (nat m1 + 1) target)
         else if m2 \<ge> 0
         then
           (case url_Parse target of
              None \<Rightarrow> (''tcp'', target)
            | Some t \<Rightarrow>
                (if u_Scheme t = ''unix'' then (''unix'', if u_Path t = [] then u_Host t else u_Path t)
                 else (''tcp'', target)))
         else (''tcp'', target))"

section \<open>Options\<close>

record 'd my_dialer =
  d_dialer :: "'d option"
  d_timeout :: int
  d_retry :: int

datatype 'd dial_option = RetryOption int | TimeoutOption int | DialerOption "'d option"

fun apply_option :: "'d dial_option \<Rightarrow> 'd my_dialer \<Rightarrow> 'd my_dialer" where
  "apply_option (RetryOption r) d = d\<lparr>d_retry := r\<rparr>"
| "apply_option (TimeoutOption t) d = d\<lparr>d_timeout := t\<rparr>"
| "apply_option (DialerOption x) d = d\<lparr>d_dialer := x\<rparr>"

fun ApplyOptions :: "'d dial_option list \<Rightarrow> 'd my_dialer \<Rightarrow> 'd my_dialer" where
  "ApplyOptions [] d = d"
| "ApplyOptions (opt # opts) d = ApplyOptions opts (apply_option opt d)"

definition second :: int where "second = 1000000000"

definition NewMyDialer :: "'d \<Rightarrow> 'd dial_option list \<Rightarrow> 'd my_dialer" where
  "NewMyDialer zero_dialer opts =
     (let d = ApplyOptions opts \<lparr>d_dialer = None, d_timeout = second, d_retry = 2\<rparr>
      in if d_dialer d = None then d\<lparr>d_dialer := Some zero_dialer\<rparr> else d)"

section \<open>Dialling\<close>

text \<open>The loop with \<open>retry\<close> rounds left: the connection and whether the error is nil.\<close>

fun dial_loop :: "(nat \<Rightarrow> 'c option) \<Rightarrow> nat \<Rightarrow> nat \<Rightarrow> 'c option \<Rightarrow> 'c option \<times> bool" where
  "dial_loop dial i 0 conn = (conn, True)"
| "dial_loop dial i (Suc r) conn =
     (case dial i of
        None \<Rightarrow> (if r = 0 then (None, False) else dial_loop dial (Suc i) r None)
      | Some c \<Rightarrow> (Some c, True))"

definition DialContext :: "(int \<Rightarrow> nat \<Rightarrow> 'c option) \<Rightarrow> 'd my_dialer \<Rightarrow> 'c option \<times> bool" where
  "DialContext network t = dial_loop (network (d_timeout t)) 0 (nat (d_retry t)) None"

text \<open>\<^verbatim>\<open>UnixDial\<close>: a single attempt at a Unix socket; \<open>network\<close> is \<^verbatim>\<open>net.DialTimeout\<close>.\<close>

definition UnixDial :: "(string \<Rightarrow> string \<Rightarrow> int \<Rightarrow> 'c option) \<Rightarrow> string \<Rightarrow> int \<Rightarrow> 'c option" where
  "UnixDial network addr timeout = network ''unix'' addr timeout"

text \<open>\<^verbatim>\<open>WaitForServer\<close>: \<open>grpc_dial\<close> is the blocking connection to a socket.\<close>

definition WaitForServer :: "(string \<Rightarrow> 'c option) \<Rightarrow> string \<Rightarrow> (string, unit) outcome" where
  "WaitForServer grpc_dial socket =
     (case grpc_dial socket of Some conn \<Rightarrow> Ok () | None \<Rightarrow> Err (''Failed dial context at '' @ socket))"

section \<open>Correctness\<close>

lemma dial_loop_cases:
  "0 < r \<Longrightarrow>
   (\<exists>k < r. \<exists>c. dial (i + k) = Some c \<and> (\<forall>j < k. dial (i + j) = None) \<and> dial_loop dial i r conn = (Some c, True)) \<or>
   (\<forall>k < r. dial (i + k) = None) \<and> dial_loop dial i r conn = (None, False)"
proof (induction dial i r conn rule: dial_loop.induct)
  case (2 dial i r conn)
  show ?case
  proof (cases "dial i")
    case None
    show ?thesis
    proof (cases "r = 0")
      case False
      from 2(1) [OF None False] False consider
        k c where "k < r" "dial (Suc i + k) = Some c" "\<forall>j < k. dial (Suc i + j) = None" "dial_loop dial (Suc i) r None = (Some c, True)"
        | "\<forall>k < r. dial (Suc i + k) = None" "dial_loop dial (Suc i) r None = (None, False)" by blast
      then show ?thesis
      proof cases
        case 1
        then have "Suc k < Suc r" "dial (i + Suc k) = Some c" "\<forall>j < Suc k. dial (i + j) = None"
          using None by (auto simp: less_Suc_eq_0_disj)
        with 1(4) None False show ?thesis by auto
      next
        case 2
        then have "\<forall>k < Suc r. dial (i + k) = None" using None by (auto simp: less_Suc_eq_0_disj)
        with 2(2) None False show ?thesis by auto
      qed
    qed (use None in simp)
  qed auto
qed simp

text \<open>C39: Dialling makes at most as many attempts as the retries allow and returns the connection of the
  first one that succeeds. When all fail it returns an error, and when no attempt is allowed it
  returns neither a connection nor an error.\<close>

theorem DialContext_correct:
  "(if d_retry t \<le> 0 then DialContext network t = (None, True)
    else case find (\<lambda>i. network (d_timeout t) i \<noteq> None) [0..<nat (d_retry t)] of
           None \<Rightarrow> DialContext network t = (None, False)
         | Some i \<Rightarrow> DialContext network t = (network (d_timeout t) i, True))"
proof (cases "d_retry t \<le> 0")
  case False
  let ?n = "nat (d_retry t)" and ?d = "network (d_timeout t)"
  from False have "0 < ?n" by simp
  from dial_loop_cases [OF this, of ?d 0 None] consider
    k c where "k < ?n" "?d k = Some c" "\<forall>j < k. ?d j = None" "dial_loop ?d 0 ?n None = (Some c, True)"
    | "\<forall>k < ?n. ?d k = None" "dial_loop ?d 0 ?n None = (None, False)" by auto
  then show ?thesis
  proof cases
    case 1
    then have "find (\<lambda>i. ?d i \<noteq> None) [0..<?n] = Some k" by (auto simp: find_Some_iff intro!: exI [of _ k])
    with 1 False show ?thesis by (simp add: DialContext_def)
  next
    case 2
    then have "find (\<lambda>i. ?d i \<noteq> None) [0..<?n] = None" by (simp add: find_None_iff)
    with 2 False show ?thesis by (simp add: DialContext_def)
  qed
qed (simp add: DialContext_def)

text \<open>The option for the underlying dialer does not matter.\<close>

lemma DialerOption_ignored: "DialContext network (t\<lparr>d_dialer := x\<rparr>) = DialContext network t"
  by (simp add: DialContext_def)

lemma ApplyOptions_append: "ApplyOptions (xs @ ys) d = ApplyOptions ys (ApplyOptions xs d)"
  by (induction xs arbitrary: d) simp_all

lemma last_retry_counts:
  "\<forall>opt \<in> set post. \<forall>r. opt \<noteq> RetryOption r \<Longrightarrow> d_retry (NewMyDialer z (pre @ RetryOption n # post)) = n"
proof -
  assume "\<forall>opt \<in> set post. \<forall>r. opt \<noteq> RetryOption r"
  then have "d_retry (ApplyOptions post d) = d_retry d" for d
  proof (induction post arbitrary: d)
    case (Cons opt post)
    then show ?case by (cases opt) auto
  qed simp
  then show ?thesis by (simp add: NewMyDialer_def ApplyOptions_append Let_def)
qed

text \<open>Unix addresses without a slash after the colon are taken apart without parsing an URL.\<close>

lemma Index_from_shift: "CHR '':'' \<notin> set w \<Longrightarrow> Index_from i (w @ CHR '':'' # s) '':'' = i + int (length w)"
  by (induction w arbitrary: i) (subst Index_from.simps, auto)+

lemma ParseDialTarget_unix:
  assumes "Index (''unix:'' @ addr) '':/'' < 0"
  shows "ParseDialTarget p (''unix:'' @ addr) = (''unix'', addr)"
proof -
  have "Index (''unix:'' @ addr) '':'' = 4"
    using Index_from_shift [of "''unix''" 0 addr] by (simp add: Index_def)
  with assms show ?thesis by (simp add: ParseDialTarget_def)
qed

end
