(* ===== verification/Plugin_Lifecycle.thy ===== *)
theory Plugin_Lifecycle
  imports Device_Plugin Cpu_Info Dialer
begin

text \<open>
  The life of the device plugin process, \<^verbatim>\<open>cmd/cpu-device-plugin/cpu-device-plugin.go\<close>: a manager
  for each pool is created, started and registered with the kubelet, all of them are stopped
  and created anew when the kubelet restarts, and the process ends on a termination signal.

  What the operating system, the gRPC package and the kubelet answer is the environment
  \<open>plugin_env\<close>: whether listening on a socket and removing a file succeed, which pool
  configuration is found, and of a gRPC client the address it dials for a target, the attempts
  to dial it, and whether the kubelet accepts a request. The state is the list of managers, the
  socket files in the plugin directory, the sockets whose server goroutine was handed no listener,
  and the resources the kubelet accepted. The lemmas give
  the invariant of the managers over every sequence of events, the check for a single shared
  pool, what a registration needs, and what happens to the errors of a start-up.
\<close>

section \<open>State and environment\<close>

record ('s, 'w) plugin_state =
  cdms :: "('s, 'w) cdm list"
  sockets :: "string list"
  unlistened :: "string list"
  registered :: "string list"

record register_request =
  rr_Version :: string
  rr_Endpoint :: string
  rr_ResourceName :: string

text \<open>\<open>te_NewClient\<close> is \<^verbatim>\<open>grpc.NewClient\<close>: it refuses a target, or makes a client whose first
  call has the dialer called with the given address; it does no I/O of its own. \<open>te_dial\<close> is
  \<^verbatim>\<open>net.Dialer.DialContext\<close> on a network, an address, a timeout and the number of the attempt.\<close>

record ('s, 'w) plugin_env =
  te_nodeTopology :: "(int \<times> int) list"
  te_htTopology :: "(int \<times> string) list"
  te_devsPoller :: "string \<Rightarrow> (int \<times> topology) list \<times> (int \<times> 'w) list"
  te_NumCPU :: nat
  te_cpuinfo :: "string list option"
  te_pool_env :: "'s pool_env"
  te_labels :: "(string, (string \<times> string) list option) outcome"
  listen_ok :: "string \<Rightarrow> bool"
  remove_ok :: "string \<Rightarrow> bool"
  te_NewClient :: "string \<Rightarrow> string option"
  te_urlParse :: "string \<Rightarrow> parsed_url option"
  te_dial :: "string \<Rightarrow> string \<Rightarrow> int \<Rightarrow> nat \<Rightarrow> unit option"
  te_accepts :: "register_request \<Rightarrow> bool"

definition resourceBaseName :: string where
  "resourceBaseName = ''bonc.k8s.io''"

text \<open>\<^verbatim>\<open>pluginapi.DevicePluginPath\<close> and \<^verbatim>\<open>pluginapi.Version\<close> of the kubelet's device plugin API.\<close>

definition DevicePluginPath :: string where
  "DevicePluginPath = ''/var/lib/kubelet/device-plugins/''"

definition api_Version :: string where
  "api_Version = ''v1beta1''"

section \<open>Managers\<close>

definition newCPUDeviceManager ::
  "('s, 'w) plugin_env \<Rightarrow> string \<Rightarrow> 's pool \<Rightarrow> string \<Rightarrow> (unit, ('s, 'w) cdm) outcome" where
  "newCPUDeviceManager env poolName pool sharedCPUs =
     (case te_devsPoller env (NumaWeight pool) of (cpuTopol, extDevs) \<Rightarrow>
      and_then (GetCpuInfo (te_NumCPU env) (te_cpuinfo env)) (\<lambda>info.
        Ok \<lparr>cdm_pool = pool, socketFile = ''cph-cpudp_'' @ poolName @ ''.sock'', sharedPoolCPUs = sharedCPUs,
            poolType = DeterminePoolType poolName, nodeTopology = te_nodeTopology env,
            htTopology = te_htTopology env, cloudphoneExtDevs = extDevs, cloudphoneCPUTopol = cpuTopol,
            cacheDevices = [], numCPU = int (Cores info), grpcServer = NoServer\<rparr>))"

text \<open>\<^verbatim>\<open>os.Remove\<close> of a file of the plugin directory, with its success.\<close>

definition remove_socket :: "('s, 'w) plugin_env \<Rightarrow> string \<Rightarrow> string list \<Rightarrow> string list \<times> bool" where
  "remove_socket env f socks =
     (if f \<in> set socks \<and> remove_ok env f then (removeAll f socks, True) else (socks, False))"

text \<open>\<^verbatim>\<open>Start\<close>: a failure to remove the old socket or to listen is only logged, and the server is
  made in any case. Its goroutine calls \<^verbatim>\<open>Serve\<close> with the listener, which is nil when listening
  failed: such a server is not serving, and its goroutine may end the process at any moment. The
  client for the own server is made and closed without a call, so its dialer never runs: the
  flag says whether \<^verbatim>\<open>grpc.NewClient\<close> accepts the target.\<close>

definition Start ::
  "('s, 'w) plugin_env \<Rightarrow> ('s, 'w) cdm \<Rightarrow> string list \<Rightarrow> ('s, 'w) cdm \<times> string list \<times> bool" where
  "Start env cdm socks =
     (let socks' = fst (remove_socket env (socketFile cdm) socks);
          listening = listen_ok env (socketFile cdm);
          socks'' = (if listening then List.insert (socketFile cdm) socks' else socks')
      in (cdm\<lparr>grpcServer := (if listening then Serving else NoListener)\<rparr>, socks'',
          te_NewClient env (''unix://'' @ DevicePluginPath @ socketFile cdm) \<noteq> None))"

text \<open>\<^verbatim>\<open>cleanup\<close>: a missing file is no error. The flag is false for a returned error.\<close>

definition cleanup :: "('s, 'w) plugin_env \<Rightarrow> ('s, 'w) cdm \<Rightarrow> string list \<Rightarrow> string list \<times> bool" where
  "cleanup env cdm socks =
     (case remove_socket env (socketFile cdm) socks of (socks', removed) \<Rightarrow>
        (socks', removed \<or> socketFile cdm \<notin> set socks))"

definition Stop ::
  "('s, 'w) plugin_env \<Rightarrow> ('s, 'w) cdm \<Rightarrow> string list \<Rightarrow> ('s, 'w) cdm \<times> string list \<times> bool" where
  "Stop env cdm socks =
     (if grpcServer cdm = NoServer then (cdm, socks, True)
      else (cdm\<lparr>grpcServer := NoServer\<rparr>, cleanup env cdm socks))"

text \<open>Every caller stops all managers and ignores the errors.\<close>

fun stop_all ::
  "('s, 'w) plugin_env \<Rightarrow> ('s, 'w) cdm list \<Rightarrow> string list \<Rightarrow> ('s, 'w) cdm list \<times> string list" where
  "stop_all env [] socks = ([], socks)"
| "stop_all env (c # cs) socks =
     (case Stop env c socks of (c', socks', _) \<Rightarrow>
      case stop_all env cs socks' of (cs', socks'') \<Rightarrow> (c' # cs', socks''))"

section \<open>Calls between the plugin and the kubelet\<close>

record plugin_options =
  PreStartRequired :: bool
  GetPreferredAllocationAvailable :: bool

definition GetDevicePluginOptions :: plugin_options where
  "GetDevicePluginOptions = \<lparr>PreStartRequired = True, GetPreferredAllocationAvailable = True\<rparr>"

text \<open>\<^verbatim>\<open>PreStartContainer\<close> answers every request with the empty response.\<close>

definition PreStartContainer :: "('s, 'w) cdm \<Rightarrow> string list \<Rightarrow> (unit, unit) outcome" where
  "PreStartContainer cdm deviceIDs = Ok ()"

text \<open>The dialer \<^verbatim>\<open>Register\<close> hands to the client: two attempts of a second each at the address.\<close>

definition register_dialer :: "('s, 'w) plugin_env \<Rightarrow> string \<Rightarrow> unit option \<times> bool" where
  "register_dialer env addr =
     (case ParseDialTarget (te_urlParse env) addr of
        (network, endpoint) \<Rightarrow> DialContext (te_dial env network endpoint) (NewMyDialer () []))"

datatype register_error = CannotConnect | CannotRegister

text \<open>A call of the client fails when its connection cannot be made, and else gives what the
  kubelet answers.\<close>

definition Register ::
  "('s, 'w) plugin_env \<Rightarrow> string \<Rightarrow> ('s, 'w) cdm \<Rightarrow> string \<Rightarrow> (register_error, unit) outcome" where
  "Register env kubeletEndpoint cdm resourceName =
     (case te_NewClient env (''unix://'' @ kubeletEndpoint) of
        None \<Rightarrow> Err CannotConnect
      | Some addr \<Rightarrow>
          (let request = \<lparr>rr_Version = api_Version, rr_Endpoint = socketFile cdm, rr_ResourceName = resourceName\<rparr>
           in if \<not> snd (register_dialer env addr) then Err CannotRegister
              else if \<not> te_accepts env request then Err CannotRegister
              else Ok ()))"

section \<open>Start-up\<close>

datatype start_error = OnlyOneSharedPool

fun validatePools_loop ::
  "'s cpuset_api \<Rightarrow> string \<Rightarrow> (string \<times> 's pool) list \<Rightarrow> string \<times> start_error option" where
  "validatePools_loop cs sharedCPUs [] = (sharedCPUs, None)"
| "validatePools_loop cs sharedCPUs ((poolName, pool) # ps) =
     (if DeterminePoolType poolName = SharedPoolID then
        (if sharedCPUs \<noteq> [] then (sharedCPUs, Some OnlyOneSharedPool)
         else validatePools_loop cs (cs_String cs (CPUset pool)) ps)
      else validatePools_loop cs sharedCPUs ps)"

definition validatePools :: "'s cpuset_api \<Rightarrow> 's pool_config \<Rightarrow> string \<times> start_error option" where
  "validatePools cs poolConf = validatePools_loop cs [] (Pools poolConf)"

text \<open>The sockets without a listener: the goroutine of a server goes on when the server is stopped.\<close>

definition note_listener :: "('s, 'w) cdm \<Rightarrow> string list \<Rightarrow> string list" where
  "note_listener cdm fs = (if grpcServer cdm = NoListener then socketFile cdm # fs else fs)"

text \<open>The loop of \<^verbatim>\<open>createCDMs\<close>. Both errors of its body are variables of the body: the error the
  function returns is the outer one, which no statement assigns. When the registration fails,
  stopping the server closes its listener, if there is one, and with it goes the socket file.\<close>

definition close_listener :: "('s, 'w) plugin_env \<Rightarrow> string \<Rightarrow> string list \<Rightarrow> string list" where
  "close_listener env f socks = (if listen_ok env f then fst (remove_socket env f socks) else socks)"

fun createCDMs_loop ::
  "('s, 'w) plugin_env \<Rightarrow> string \<Rightarrow> ('s, 'w) plugin_state \<Rightarrow> (string \<times> 's pool) list
    \<Rightarrow> (unit, ('s, 'w) plugin_state) outcome" where
  "createCDMs_loop env sharedCPUs st [] = Ok st"
| "createCDMs_loop env sharedCPUs st ((poolName, pool) # ps) =
     (if DeterminePoolType poolName = DefaultPoolID then createCDMs_loop env sharedCPUs st ps
      else
        and_then (newCPUDeviceManager env poolName pool sharedCPUs) (\<lambda>new.
        (case Start env new (sockets st) of
           (cdm, socks, started) \<Rightarrow>
             (let resourceName = resourceBaseName @ ''/'' @ poolName;
                  nils = note_listener cdm (unlistened st)
              in if \<not> started then Ok (st\<lparr>cdms := cdms st @ [cdm], sockets := socks, unlistened := nils\<rparr>)
                 else if \<not> is_Ok (Register env (DevicePluginPath @ ''kubelet.sock'') cdm resourceName) then
                   Ok (st\<lparr>cdms := cdms st @ [cdm\<lparr>grpcServer := StoppedServer\<rparr>],
                          sockets := close_listener env (socketFile cdm) socks, unlistened := nils\<rparr>)
                 else createCDMs_loop env sharedCPUs
                        (st\<lparr>cdms := cdms st @ [cdm], sockets := socks, unlistened := nils,
                            registered := registered st @ [resourceName]\<rparr>) ps))))"

definition createCDMs ::
  "('s, 'w) plugin_env \<Rightarrow> 's pool_config \<Rightarrow> string \<Rightarrow> ('s, 'w) plugin_state
    \<Rightarrow> (unit, ('s, 'w) plugin_state \<times> start_error option) outcome" where
  "createCDMs env poolConf sharedCPUs st =
     and_then (createCDMs_loop env sharedCPUs st (Pools poolConf)) (\<lambda>st'. Ok (st', None))"

text \<open>The files \<^verbatim>\<open>cpudp*\<close> of the plugin directory are removed first; \<open>None\<close> when one cannot be.\<close>

definition remove_leftovers :: "('s, 'w) plugin_env \<Rightarrow> string list \<Rightarrow> string list option" where
  "remove_leftovers env socks =
     (if \<forall>f \<in> set socks. HasPrefix f ''cpudp'' \<longrightarrow> remove_ok env f
      then Some (filter (\<lambda>f. \<not> HasPrefix f ''cpudp'') socks) else None)"

text \<open>\<^verbatim>\<open>createPluginsForPools\<close>: \<open>Err ()\<close> is \<^verbatim>\<open>glog.Fatal\<close>, the end of the process.\<close>

definition createPluginsForPools ::
  "'s cpuset_api \<Rightarrow> ('s, 'w) plugin_env \<Rightarrow> ('s, 'w) plugin_state
    \<Rightarrow> (unit, ('s, 'w) plugin_state \<times> start_error option) outcome" where
  "createPluginsForPools cs env st =
     (case remove_leftovers env (sockets st) of
        None \<Rightarrow> Err ()
      | Some socks \<Rightarrow>
          (case DeterminePoolConfig cs (te_pool_env env) (te_labels env) of
             Panic p \<Rightarrow> Panic p
           | Err _ \<Rightarrow> Err ()
           | Ok poolConf \<Rightarrow>
               (case validatePools cs poolConf of
                  (_, Some e) \<Rightarrow> Ok (st\<lparr>sockets := socks\<rparr>, Some e)
                | (sharedCPUs, None) \<Rightarrow>
                    and_then (createCDMs env poolConf sharedCPUs (st\<lparr>sockets := socks\<rparr>)) (\<lambda>(st2, err).
                      if err \<noteq> None then
                        (case stop_all env (cdms st2) (sockets st2) of
                           (cs', socks') \<Rightarrow> Ok (st2\<lparr>cdms := cs', sockets := socks'\<rparr>, None))
                      else Ok (st2, None)))))"

section \<open>The main loop\<close>

datatype signal = SIGHUP | SIGINT | SIGTERM | SIGQUIT

datatype ('s, 'w) plugin_status =
  Running "('s, 'w) plugin_state"
| Exited "('s, 'w) plugin_state"
| Crashed

definition init_state :: "string list \<Rightarrow> ('s, 'w) plugin_state" where
  "init_state socks = \<lparr>cdms = [], sockets = socks, unlistened = [], registered = []\<rparr>"

definition start_plugin ::
  "'s cpuset_api \<Rightarrow> ('s, 'w) plugin_env \<Rightarrow> ('s, 'w) plugin_state \<Rightarrow> ('s, 'w) plugin_status" where
  "start_plugin cs env st =
     (case createPluginsForPools cs env st of Ok (st', None) \<Rightarrow> Running st' | _ \<Rightarrow> Crashed)"

definition on_signal ::
  "('s, 'w) plugin_env \<Rightarrow> signal \<Rightarrow> ('s, 'w) plugin_state \<Rightarrow> ('s, 'w) plugin_status" where
  "on_signal env sig st =
     (if sig \<in> {SIGTERM, SIGQUIT, SIGINT} then
        (case stop_all env (cdms st) (sockets st) of
           (cs', socks) \<Rightarrow> Exited (st\<lparr>cdms := cs', sockets := socks\<rparr>))
      else Running st)"

definition on_kubelet_change ::
  "'s cpuset_api \<Rightarrow> ('s, 'w) plugin_env \<Rightarrow> ('s, 'w) plugin_state \<Rightarrow> ('s, 'w) plugin_status" where
  "on_kubelet_change cs env st =
     (case stop_all env (cdms st) (sockets st) of
        (_, socks) \<Rightarrow> start_plugin cs env (st\<lparr>cdms := [], sockets := socks\<rparr>))"

text \<open>The process: the environment may be a different one at every event, and once a server goroutine has
  no listener the process may end at any moment. The pools of a
  decoded configuration are a Go map, so their names are different.\<close>

definition map_keys_distinct :: "('s, 'w) plugin_env \<Rightarrow> bool" where
  "map_keys_distinct env =
     (\<forall>content raw. pe_yaml (te_pool_env env) content = Ok raw \<longrightarrow> distinct (map fst (Pools raw)))"

inductive plugin_run :: "'s cpuset_api \<Rightarrow> ('s, 'w) plugin_status \<Rightarrow> bool" for cs where
  boot: "map_keys_distinct env \<Longrightarrow> plugin_run cs (start_plugin cs env (init_state socks))"
| signal: "plugin_run cs (Running st) \<Longrightarrow> plugin_run cs (on_signal env sig st)"
| kubelet: "plugin_run cs (Running st) \<Longrightarrow> map_keys_distinct env \<Longrightarrow>
    plugin_run cs (on_kubelet_change cs env st)"
| nil_listener: "plugin_run cs (Running st) \<Longrightarrow> unlistened st \<noteq> [] \<Longrightarrow> plugin_run cs Crashed"

section \<open>The invariant of the managers\<close>

definition sock_name :: "string \<Rightarrow> string" where
  "sock_name poolName = ''cph-cpudp_'' @ poolName @ ''.sock''"

text \<open>No two managers use one socket, no manager serves a default pool, every manager has a
  server, a serving one has its socket in the plugin directory, one that could not listen is known, and only
  the last one started can have a stopped server.\<close>

definition manager_ok :: "string list \<Rightarrow> string list \<Rightarrow> ('s, 'w) cdm \<Rightarrow> bool" where
  "manager_ok socks nils c \<longleftrightarrow> poolType c \<noteq> DefaultPoolID \<and> grpcServer c \<noteq> NoServer \<and>
     (grpcServer c = Serving \<longrightarrow> socketFile c \<in> set socks) \<and> (grpcServer c = NoListener \<longrightarrow> socketFile c \<in> set nils)"

definition managers_inv :: "('s, 'w) plugin_state \<Rightarrow> bool" where
  "managers_inv st \<longleftrightarrow>
     distinct (map socketFile (cdms st)) \<and>
     (\<forall>c \<in> set (cdms st). manager_ok (sockets st) (unlistened st) c) \<and>
     (\<forall>c \<in> set (butlast (cdms st)). grpcServer c \<noteq> StoppedServer)"

lemma sock_name_inj: "inj sock_name"
  by (auto simp: inj_def sock_name_def)

lemma newCPUDeviceManager_Ok:
  "newCPUDeviceManager env n p sh = Ok c \<Longrightarrow>
     socketFile c = sock_name n \<and> poolType c = DeterminePoolType n \<and> cdm_pool c = p"
  by (auto simp: newCPUDeviceManager_def sock_name_def and_then_Ok_iff split: prod.splits)

text \<open>Removing or adding the socket of another manager keeps what a manager promises.\<close>

lemma manager_ok_mono:
  "manager_ok socks nils c \<Longrightarrow> set socks - {f} \<subseteq> set socks' \<Longrightarrow> f \<noteq> socketFile c \<Longrightarrow> set nils \<subseteq> set nils' \<Longrightarrow>
     manager_ok socks' nils' c"
  by (auto simp: manager_ok_def)

lemma remove_socket_sockets: "set socks - {f} \<subseteq> set (fst (remove_socket env f socks))"
  by (auto simp: remove_socket_def)

lemma Start_sockets:
  assumes "Start env c socks = (c', socks', started)"
  shows "c' = c\<lparr>grpcServer := (if listen_ok env (socketFile c) then Serving else NoListener)\<rparr> \<and>
    set socks - {socketFile c} \<subseteq> set socks' \<and> (listen_ok env (socketFile c) \<longrightarrow> socketFile c \<in> set socks')"
  using assms remove_socket_sockets [of socks "socketFile c" env]
  by (cases "listen_ok env (socketFile c)") (auto simp: Start_def Let_def)

text \<open>Adding a manager of a pool whose socket is not used yet.\<close>

lemma managers_inv_add:
  assumes "managers_inv st" "socketFile c \<notin> socketFile ` set (cdms st)"
    and "\<forall>d \<in> set (cdms st). grpcServer d \<noteq> StoppedServer"
    and "set (sockets st) - {socketFile c} \<subseteq> set socks" "set (unlistened st) \<subseteq> set nils" "manager_ok socks nils c"
  shows "managers_inv (st\<lparr>cdms := cdms st @ [c], sockets := socks, unlistened := nils\<rparr>)"
proof -
  have "manager_ok socks nils d" if "d \<in> set (cdms st)" for d
    using assms(1,2) that by (intro manager_ok_mono [OF _ assms(4) _ assms(5)]) (auto simp: managers_inv_def)
  with assms(1-3,6) show ?thesis by (auto simp: managers_inv_def)
qed

text \<open>One round for a pool that is not a default pool: the manager that is added, and whether it is the last.\<close>

lemma createCDMs_loop_round:
  assumes "createCDMs_loop env sh st ((n, p) # ps) = Ok st'" "DeterminePoolType n \<noteq> DefaultPoolID"
  obtains c socks nils where "socketFile c = sock_name n" "manager_ok socks nils c"
    "set (sockets st) - {sock_name n} \<subseteq> set socks" "set (unlistened st) \<subseteq> set nils"
    "st' = st\<lparr>cdms := cdms st @ [c], sockets := socks, unlistened := nils\<rparr> \<or>
     grpcServer c \<noteq> StoppedServer \<and>
     createCDMs_loop env sh (st\<lparr>cdms := cdms st @ [c], sockets := socks, unlistened := nils,
       registered := registered st @ [resourceBaseName @ ''/'' @ n]\<rparr>) ps = Ok st'"
proof -
  obtain new where new: "newCPUDeviceManager env n p sh = Ok new"
    using assms by (auto simp: and_then_Ok_iff)
  obtain c socks started where start: "Start env new (sockets st) = (c, socks, started)" by (metis prod_cases3)
  note n = newCPUDeviceManager_Ok [OF new] and c = Start_sockets [OF start]
  define nils where "nils = note_listener c (unlistened st)"
  have nils: "set (unlistened st) \<subseteq> set nils" by (auto simp: nils_def note_listener_def)
  have sock: "set (sockets st) - {sock_name n} \<subseteq> set socks" "socketFile c = sock_name n" using c n by auto
  have ok: "manager_ok socks nils c" "grpcServer c \<noteq> StoppedServer"
    using c n assms(2) by (auto simp: manager_ok_def nils_def note_listener_def)
  consider "\<not> started" | "started" "\<not> is_Ok (Register env (DevicePluginPath @ ''kubelet.sock'') c (resourceBaseName @ ''/'' @ n))"
    | "started" "is_Ok (Register env (DevicePluginPath @ ''kubelet.sock'') c (resourceBaseName @ ''/'' @ n))" by blast
  then show thesis
  proof cases
    case 1
    with assms new start sock ok nils show thesis by (intro that [of c socks nils]) (simp_all add: Let_def nils_def)
  next
    case 2
    have "set (sockets st) - {sock_name n} \<subseteq> set (close_listener env (sock_name n) socks)"
      using sock(1) remove_socket_sockets [of socks "sock_name n" env] by (auto simp: close_listener_def)
    moreover have "manager_ok (close_listener env (sock_name n) socks) nils (c\<lparr>grpcServer := StoppedServer\<rparr>)"
      using ok(1) by (simp add: manager_ok_def)
    ultimately show thesis using 2 assms new start sock nils
      by (intro that [of "c\<lparr>grpcServer := StoppedServer\<rparr>" "close_listener env (sock_name n) socks" nils])
        (simp_all add: Let_def nils_def)
  next
    case 3
    with assms new start sock ok nils show thesis by (intro that [of c socks nils]) (simp_all add: Let_def nils_def)
  qed
qed

lemma createCDMs_loop_inv:
  assumes "createCDMs_loop env sh st ps = Ok st'" "managers_inv st" "\<forall>d \<in> set (cdms st). grpcServer d \<noteq> StoppedServer"
    and "distinct (map fst ps)" "\<forall>n \<in> set (map fst ps). sock_name n \<notin> socketFile ` set (cdms st)"
  shows "managers_inv st'"
  using assms
proof (induction ps arbitrary: st)
  case (Cons e ps)
  obtain n p where e: "e = (n, p)" by (cases e)
  show ?case
  proof (cases "DeterminePoolType n = DefaultPoolID")
    case True
    with Cons e show ?thesis by auto
  next
    case False
    obtain c socks nils where c: "socketFile c = sock_name n" "manager_ok socks nils c"
      "set (sockets st) - {sock_name n} \<subseteq> set socks" "set (unlistened st) \<subseteq> set nils"
      and r: "st' = st\<lparr>cdms := cdms st @ [c], sockets := socks, unlistened := nils\<rparr> \<or>
       grpcServer c \<noteq> StoppedServer \<and>
       createCDMs_loop env sh (st\<lparr>cdms := cdms st @ [c], sockets := socks, unlistened := nils,
         registered := registered st @ [resourceBaseName @ ''/'' @ n]\<rparr>) ps = Ok st'"
      using createCDMs_loop_round [OF Cons.prems(1) [unfolded e] False] .
    have new: "socketFile c \<notin> socketFile ` set (cdms st)" using c(1) Cons.prems(5) e by simp
    from managers_inv_add [OF Cons.prems(2) new Cons.prems(3) _ c(4,2)] c(1,3)
    have inv: "managers_inv (st\<lparr>cdms := cdms st @ [c], sockets := socks, unlistened := nils\<rparr>)" by simp
    from r show ?thesis
    proof
      assume "st' = st\<lparr>cdms := cdms st @ [c], sockets := socks, unlistened := nils\<rparr>"
      with inv show ?thesis by simp
    next
      let ?st = "st\<lparr>cdms := cdms st @ [c], sockets := socks, unlistened := nils,
         registered := registered st @ [resourceBaseName @ ''/'' @ n]\<rparr>"
      assume l: "grpcServer c \<noteq> StoppedServer \<and> createCDMs_loop env sh ?st ps = Ok st'"
      have "managers_inv ?st" using inv by (simp add: managers_inv_def)
      moreover have "\<forall>d \<in> set (cdms ?st). grpcServer d \<noteq> StoppedServer" using l Cons.prems(3) by simp
      moreover have "\<forall>m \<in> set (map fst ps). sock_name m \<notin> socketFile ` set (cdms ?st)"
        using Cons.prems(4,5) e c(1) sock_name_inj by (auto simp: inj_def)
      ultimately show ?thesis using Cons.IH [of ?st] l Cons.prems(4) by simp
    qed
  qed
qed simp

text \<open>A start that leaves the process running.\<close>

lemma createPluginsForPools_Ok:
  assumes "createPluginsForPools cs env st = Ok (st', None)"
  obtains pc sh socks where "DeterminePoolConfig cs (te_pool_env env) (te_labels env) = Ok pc"
    "validatePools cs pc = (sh, None)" "createCDMs_loop env sh (st\<lparr>sockets := socks\<rparr>) (Pools pc) = Ok st'"
proof -
  obtain socks where socks: "remove_leftovers env (sockets st) = Some socks"
    using assms by (cases "remove_leftovers env (sockets st)") (simp_all add: createPluginsForPools_def)
  obtain pc where pc: "DeterminePoolConfig cs (te_pool_env env) (te_labels env) = Ok pc"
    using assms socks
    by (cases "DeterminePoolConfig cs (te_pool_env env) (te_labels env)") (simp_all add: createPluginsForPools_def)
  obtain sh err where v: "validatePools cs pc = (sh, err)" by fastforce
  with assms socks pc have "err = None"
    by (cases err) (simp_all add: createPluginsForPools_def)
  with assms socks pc v have "createCDMs_loop env sh (st\<lparr>sockets := socks\<rparr>) (Pools pc) = Ok st'"
    by (auto simp: createPluginsForPools_def createCDMs_def and_then_Ok_iff)
  with that pc v \<open>err = None\<close> show thesis by blast
qed

lemma start_plugin_Running:
  "start_plugin cs env st = Running st' \<Longrightarrow> createPluginsForPools cs env st = Ok (st', None)"
  by (auto simp: start_plugin_def split: outcome.splits option.splits prod.splits)

lemma start_plugin_inv:
  assumes "map_keys_distinct env" "cdms st = []" "start_plugin cs env st = Running st'"
  shows "managers_inv st'"
proof -
  obtain pc sh socks where pc: "DeterminePoolConfig cs (te_pool_env env) (te_labels env) = Ok pc"
    and loop: "createCDMs_loop env sh (st\<lparr>sockets := socks\<rparr>) (Pools pc) = Ok st'"
    using start_plugin_Running [OF assms(3)] by (rule createPluginsForPools_Ok)
  have "distinct (map fst (Pools pc))"
    using DeterminePoolConfig_keys [OF pc] assms(1) by (simp add: map_keys_distinct_def)
  with createCDMs_loop_inv [OF loop] assms(2) show ?thesis by (simp add: managers_inv_def)
qed

lemma remove_socket_ok:
  "remove_ok env f \<Longrightarrow> set (fst (remove_socket env f socks)) = set socks - {f}"
  by (auto simp: remove_socket_def)

lemma stop_all_stops:
  assumes "\<forall>c \<in> set cs. grpcServer c \<noteq> NoServer" "\<forall>c \<in> set cs. remove_ok env (socketFile c)"
    "stop_all env cs socks = (cs', socks')"
  shows "(\<forall>c \<in> set cs'. grpcServer c = NoServer) \<and> map socketFile cs' = map socketFile cs \<and>
    set socks' = set socks - socketFile ` set cs"
  using assms
proof (induction cs arbitrary: cs' socks)
  case (Cons c cs)
  obtain socks1 ok where stop: "Stop env c socks = (c\<lparr>grpcServer := NoServer\<rparr>, socks1, ok)"
    and s1: "set socks1 = set socks - {socketFile c}"
    using Cons.prems(1,2) remove_socket_ok [of env "socketFile c" socks]
    by (cases "remove_socket env (socketFile c) socks") (auto simp: Stop_def cleanup_def)
  obtain cs2 socks2 where rest: "stop_all env cs socks1 = (cs2, socks2)" by fastforce
  from Cons.prems(3) stop rest have eq: "cs' = c\<lparr>grpcServer := NoServer\<rparr> # cs2" "socks' = socks2"
    by simp_all
  show ?case using Cons.IH [of socks1 cs2] rest Cons.prems(1,2) s1 eq by auto
qed simp

lemma plugin_run_inv:
  "plugin_run cs s \<Longrightarrow> (\<forall>st. s = Running st \<longrightarrow> managers_inv st)"
proof (induction rule: plugin_run.induct)
  case (boot env socks)
  then show ?case using start_plugin_inv [of env "init_state socks"] by (simp add: init_state_def)
next
  case (signal st env sig)
  then show ?case by (auto simp: on_signal_def split: if_splits prod.splits)
next
  case (kubelet st env)
  obtain cs' socks where stop: "stop_all env (cdms st) (sockets st) = (cs', socks)" by fastforce
  with kubelet.hyps(2) show ?case
    using start_plugin_inv [of env "st\<lparr>cdms := [], sockets := socks\<rparr>" cs] by (simp add: on_kubelet_change_def)
qed simp

section \<open>Environments for the witnesses\<close>

text \<open>A node with four CPUs, a shared pool of two CPUs and an exclusive pool of two.\<close>

definition demo_pool :: "string \<Rightarrow> int list pool" where
  "demo_pool cpus = (pool_zero ref_cpuset)\<lparr>CPUStr := cpus\<rparr>"

definition demo_pool_env :: "int list pool_env" where
  "demo_pool_env =
     \<lparr>pe_topology = [], pe_glob = Ok [''poolconfig-a.yaml''], pe_ReadFile = (\<lambda>f. Ok ''pools''),
      pe_yaml = (\<lambda>c. Ok \<lparr>Pools = [(''shared'', demo_pool ''0-1''), (''exclusive'', demo_pool ''2-3''),
        (''default'', demo_pool [])], NodeSelector = [(''kind'', ''worker'')]\<rparr>)\<rparr>"

definition demo_plugin_env :: "(string \<Rightarrow> bool) \<Rightarrow> (int list, nat) plugin_env" where
  "demo_plugin_env reg =
     \<lparr>te_nodeTopology = [(0, 0), (1, 0), (2, 0), (3, 0)], te_htTopology = [], te_devsPoller = (\<lambda>w. ([], [])),
      te_NumCPU = 4, te_cpuinfo = Some (kernel_cpuinfo (\<lambda>p. []) 4),
      te_pool_env = demo_pool_env, te_labels = Ok (Some [(''kind'', ''worker'')]),
      listen_ok = (\<lambda>s. True), remove_ok = (\<lambda>f. True), te_NewClient = Some,
      te_urlParse = (\<lambda>t. Some \<lparr>u_Scheme = ''unix'', u_Host = [], u_Path = drop 7 t\<rparr>),
      te_dial = (\<lambda>network addr t i. if i = 0 then None else Some ()), te_accepts = (\<lambda>r. reg (rr_ResourceName r))\<rparr>"

lemma demo_keys: "map_keys_distinct (demo_plugin_env reg)"
  by (simp add: map_keys_distinct_def demo_plugin_env_def demo_pool_env_def)

definition demo_running :: "(int list, nat) plugin_state" where
  "demo_running =
     (case start_plugin ref_cpuset (demo_plugin_env (\<lambda>r. True)) (init_state [''kubelet.sock'']) of
        Running st \<Rightarrow> st | _ \<Rightarrow> init_state [])"

lemma demo_start:
  "start_plugin ref_cpuset (demo_plugin_env (\<lambda>r. True)) (init_state [''kubelet.sock'']) = Running demo_running"
  by code_simp

lemma demo_reachable: "plugin_run ref_cpuset (Running demo_running)"
  using plugin_run.boot [OF demo_keys, of ref_cpuset "\<lambda>r. True" "[''kubelet.sock'']"] demo_start by simp

section \<open>Properties\<close>



text \<open>C22: A termination signal ends the running process with every server stopped and exactly the
  managers' socket files removed, when the files can be removed; other signals change nothing.\<close>

theorem signal_stops_all:
  assumes "plugin_run cs (Running st)" and "\<forall>c \<in> set (cdms st). remove_ok env (socketFile c)"
  shows "if sig = SIGHUP then on_signal env sig st = Running st
    else \<exists>st'. on_signal env sig st = Exited st' \<and> (\<forall>c \<in> set (cdms st'). grpcServer c = NoServer) \<and>
      map socketFile (cdms st') = map socketFile (cdms st) \<and>
      set (sockets st') = set (sockets st) - socketFile ` set (cdms st) \<and> registered st' = registered st"
proof -
  obtain cs' socks where stop: "stop_all env (cdms st) (sockets st) = (cs', socks)" by fastforce
  have "\<forall>c \<in> set (cdms st). grpcServer c \<noteq> NoServer"
    using plugin_run_inv [OF assms(1)] by (simp add: managers_inv_def manager_ok_def)
  from stop_all_stops [OF this assms(2) stop] stop show ?thesis
    by (cases sig) (simp_all add: on_signal_def)
qed

theorem signal_stops_all_witness:
  "\<exists>st'. on_signal (demo_plugin_env (\<lambda>r. True)) SIGTERM demo_running = Exited st' \<and>
     (\<forall>c \<in> set (cdms st'). grpcServer c = NoServer) \<and> set (sockets st') = {''kubelet.sock''}"
proof -
  have ok: "\<forall>c \<in> set (cdms demo_running). remove_ok (demo_plugin_env (\<lambda>r. True)) (socketFile c)"
    by (simp add: demo_plugin_env_def)
  have "set (sockets demo_running) - socketFile ` set (cdms demo_running) = {''kubelet.sock''}"
    by code_simp
  with signal_stops_all [OF demo_reachable ok, of SIGTERM] show ?thesis by auto
qed

subsection \<open>The shared pool\<close>

definition shared_pools :: "'s pool_config \<Rightarrow> 's pool list" where
  "shared_pools pc = map snd (filter (\<lambda>(n, p). HasPrefix n SharedPoolID) (Pools pc))"

lemma validatePools_loop_eq:
  "\<forall>p \<in> set (map snd (filter (\<lambda>(n, p). HasPrefix n SharedPoolID) ps)). cs_String cs (CPUset p) \<noteq> [] \<Longrightarrow>
   validatePools_loop cs sh ps =
     (case (map snd (filter (\<lambda>(n, p). HasPrefix n SharedPoolID) ps)) of
        [] \<Rightarrow> (sh, None)
      | [p] \<Rightarrow> (if sh \<noteq> [] then (sh, Some OnlyOneSharedPool) else (cs_String cs (CPUset p), None))
      | p # q # r \<Rightarrow> (if sh \<noteq> [] then sh else cs_String cs (CPUset p), Some OnlyOneSharedPool))"
  by (induction cs sh ps rule: validatePools_loop.induct)
    (auto simp: DeterminePoolType_shared_iff split: list.splits)

text \<open>C23: When no shared pool is empty, the validation reports an error exactly for two or more shared
  pools, and otherwise returns the CPU list of the shared pool, or nothing without one.\<close>

theorem validatePools_correct:
  assumes "cpuset_lib cs" and "\<forall>p \<in> set (shared_pools pc). cs_elems cs (CPUset p) \<noteq> {}"
  shows "(snd (validatePools cs pc) = Some OnlyOneSharedPool \<longleftrightarrow> length (shared_pools pc) \<ge> 2) \<and>
    (shared_pools pc = [] \<longrightarrow> validatePools cs pc = ([], None)) \<and>
    (\<forall>p. shared_pools pc = [p] \<longrightarrow> validatePools cs pc = (cs_String cs (CPUset p), None))"
proof -
  have "\<forall>p \<in> set (shared_pools pc). cs_String cs (CPUset p) \<noteq> []"
    using assms by (metis cpuset_lib.String_empty_iff)
  then show ?thesis
    using validatePools_loop_eq [of "Pools pc" cs "[]"]
    by (auto simp: validatePools_def shared_pools_def split: list.splits)
qed

definition two_pools :: "int list \<Rightarrow> int list \<Rightarrow> int list pool_config" where
  "two_pools a b =
     \<lparr>Pools = [(''shared1'', (demo_pool [])\<lparr>CPUset := a\<rparr>), (''shared2'', (demo_pool [])\<lparr>CPUset := b\<rparr>)],
      NodeSelector = []\<rparr>"

theorem validatePools_correct_witness:
  "snd (validatePools ref_cpuset (two_pools [0, 1] [2])) = Some OnlyOneSharedPool"
proof -
  have "\<forall>p \<in> set (shared_pools (two_pools [0, 1] [2])). cs_elems ref_cpuset (CPUset p) \<noteq> {}"
    by (simp add: shared_pools_def two_pools_def pool_ids)
  moreover have "length (shared_pools (two_pools [0, 1] [2])) \<ge> 2" by code_simp
  ultimately show ?thesis using validatePools_correct [OF ref.cpuset_lib_axioms] by blast
qed

text \<open>An empty shared pool visited first is forgotten: two shared pools then pass the validation,
  while the same two pools visited in the other order are rejected.\<close>

theorem validatePools_order_matters:
  assumes "cpuset_lib cs" and "DeterminePoolType m = SharedPoolID" "DeterminePoolType n = SharedPoolID"
    and "cs_elems cs (CPUset p) = {}" "cs_elems cs (CPUset q) \<noteq> {}"
  shows "validatePools cs \<lparr>Pools = [(m, p), (n, q)], NodeSelector = sel\<rparr> = (cs_String cs (CPUset q), None) \<and>
    validatePools cs \<lparr>Pools = [(n, q), (m, p)], NodeSelector = sel\<rparr> =
      (cs_String cs (CPUset q), Some OnlyOneSharedPool)"
  using assms by (simp add: validatePools_def cpuset_lib.String_empty_iff)

theorem validatePools_order_matters_witness:
  "validatePools ref_cpuset (two_pools [] [2]) = (''2'', None)"
proof -
  have "cs_String ref_cpuset [2] = ''2''" by code_simp
  then show ?thesis
    using validatePools_order_matters [OF ref.cpuset_lib_axioms, of "''shared1''" "''shared2''"
      "(demo_pool [])\<lparr>CPUset := []\<rparr>" "(demo_pool [])\<lparr>CPUset := [2]\<rparr>" "[]"]
    by (simp add: two_pools_def DeterminePoolType_def pool_ids)
qed

subsection \<open>Registration\<close>

definition resources :: "(string \<times> 's pool) list \<Rightarrow> string list" where
  "resources ps = map (\<lambda>(n, p). resourceBaseName @ ''/'' @ n)
     (filter (\<lambda>(n, p). DeterminePoolType n \<noteq> DefaultPoolID) ps)"

text \<open>Whether the CPUs of the machine can be counted.\<close>

definition counts_cpus :: "('s, 'w) plugin_env \<Rightarrow> bool" where
  "counts_cpus env = is_Ok (GetCpuInfo (te_NumCPU env) (te_cpuinfo env))"

lemma newCPUDeviceManager_total:
  "counts_cpus env \<Longrightarrow> \<exists>c. newCPUDeviceManager env n p sh = Ok c"
  by (auto simp: counts_cpus_def newCPUDeviceManager_def is_Ok_iff split: prod.splits)

text \<open>Whether a client of the kubelet gets a connection in its two attempts.\<close>

definition kubelet_reachable :: "('s, 'w) plugin_env \<Rightarrow> bool" where
  "kubelet_reachable env =
     (case te_NewClient env (''unix://'' @ DevicePluginPath @ ''kubelet.sock'') of
        None \<Rightarrow> False
      | Some addr \<Rightarrow>
          (case ParseDialTarget (te_urlParse env) addr of
             (network, endpoint) \<Rightarrow> (\<exists>i \<in> {0, 1}. te_dial env network endpoint second i \<noteq> None)))"

lemma register_dialer_ok:
  "snd (register_dialer env addr) \<longleftrightarrow>
     (case ParseDialTarget (te_urlParse env) addr of
        (network, endpoint) \<Rightarrow> (\<exists>i \<in> {0, 1}. te_dial env network endpoint second i \<noteq> None))"
  by (auto simp: register_dialer_def DialContext_def NewMyDialer_def numeral_2_eq_2 nat_numeral
      split: prod.splits option.splits)

lemma Register_ok_iff:
  "is_Ok (Register env (DevicePluginPath @ ''kubelet.sock'') cdm res) \<longleftrightarrow>
     kubelet_reachable env \<and>
     te_accepts env \<lparr>rr_Version = api_Version, rr_Endpoint = socketFile cdm, rr_ResourceName = res\<rparr>"
  by (auto simp: Register_def kubelet_reachable_def register_dialer_ok Let_def split: option.splits)

lemma createCDMs_loop_all:
  assumes "counts_cpus env" "\<forall>f. te_NewClient env (''unix://'' @ f) \<noteq> None"
    "kubelet_reachable env" "\<forall>r. te_accepts env r"
  shows "\<exists>st'. createCDMs_loop env sh st ps = Ok st' \<and> registered st' = registered st @ resources ps \<and>
    length (cdms st') = length (cdms st) + length (resources ps) \<and>
    ((\<forall>f. listen_ok env f) \<longrightarrow> unlistened st' = unlistened st)"
proof (induction ps arbitrary: st)
  case (Cons e ps)
  obtain n p where e: "e = (n, p)" by (cases e)
  obtain c where c: "newCPUDeviceManager env n p sh = Ok c" using newCPUDeviceManager_total [OF assms(1)] by blast
  obtain c' socks where start: "Start env c (sockets st) = (c', socks, True)"
    using assms(2) by (auto simp: Start_def Let_def)
  have nils: "(\<forall>f. listen_ok env f) \<longrightarrow> note_listener c' fs = fs" for fs
    using Start_sockets [OF start] by (simp add: note_listener_def)
  let ?st = "st\<lparr>cdms := cdms st @ [c'], sockets := socks, unlistened := note_listener c' (unlistened st),
    registered := registered st @ [resourceBaseName @ ''/'' @ n]\<rparr>"
  show ?case using e c start nils assms(3,4) Cons.IH [of st] Cons.IH [of ?st]
    by (cases "DeterminePoolType n = DefaultPoolID") (simp_all add: resources_def Let_def Register_ok_iff)
qed (simp add: resources_def)

lemma createCDMs_loop_none:
  assumes "counts_cpus env" "\<not> kubelet_reachable env \<or> (\<forall>r. \<not> te_accepts env r)"
  shows "\<exists>st'. createCDMs_loop env sh st ps = Ok st' \<and> registered st' = registered st \<and>
    length (cdms st') \<le> length (cdms st) + 1"
proof (induction ps arbitrary: st)
  case (Cons e ps)
  obtain n p where e: "e = (n, p)" by (cases e)
  obtain c where c: "newCPUDeviceManager env n p sh = Ok c" using newCPUDeviceManager_total [OF assms(1)] by blast
  obtain c' socks ok where start: "Start env c (sockets st) = (c', socks, ok)" by (metis prod_cases3)
  show ?case using e c start assms(2) Cons.IH [of st]
    by (cases "DeterminePoolType n = DefaultPoolID") (auto simp: Let_def Register_ok_iff)
qed simp

lemma start_plugin_eq:
  assumes "remove_leftovers env (sockets st) = Some socks"
    "DeterminePoolConfig cs (te_pool_env env) (te_labels env) = Ok pc" "validatePools cs pc = (sh, None)"
    "createCDMs_loop env sh (st\<lparr>sockets := socks\<rparr>) (Pools pc) = Ok st'"
  shows "start_plugin cs env st = Running st'"
  using assms by (simp add: start_plugin_def createPluginsForPools_def createCDMs_def)

text \<open>C21: When clients can be made for the sockets, and the kubelet answers one of the two attempts to
  dial it and accepts every registration, the start-up registers exactly the pools that are not
  default pools, each with a manager, and the process runs; when listening succeeds as well, no server is
  left without a listener.\<close>

theorem start_registers_all:
  assumes "remove_leftovers env (sockets st) = Some socks"
    "DeterminePoolConfig cs (te_pool_env env) (te_labels env) = Ok pc" "snd (validatePools cs pc) = None"
    "counts_cpus env" "\<forall>f. te_NewClient env (''unix://'' @ f) \<noteq> None"
    "kubelet_reachable env" "\<forall>r. te_accepts env r"
  shows "\<exists>st'. start_plugin cs env st = Running st' \<and> registered st' = registered st @ resources (Pools pc) \<and>
    length (cdms st') = length (cdms st) + length (resources (Pools pc)) \<and>
    ((\<forall>f. listen_ok env f) \<longrightarrow> unlistened st' = unlistened st)"
proof -
  obtain sh where v: "validatePools cs pc = (sh, None)" using assms(3) by (cases "validatePools cs pc") simp
  show ?thesis
    using createCDMs_loop_all [OF assms(4-7), of sh "st\<lparr>sockets := socks\<rparr>" "Pools pc"]
      start_plugin_eq [OF assms(1,2) v] by auto
qed

theorem start_registers_all_witness:
  "\<exists>st'. start_plugin ref_cpuset (demo_plugin_env (\<lambda>r. True)) (init_state []) = Running st' \<and>
     registered st' = [''bonc.k8s.io/shared'', ''bonc.k8s.io/exclusive'']"
proof -
  let ?e = "demo_plugin_env (\<lambda>r. True)"
  obtain pc where pc: "DeterminePoolConfig ref_cpuset (te_pool_env ?e) (te_labels ?e) = Ok pc"
    "snd (validatePools ref_cpuset pc) = None" "resources (Pools pc) = [''bonc.k8s.io/shared'', ''bonc.k8s.io/exclusive'']"
  proof -
    have "case DeterminePoolConfig ref_cpuset (te_pool_env ?e) (te_labels ?e) of
        Ok pc \<Rightarrow> snd (validatePools ref_cpuset pc) = None \<and>
          resources (Pools pc) = [''bonc.k8s.io/shared'', ''bonc.k8s.io/exclusive''] | _ \<Rightarrow> False"
      by code_simp
    with that show thesis by (auto split: outcome.splits)
  qed
  have "remove_leftovers ?e (sockets (init_state [])) = Some []" "counts_cpus ?e" by code_simp+
  moreover have "kubelet_reachable ?e"
    by (simp add: kubelet_reachable_def demo_plugin_env_def split: prod.splits)
  ultimately show ?thesis using start_registers_all [of ?e "init_state []" "[]", OF _ pc(1,2)] pc(3)
    by (auto simp: demo_plugin_env_def init_state_def)
qed

text \<open>When the kubelet cannot be reached or refuses every registration the start-up still reports success: the process
  keeps running with nothing registered, and does not create the managers of the other pools.\<close>

theorem failed_registration_hidden:
  assumes "remove_leftovers env (sockets st) = Some socks"
    "DeterminePoolConfig cs (te_pool_env env) (te_labels env) = Ok pc" "snd (validatePools cs pc) = None"
    "counts_cpus env" "\<not> kubelet_reachable env \<or> (\<forall>r. \<not> te_accepts env r)"
  shows "\<exists>st'. start_plugin cs env st = Running st' \<and> registered st' = registered st \<and>
    length (cdms st') \<le> length (cdms st) + 1"
proof -
  obtain sh where v: "validatePools cs pc = (sh, None)" using assms(3) by (cases "validatePools cs pc") simp
  show ?thesis
    using createCDMs_loop_none [OF assms(4,5), of sh "st\<lparr>sockets := socks\<rparr>" "Pools pc"]
      start_plugin_eq [OF assms(1,2) v] by auto
qed

theorem failed_registration_hidden_witness:
  "\<exists>st'. start_plugin ref_cpuset (demo_plugin_env (\<lambda>r. False)) (init_state []) = Running st' \<and>
     registered st' = [] \<and> length (cdms st') \<le> 1"
proof -
  let ?e = "demo_plugin_env (\<lambda>r. False)"
  obtain pc where pc: "DeterminePoolConfig ref_cpuset (te_pool_env ?e) (te_labels ?e) = Ok pc"
    "snd (validatePools ref_cpuset pc) = None"
  proof -
    have "case DeterminePoolConfig ref_cpuset (te_pool_env ?e) (te_labels ?e) of
        Ok pc \<Rightarrow> snd (validatePools ref_cpuset pc) = None | _ \<Rightarrow> False"
      by code_simp
    with that show thesis by (auto split: outcome.splits)
  qed
  have "remove_leftovers ?e (sockets (init_state [])) = Some []" "counts_cpus ?e" by code_simp+
  with failed_registration_hidden [OF this(1) pc this(2)] show ?thesis
    by (auto simp: demo_plugin_env_def init_state_def)
qed

end
