(* ===== verification/Kube_Types.thy ===== *)
theory Kube_Types
  imports Go_Prelude
begin

text \<open>
  The Kubernetes API objects CPU-Pooler reads (\<^verbatim>\<open>k8s.io/api/core/v1\<close>), as records of exactly the
  fields the sources use. Pointers are options, quantities are their \<^verbatim>\<open>String()\<close> rendering,
  points in time are integers with 0 for the zero time, and the environment variables, volume
  mounts and volumes of a pod are their names.
\<close>

record terminated =
  t_Reason :: string
  t_Signal :: int
  t_ExitCode :: int
  t_FinishedAt :: int

record container_state =
  s_Waiting :: "string option"
  s_Running :: bool
  s_Terminated :: "terminated option"

record container_status =
  st_Name :: string
  st_ContainerID :: string
  st_Ready :: bool
  st_RestartCount :: int
  st_Started :: "bool option"
  st_State :: container_state
  st_LastTermination :: "terminated option"

record container =
  c_Name :: string
  c_Command :: "string list"
  c_Args :: "string list"
  c_Env :: "string list"
  c_VolumeMounts :: "string list"
  c_Limits :: "(string \<times> string) list"
  c_Requests :: "(string \<times> string) list"
  c_RestartPolicy :: "string option"

record pod_condition =
  pc_Type :: string
  pc_Reason :: string
  pc_Status :: string

record pod =
  p_Name :: string
  p_Namespace :: string
  p_UID :: string
  p_Annotations :: "(string \<times> string) list"
  p_DeletionTimestamp :: "int option"
  p_NodeName :: string
  p_Containers :: "container list"
  p_InitContainers :: "container list"
  p_Volumes :: "string list"
  p_Phase :: string
  p_Reason :: string
  p_Conditions :: "pod_condition list"
  p_InitContainerStatuses :: "container_status list"
  p_ContainerStatuses :: "container_status list"

abbreviation PodRunning :: string where "PodRunning \<equiv> ''Running''"
abbreviation PodSucceeded :: string where "PodSucceeded \<equiv> ''Succeeded''"
abbreviation PodFailed :: string where "PodFailed \<equiv> ''Failed''"

end
