(* ===== verification/Json_Syntax.thy ===== *)
theory Json_Syntax
  imports Go_Prelude
begin

text \<open>
  The syntax check of \<^verbatim>\<open>encoding/json\<close>: marshalling a \<^verbatim>\<open>json.RawMessage\<close> succeeds exactly when the
  raw bytes are one JSON value. Every function returns the input left after what it recognised,
  or \<open>None\<close> for a syntax error. Arrays and objects nest, so the recognisers carry fuel: a call
  for a value that recognises anything consumes a character before the next one, and a list or
  member call is made only right after a consumed character, so twice the length suffices.

  The lemmas are those the webhook needs: strings without quotes, backslashes and control
  characters are recognised literally, and more fuel never changes a positive answer.
\<close>

section \<open>The recogniser\<close>

definition is_ws :: "char \<Rightarrow> bool" where
  "is_ws c = (c \<in> {CHR '' '', CHR 0x09, CHR 0x0A, CHR 0x0D})"

definition skip_ws :: "string \<Rightarrow> string" where
  "skip_ws s = dropWhile is_ws s"

abbreviation quote :: char where "quote \<equiv> CHR 0x22"
abbreviation backslash :: char where "backslash \<equiv> CHR 0x5C"

definition is_hex :: "char \<Rightarrow> bool" where
  "is_hex c = (is_digit c \<or> c \<in> set ''abcdefABCDEF'')"

text \<open>The rest of a string literal after its opening quote.\<close>

fun json_string :: "string \<Rightarrow> string option" where
  "json_string [] = None"
| "json_string (c # s) =
     (if c = quote then Some s
      else if c = backslash then
        (case s of
           [] \<Rightarrow> None
         | e # t \<Rightarrow>
             (if e \<in> set ''bfnrt/'' \<or> e = quote \<or> e = backslash then json_string t
              else if e = CHR ''u'' then
                (case t of
                   h1 # h2 # h3 # h4 # r \<Rightarrow>
                     (if is_hex h1 \<and> is_hex h2 \<and> is_hex h3 \<and> is_hex h4 then json_string r else None)
                 | _ \<Rightarrow> None)
              else None))
      else if (of_char c :: nat) < 32 then None
      else json_string s)"

definition json_digits :: "string \<Rightarrow> string option" where
  "json_digits s = (case s of c # t \<Rightarrow> (if is_digit c then Some (dropWhile is_digit t) else None) | [] \<Rightarrow> None)"

definition json_fraction :: "string \<Rightarrow> string option" where
  "json_fraction s = (case s of c # t \<Rightarrow> (if c = CHR ''.'' then json_digits t else Some s) | [] \<Rightarrow> Some s)"

definition json_exponent :: "string \<Rightarrow> string option" where
  "json_exponent s =
     (case s of
        c # t \<Rightarrow>
          (if c = CHR ''e'' \<or> c = CHR ''E'' then
             (case t of d # u \<Rightarrow> (if d = CHR ''+'' \<or> d = CHR ''-'' then json_digits u else json_digits t) | [] \<Rightarrow> None)
           else Some s)
      | [] \<Rightarrow> Some s)"

definition json_number :: "string \<Rightarrow> string option" where
  "json_number s =
     (let t = (case s of c # u \<Rightarrow> (if c = CHR ''-'' then u else s) | [] \<Rightarrow> s);
          int_part = (case t of c # u \<Rightarrow> (if c = CHR ''0'' then Some u else json_digits t) | [] \<Rightarrow> None)
      in Option.bind int_part (\<lambda>r. Option.bind (json_fraction r) json_exponent))"

fun json_value :: "nat \<Rightarrow> string \<Rightarrow> string option"
  and json_elements :: "nat \<Rightarrow> string \<Rightarrow> string option"
  and json_members :: "nat \<Rightarrow> string \<Rightarrow> string option" where
  "json_value 0 s = None"
| "json_value (Suc n) s =
     (case skip_ws s of
        [] \<Rightarrow> None
      | c # t \<Rightarrow>
          (if c = quote then json_string t
           else if c = CHR ''{'' then
             (if HasPrefix (skip_ws t) ''}'' then Some (tl (skip_ws t)) else json_members n t)
           else if c = CHR ''['' then
             (if HasPrefix (skip_ws t) '']'' then Some (tl (skip_ws t)) else json_elements n t)
           else if HasPrefix (c # t) ''true'' then Some (drop 3 t)
           else if HasPrefix (c # t) ''null'' then Some (drop 3 t)
           else if HasPrefix (c # t) ''false'' then Some (drop 4 t)
           else json_number (c # t)))"
| "json_elements 0 s = None"
| "json_elements (Suc n) s =
     (case json_value n s of
        None \<Rightarrow> None
      | Some r \<Rightarrow>
          (case skip_ws r of
             [] \<Rightarrow> None
           | c # t \<Rightarrow> (if c = CHR '','' then json_elements n t else if c = CHR '']'' then Some t else None)))"
| "json_members 0 s = None"
| "json_members (Suc n) s =
     (case skip_ws s of
        [] \<Rightarrow> None
      | q # k \<Rightarrow>
          (if q \<noteq> quote then None
           else case json_string k of
             None \<Rightarrow> None
           | Some r \<Rightarrow>
               (case skip_ws r of
                  [] \<Rightarrow> None
                | d # v \<Rightarrow>
                    (if d \<noteq> CHR '':'' then None
                     else case json_value n v of
                       None \<Rightarrow> None
                     | Some r' \<Rightarrow>
                         (case skip_ws r' of
                            [] \<Rightarrow> None
                          | c # t \<Rightarrow> (if c = CHR '','' then json_members n t
                                     else if c = CHR ''}'' then Some t else None))))))"

definition json_valid :: "string \<Rightarrow> bool" where
  "json_valid s = (case json_value (2 * length s + 2) s of None \<Rightarrow> False | Some r \<Rightarrow> skip_ws r = [])"

section \<open>Lemmas\<close>

definition plain :: "string \<Rightarrow> bool" where
  "plain s = (\<forall>c \<in> set s. c \<noteq> quote \<and> c \<noteq> backslash \<and> 32 \<le> (of_char c :: nat))"

lemma json_string_plain: "plain s \<Longrightarrow> json_string (s @ quote # r) = Some r"
  by (induction s) (simp_all add: plain_def)

lemma json_string_append: "plain s \<Longrightarrow> json_string (s @ r) = json_string r"
  by (induction s) (simp_all add: plain_def)

lemma plain_simps [simp]:
  "plain []" "plain (c # s) \<longleftrightarrow> (c \<noteq> quote \<and> c \<noteq> backslash \<and> 32 \<le> (of_char c :: nat)) \<and> plain s"
  "plain (s @ t) \<longleftrightarrow> plain s \<and> plain t"
  by (auto simp: plain_def)

lemma skip_ws_simps [simp]:
  "skip_ws [] = []" "skip_ws (c # s) = (if is_ws c then skip_ws s else c # s)"
  by (simp_all add: skip_ws_def)

lemma json_fuel_mono:
  "json_value n s = Some r \<Longrightarrow> json_value (n + k) s = Some r"
  "json_elements n s = Some r \<Longrightarrow> json_elements (n + k) s = Some r"
  "json_members n s = Some r \<Longrightarrow> json_members (n + k) s = Some r"
  by (induction n s and n s and n s arbitrary: r and r and r rule: json_value_json_elements_json_members.induct)
    (auto split: list.splits if_splits option.splits)

lemma json_validI:
  assumes "json_value n s = Some r" "n \<le> 2 * length s + 2" "skip_ws r = []"
  shows "json_valid s"
  using json_fuel_mono(1) [OF assms(1), of "2 * length s + 2 - n"] assms(2,3) by (simp add: json_valid_def)

end
