(* ===== verification/Webhook.thy ===== *)
theory Webhook
  imports Pool_Config Cpu_Annotation Kube_Types Json_Syntax
begin

text \<open>
  The mutating admission webhook, \<^verbatim>\<open>cmd/webhook/webhook.go\<close>: it reads the pool resources a pod
  requests, checks the CPU annotation against them, and answers with JSON patches that set the
  CFS quota of a container, start it through the process starter and tell it its pools.

  Parameters, for code outside the repository: the Kubernetes deserializer for reviews and pods
  and the JSON decoder of the annotation. A Kubernetes quantity is its \<^verbatim>\<open>String()\<close>. The patch of
  a response is kept as the list that is marshalled; the marshaller checks the raw value of every
  patch (theory \<^verbatim>\<open>Json_Syntax\<close>).

  The lemmas show what the requests of a container add up to, that an annotation is accepted
  exactly when it agrees with them, which CFS limit is set, that pods which use neither pools nor
  annotation are left alone, that the patches are well-formed JSON for names and commands free
  of quotes, backslashes and control characters, and where the handler panics.
\<close>

section \<open>Data\<close>

record container_pool_requests =
  sharedCPURequests :: int
  exclusiveCPURequests :: int
  cloudphoneCPURequests :: int
  pools :: "(string \<times> int) list"

type_synonym pool_request_map = "(string \<times> container_pool_requests) list"

record patch =
  Op :: string
  Path :: string
  Value :: string

datatype webhook_error =
  DeserializeError string
| BadQuantity string string
| AnnotationInvalid annotation_error
| NoPoolRequests string
| SharedMismatch int int
| PoolNotFound string string
| ExclusiveMismatch int int
| CPUAnnotationError
| PatchMarshalError
| RequestIsNil

record admission_response =
  Allowed :: bool
  Message :: "webhook_error option"
  Patch :: "patch list option"
  resp_UID :: string

record admission_request =
  rq_UID :: string
  rq_Resource :: "string \<times> string \<times> string"
  rq_Raw :: string

record 's webhook_env =
  we_cpuset :: "'s cpuset_api"
  we_pools :: "'s pool_env"
  we_decode_pod :: "string \<Rightarrow> string + pod"
  we_decode_review :: "string \<Rightarrow> admission_request option \<times> string option"
  we_unmarshal :: "string \<Rightarrow> ann_container list \<times> string option"
  processStarterPath :: string
  cfsQuotas :: string

definition webhookResourceBaseName :: string where
  "webhookResourceBaseName = ''bonc.k8s.io''"

definition QuotaAll :: string where "QuotaAll = ''all''"
definition QuotaShared :: string where "QuotaShared = ''shared''"

definition toAdmissionResponse :: "webhook_error \<Rightarrow> admission_response" where
  "toAdmissionResponse err = \<lparr>Allowed = False, Message = Some err, Patch = None, resp_UID = []\<rparr>"

section \<open>Requests of a container\<close>

definition no_requests :: container_pool_requests where
  "no_requests = \<lparr>sharedCPURequests = 0, exclusiveCPURequests = 0, cloudphoneCPURequests = 0, pools = []\<rparr>"

definition requests_of :: "pool_request_map \<Rightarrow> string \<Rightarrow> container_pool_requests" where
  "requests_of poolRequests name = (case map_of poolRequests name of None \<Rightarrow> no_requests | Some r \<Rightarrow> r)"

definition add_request :: "string \<Rightarrow> int \<Rightarrow> container_pool_requests \<Rightarrow> container_pool_requests" where
  "add_request key val r =
     \<lparr>sharedCPURequests =
        (if HasPrefix key (webhookResourceBaseName @ ''/shared'') then wrap64 (sharedCPURequests r + val)
         else sharedCPURequests r),
      exclusiveCPURequests =
        (if HasPrefix key (webhookResourceBaseName @ ''/exclusive'') then wrap64 (exclusiveCPURequests r + val)
         else exclusiveCPURequests r),
      cloudphoneCPURequests =
        (if HasPrefix key (webhookResourceBaseName @ ''/cloudphone'') then wrap64 (cloudphoneCPURequests r + val)
         else cloudphoneCPURequests r),
      pools = AList.update (TrimPrefix key (webhookResourceBaseName @ ''/'')) val (pools r)\<rparr>"

definition quantity_value :: "string \<Rightarrow> int option" where
  "quantity_value q = Atoi (ReplaceOne q ''k'' ''000'')"

fun limits_loop ::
  "string \<Rightarrow> pool_request_map \<Rightarrow> container_pool_requests \<Rightarrow> (string \<times> string) list
    \<Rightarrow> webhook_error + pool_request_map" where
  "limits_loop name poolRequests r [] = Inr poolRequests"
| "limits_loop name poolRequests r ((key, value) # rest) =
     (if HasPrefix key webhookResourceBaseName then
        (case quantity_value value of
           None \<Rightarrow> Inl (BadQuantity key value)
         | Some val \<Rightarrow>
             (let r' = add_request key val r
              in limits_loop name (AList.update name r' poolRequests) r' rest))
      else limits_loop name poolRequests r rest)"

fun requests_loop ::
  "pool_request_map \<Rightarrow> container list \<Rightarrow> webhook_error + pool_request_map" where
  "requests_loop poolRequests [] = Inr poolRequests"
| "requests_loop poolRequests (c # cs) =
     (case limits_loop (c_Name c) poolRequests (requests_of poolRequests (c_Name c)) (c_Limits c) of
        Inl e \<Rightarrow> Inl e
      | Inr poolRequests' \<Rightarrow> requests_loop poolRequests' cs)"

definition getCPUPoolRequests :: "pod \<Rightarrow> webhook_error + pool_request_map" where
  "getCPUPoolRequests pod = requests_loop [] (p_Containers pod)"

section \<open>The annotation\<close>

definition annotationNameFromConfig :: string where
  "annotationNameFromConfig = webhookResourceBaseName @ ''/cpus''"

fun validate_pools ::
  "pool_request_map \<Rightarrow> cpu_annotation \<Rightarrow> string \<Rightarrow> string list \<Rightarrow> webhook_error option" where
  "validate_pools poolRequests ann cName [] = None"
| "validate_pools poolRequests ann cName (pool # ps) =
     (case map_of poolRequests cName of
        None \<Rightarrow> Some (NoPoolRequests cName)
      | Some r \<Rightarrow>
          (if ContainerSharedCPUTime ann cName \<noteq> sharedCPURequests r then
             Some (SharedMismatch (sharedCPURequests r) (ContainerSharedCPUTime ann cName))
           else case map_of (pools r) pool of
             None \<Rightarrow> Some (PoolNotFound cName pool)
           | Some v \<Rightarrow>
               (if ContainerTotalCPURequest ann pool cName > wrap64 (2 * v) then
                  Some (ExclusiveMismatch v (ContainerTotalCPURequest ann pool cName))
                else validate_pools poolRequests ann cName ps)))"

fun validateAnnotation_loop ::
  "pool_request_map \<Rightarrow> cpu_annotation \<Rightarrow> string list \<Rightarrow> webhook_error option" where
  "validateAnnotation_loop poolRequests ann [] = None"
| "validateAnnotation_loop poolRequests ann (cName # cs) =
     (case validate_pools poolRequests ann cName (ContainerPools ann cName) of
        Some e \<Rightarrow> Some e
      | None \<Rightarrow> validateAnnotation_loop poolRequests ann cs)"

definition validateAnnotation :: "pool_request_map \<Rightarrow> cpu_annotation \<Rightarrow> webhook_error option" where
  "validateAnnotation poolRequests ann = validateAnnotation_loop poolRequests ann (Containers ann)"

section \<open>The CFS limit\<close>

text \<open>\<^verbatim>\<open>getMaxSharedPoolLimit\<close>: \<open>poolConfs\<close> is the result of \<^verbatim>\<open>types.ReadAllPoolConfigs\<close>, \<open>None\<close> when it
  fails.\<close>

fun shared_pool_name :: "int \<Rightarrow> string \<Rightarrow> (string \<times> int) list \<Rightarrow> string" where
  "shared_pool_name shared sharedPoolName [] = sharedPoolName"
| "shared_pool_name shared sharedPoolName ((poolName, request) # ps) =
     shared_pool_name shared (if request = shared then poolName else sharedPoolName) ps"

fun max_pool_size :: "'s cpuset_api \<Rightarrow> string \<Rightarrow> int \<Rightarrow> 's pool_config list \<Rightarrow> int" where
  "max_pool_size cs name maxSharedPoolSize [] = maxSharedPoolSize"
| "max_pool_size cs name maxSharedPoolSize (poolConf # pcs) =
     max_pool_size cs name
       (case map_of (Pools poolConf) name of
          None \<Rightarrow> maxSharedPoolSize
        | Some p \<Rightarrow> (if wrap64 (cs_Size cs (CPUset p) * 1000) > maxSharedPoolSize
                    then wrap64 (cs_Size cs (CPUset p) * 1000) else maxSharedPoolSize)) pcs"

definition getMaxSharedPoolLimit ::
  "'s cpuset_api \<Rightarrow> 's pool_config list option \<Rightarrow> container_pool_requests \<Rightarrow> int" where
  "getMaxSharedPoolLimit cs poolConfs requests =
     (case poolConfs of
        None \<Rightarrow> sharedCPURequests requests
      | Some pcs \<Rightarrow>
          max_pool_size cs (shared_pool_name (sharedCPURequests requests) [] (pools requests)) 0 pcs)"

definition patchCPULimit :: "int \<Rightarrow> patch list \<Rightarrow> int \<Rightarrow> patch list" where
  \<open>patchCPULimit sharedCPUTime patchList i =
     patchList @
     [\<lparr>Op = ''replace'', Path = ''/spec/containers/'' @ Itoa i @ ''/resources/limits/cpu'',
       Value = ''"'' @ Itoa sharedCPUTime @ ''m"''\<rparr>,
      \<lparr>Op = ''replace'', Path = ''/spec/containers/'' @ Itoa i @ ''/resources/requests/cpu'',
       Value = ''"0m"''\<rparr>]\<close>

definition totalCFSLimit ::
  "'s cpuset_api \<Rightarrow> string \<Rightarrow> 's pool_config list option \<Rightarrow> container_pool_requests \<Rightarrow> int" where
  "totalCFSLimit cs quotas poolConfs requests =
     (if exclusiveCPURequests requests > 0 \<and> quotas = QuotaAll then
        (if sharedCPURequests requests > 0
         then wrap64 (1000 * exclusiveCPURequests requests + getMaxSharedPoolLimit cs poolConfs requests)
         else wrap64 (1000 * exclusiveCPURequests requests + 100))
      else if sharedCPURequests requests > 0 then sharedCPURequests requests
      else if cloudphoneCPURequests requests > 0 \<and> quotas = QuotaAll
      then wrap64 (1000 * cloudphoneCPURequests requests + 100)
      else 0)"

definition setRequestLimit ::
  "'s cpuset_api \<Rightarrow> string \<Rightarrow> 's pool_config list option \<Rightarrow> container_pool_requests \<Rightarrow> patch list \<Rightarrow> int
    \<Rightarrow> patch list" where
  "setRequestLimit cs quotas poolConfs requests patchList contID =
     (if totalCFSLimit cs quotas poolConfs requests > 0
      then patchCPULimit (totalCFSLimit cs quotas poolConfs requests) patchList contID else patchList)"

section \<open>Patches\<close>

definition pool_env_value :: "container_pool_requests \<Rightarrow> string" where
  "pool_env_value r =
     (if exclusiveCPURequests r > 0 \<and> sharedCPURequests r > 0 then ExclusivePoolID @ ''&'' @ SharedPoolID
      else if exclusiveCPURequests r > 0 then ExclusivePoolID
      else if cloudphoneCPURequests r > 0 then CloudphonePoolID
      else if sharedCPURequests r > 0 then SharedPoolID
      else DefaultPoolID)"

text \<open>An environment patch: appended to the list when there is one, else creating it.\<close>

definition env_patch :: "int \<Rightarrow> bool \<Rightarrow> string \<Rightarrow> string \<Rightarrow> patch" where
  \<open>env_patch i appending name val =
     (let item = ''{"name":"'' @ name @ ''","value":"'' @ val @ ''" }''
      in \<lparr>Op = ''add'', Path = ''/spec/containers/'' @ Itoa i @ ''/env'' @ (if appending then ''/-'' else []),
          Value = (if appending then item else ''['' @ item @ '']'')\<rparr>)\<close>

definition patchContainerEnv ::
  "pool_request_map \<Rightarrow> bool \<Rightarrow> patch list \<Rightarrow> int \<Rightarrow> container \<Rightarrow> patch list" where
  "patchContainerEnv poolRequests envPatched patchList i c =
     (if ''CPU_POOLS'' \<in> set (c_Env c) then patchList
      else patchList @ [env_patch i (envPatched \<or> c_Env c \<noteq> []) ''CPU_POOLS''
             (pool_env_value (requests_of poolRequests (c_Name c)))])"

definition add_patch :: "string \<Rightarrow> string \<Rightarrow> patch" where
  "add_patch path v = \<lparr>Op = ''add'', Path = path, Value = v\<rparr>"

definition mount_patches :: "string \<Rightarrow> int \<Rightarrow> string \<Rightarrow> patch list" where
  \<open>mount_patches starter i name =
     (let path = ''/spec/containers/'' @ Itoa i @ ''/volumeMounts/-''
      in [add_patch path ''{"name":"podinfo","mountPath":"/etc/podinfo","readOnly":true}'',
          add_patch path (''{"name":"hostbin","mountPath":"'' @ starter @ ''","readOnly":true}''),
          add_patch path (''{"name":"'' @ ''cpu-'' @ name @ ''","mountPath":"/sys/devices/system/cpu",'' @
            [CHR 0x0A] @ replicate 7 (CHR 0x09) @ ''"readOnly":true,"mountPropagation":"HostToContainer"}'')])\<close>

definition args_value :: "container \<Rightarrow> string" where
  \<open>args_value c =
     ''[ "'' @ Join (c_Command c) ''","'' @ ''" '' @
     (if c_Args c \<noteq> [] then '',"'' @ Join (c_Args c) ''","'' @ ''"'' else []) @ '']''\<close>

definition patchContainerForPinning ::
  "string \<Rightarrow> cpu_annotation \<Rightarrow> patch list \<Rightarrow> int \<Rightarrow> container \<Rightarrow> patch list" where
  \<open>patchContainerForPinning starter ann patchList i c =
     (if ''podinfo'' \<in> set (c_VolumeMounts c) then patchList
      else patchList @ mount_patches starter i (c_Name c) @
        [env_patch i (c_Env c \<noteq> []) ''CONTAINER_NAME'' (c_Name c),
         add_patch (''/spec/containers/'' @ Itoa i @ ''/command'') (''[ "'' @ starter @ ''" ]'')] @
        (if c_Command c \<noteq> [] \<and> \<not> ContainerExists ann (c_Name c)
         then [add_patch (''/spec/containers/'' @ Itoa i @ ''/args'') (args_value c)] else []))\<close>

definition volume_patch :: "pod \<Rightarrow> container \<Rightarrow> patch" where
  \<open>volume_patch pod c =
     add_patch ''/spec/volumes/-''
       (''{"name":"'' @ ''cpu-'' @ c_Name c @ ''","hostPath":{ "path":"'' @
        ''/var/lib/kubelet/emulator/cpu/'' @ p_Namespace pod @ ''/'' @ p_Name pod @ ''/'' @ c_Name c @
        ''","type": "DirectoryOrCreate" }}'')\<close>

definition patchVolumesForPinning :: "string \<Rightarrow> patch list \<Rightarrow> pod \<Rightarrow> patch list" where
  \<open>patchVolumesForPinning starter patchList pod =
     patchList @
     [add_patch ''/spec/volumes/-''
        ''{"name":"podinfo","downwardAPI": { "items": [ { "path" : "annotations","fieldRef":{ "fieldPath": "metadata.annotations"} } ] } }'',
      add_patch ''/spec/volumes/-'' (''{"name":"hostbin","hostPath":{ "path":"'' @ starter @ ''"} }'')] @
     map (volume_patch pod) (p_Containers pod)\<close>

section \<open>The review\<close>

text \<open>Whether a container is started through the process starter.\<close>

definition pinning_needed :: "pool_request_map \<Rightarrow> cpu_annotation \<Rightarrow> container \<Rightarrow> bool" where
  "pinning_needed poolRequests ann c =
     (let r = requests_of poolRequests (c_Name c);
          n0 = ContainerExists ann (c_Name c);
          n1 = (if exclusiveCPURequests r > 0 then (if c_Command c = [] \<and> \<not> n0 then n0 else True) else n0)
      in if cloudphoneCPURequests r > 0 then (if c_Command c = [] \<and> \<not> n1 then n1 else True) else n1)"

text \<open>The loop over the containers: \<open>added\<close> is \<^verbatim>\<open>pinningPatchAdded\<close>.\<close>

fun patch_containers ::
  "'s webhook_env \<Rightarrow> 's pool_config list option \<Rightarrow> pool_request_map \<Rightarrow> cpu_annotation \<Rightarrow> patch list \<Rightarrow> bool
    \<Rightarrow> int \<Rightarrow> container list \<Rightarrow> patch list \<times> bool" where
  "patch_containers env poolConfs poolRequests ann patchList added contID [] = (patchList, added)"
| "patch_containers env poolConfs poolRequests ann patchList added contID (c # cs) =
     (let r = requests_of poolRequests (c_Name c);
          l1 = setRequestLimit (we_cpuset env) (cfsQuotas env) poolConfs r patchList contID;
          pin = pinning_needed poolRequests ann c;
          l2 = (if pin then patchContainerForPinning (processStarterPath env) ann l1 contID c else l1);
          l3 = (if sharedCPURequests r > 0 \<or> exclusiveCPURequests r > 0 \<or> cloudphoneCPURequests r > 0
                then patchContainerEnv poolRequests pin l2 contID c else l2)
      in patch_containers env poolConfs poolRequests ann l3 (added \<or> pin) (contID + 1) cs)"

definition finish_response :: "patch list \<Rightarrow> admission_response" where
  "finish_response patchList =
     (if patchList = [] then \<lparr>Allowed = True, Message = None, Patch = None, resp_UID = []\<rparr>
      else if \<forall>p \<in> set patchList. json_valid (Value p)
      then \<lparr>Allowed = True, Message = None, Patch = Some patchList, resp_UID = []\<rparr>
      else toAdmissionResponse PatchMarshalError)"

definition mutate_pod :: "'s webhook_env \<Rightarrow> pod \<Rightarrow> pool_request_map \<Rightarrow> cpu_annotation \<Rightarrow> bool \<Rightarrow> admission_response" where
  "mutate_pod env pod poolRequests ann podAnnotationExists =
     (let poolConfs = (case ReadAllPoolConfigs (we_cpuset env) (we_pools env) of Ok pcs \<Rightarrow> Some pcs | _ \<Rightarrow> None)
      in case patch_containers env poolConfs poolRequests ann [] False 0 (p_Containers pod) of
           (patchList, pinningPatchAdded) \<Rightarrow>
             (if pinningPatchAdded then
                finish_response
                  (if ''hostbin'' \<in> set (p_Volumes pod) \<or> ''podinfo'' \<in> set (p_Volumes pod) then patchList
                   else patchVolumesForPinning (processStarterPath env) patchList pod)
              else if podAnnotationExists then toAdmissionResponse CPUAnnotationError
              else finish_response patchList))"

text \<open>\<^verbatim>\<open>mutatePods\<close>: \<open>None\<close> is the nil response for a resource that is not a pod.\<close>

definition mutatePods :: "'s webhook_env \<Rightarrow> admission_request \<Rightarrow> admission_response option" where
  "mutatePods env req =
     (if rq_Resource req \<noteq> ([], ''v1'', ''pods'') then None
      else Some
        (case we_decode_pod env (rq_Raw req) of
           Inl e \<Rightarrow> toAdmissionResponse (DeserializeError e)
         | Inr pod \<Rightarrow>
             (case getCPUPoolRequests pod of
                Inl e \<Rightarrow> toAdmissionResponse e
              | Inr poolRequests \<Rightarrow>
                  (case map_of (p_Annotations pod) annotationNameFromConfig of
                     None \<Rightarrow> mutate_pod env pod poolRequests [] False
                   | Some podAnnotation \<Rightarrow>
                       (case Decode (we_unmarshal env) NewCPUAnnotation podAnnotation of
                          (_, Some e) \<Rightarrow> toAdmissionResponse (AnnotationInvalid e)
                        | (ann, None) \<Rightarrow>
                            (case validateAnnotation poolRequests ann of
                               Some e \<Rightarrow> toAdmissionResponse e
                             | None \<Rightarrow> mutate_pod env pod poolRequests ann True))))))"

text \<open>\<^verbatim>\<open>serveMutatePod\<close>: \<open>Ok None\<close> is an empty answer, \<open>Ok (Some r)\<close> the review response that is
  written. Both the response and the request of the review are dereferenced at the end.\<close>

definition serveMutatePod ::
  "'s webhook_env \<Rightarrow> string \<Rightarrow> string \<Rightarrow> (unit, admission_response option) outcome" where
  "serveMutatePod env contentType body =
     (if contentType \<noteq> ''application/json'' then Ok None
      else
        (case we_decode_review env body of
           (request, err) \<Rightarrow>
             (let response = (case err of
                  Some e \<Rightarrow> Some (toAdmissionResponse (DeserializeError e))
                | None \<Rightarrow> (case request of
                      None \<Rightarrow> Some (toAdmissionResponse RequestIsNil)
                    | Some req \<Rightarrow> mutatePods env req))
              in case (response, request) of
                   (Some r, Some req) \<Rightarrow> Ok (Some (r\<lparr>resp_UID := rq_UID req\<rparr>))
                 | _ \<Rightarrow> Panic NilDereference)))"

section \<open>What the requests add up to\<close>

definition pool_limits :: "(string \<times> string) list \<Rightarrow> (string \<times> string) list" where
  "pool_limits ls = filter (\<lambda>(k, v). HasPrefix k webhookResourceBaseName) ls"

definition add_limits :: "container_pool_requests \<Rightarrow> (string \<times> string) list \<Rightarrow> container_pool_requests" where
  "add_limits r ls = fold (\<lambda>(k, v). add_request k (the (quantity_value v))) ls r"

lemma pool_limits_simps [simp]:
  "pool_limits [] = []"
  "pool_limits ((k, v) # ls) = (if HasPrefix k webhookResourceBaseName then (k, v) # pool_limits ls else pool_limits ls)"
  by (simp_all add: pool_limits_def)

lemma add_limits_simps [simp]:
  "add_limits r [] = r" "add_limits r ((k, v) # ls) = add_limits (add_request k (the (quantity_value v)) r) ls"
  by (simp_all add: add_limits_def)

text \<open>The loop over the limits fails on the first pool limit that is not a number, and else
  stores what all pool limits add up to.\<close>

lemma limits_loop_Inl:
  "(\<exists>e. limits_loop n prm r ls = Inl e) \<longleftrightarrow> (\<exists>(k, v) \<in> set (pool_limits ls). quantity_value v = None)"
  by (induction n prm r ls rule: limits_loop.induct) (auto simp: Let_def split: option.splits)

lemma limits_loop_Inr:
  "\<forall>(k, v) \<in> set (pool_limits ls). quantity_value v \<noteq> None \<Longrightarrow>
   limits_loop n prm r ls =
     Inr (if pool_limits ls = [] then prm else AList.update n (add_limits r (pool_limits ls)) prm)"
  by (induction n prm r ls rule: limits_loop.induct)
    (auto simp: Let_def AList.update_last split: option.splits)

lemma limits_loop_lookup:
  assumes "limits_loop n prm r ls = Inr prm'" "r = requests_of prm n"
  shows "requests_of prm' m = (if m = n then add_limits r (pool_limits ls) else requests_of prm m) \<and>
    (map_of prm' m = None \<longleftrightarrow> map_of prm m = None \<and> (m = n \<longrightarrow> pool_limits ls = []))"
proof -
  have "\<forall>(k, v) \<in> set (pool_limits ls). quantity_value v \<noteq> None"
    using assms(1) limits_loop_Inl [of n prm r ls] by auto
  with limits_loop_Inr [of ls n prm r] assms show ?thesis
    by (auto simp: requests_of_def update_conv')
qed

definition all_numbers :: "container list \<Rightarrow> bool" where
  "all_numbers cs = (\<forall>c \<in> set cs. \<forall>(k, v) \<in> set (pool_limits (c_Limits c)). quantity_value v \<noteq> None)"

lemma requests_loop_Inr_iff: "(\<exists>prm'. requests_loop prm cs = Inr prm') \<longleftrightarrow> all_numbers cs"
proof (induction cs arbitrary: prm)
  case (Cons c cs)
  let ?l = "limits_loop (c_Name c) prm (requests_of prm (c_Name c)) (c_Limits c)"
  show ?case
  proof (cases ?l)
    case (Inl e)
    then have "\<exists>(k, v) \<in> set (pool_limits (c_Limits c)). quantity_value v = None"
      using limits_loop_Inl by blast
    with Inl show ?thesis by (fastforce simp: all_numbers_def)
  next
    case (Inr prm1)
    then have "\<not> (\<exists>(k, v) \<in> set (pool_limits (c_Limits c)). quantity_value v = None)"
      using limits_loop_Inl [of "c_Name c" prm "requests_of prm (c_Name c)" "c_Limits c"] by auto
    with Inr Cons.IH [of prm1] show ?thesis by (auto simp: all_numbers_def)
  qed
qed (simp add: all_numbers_def)

lemma requests_loop_lookup:
  assumes "requests_loop prm cs = Inr prm'" "distinct (map c_Name cs)"
    "\<forall>c \<in> set cs. map_of prm (c_Name c) = None"
  shows "(\<forall>c \<in> set cs. requests_of prm' (c_Name c) = add_limits no_requests (pool_limits (c_Limits c)) \<and>
      (map_of prm' (c_Name c) = None \<longleftrightarrow> pool_limits (c_Limits c) = [])) \<and>
    (\<forall>m. m \<notin> c_Name ` set cs \<longrightarrow> requests_of prm' m = requests_of prm m \<and>
      (map_of prm' m = None \<longleftrightarrow> map_of prm m = None))"
  using assms
proof (induction cs arbitrary: prm)
  case (Cons c cs)
  obtain prm1 where l: "limits_loop (c_Name c) prm (requests_of prm (c_Name c)) (c_Limits c) = Inr prm1"
    and rest: "requests_loop prm1 cs = Inr prm'"
    using Cons.prems(1) by (auto split: sum.splits)
  note look = limits_loop_lookup [OF l refl]
  have fresh: "requests_of prm (c_Name c) = no_requests" using Cons.prems(3) by (simp add: requests_of_def)
  have names: "\<forall>d \<in> set cs. c_Name d \<noteq> c_Name c" using Cons.prems(2) by (simp add: image_iff) metis
  have none: "\<forall>d \<in> set cs. map_of prm1 (c_Name d) = None"
    using look names Cons.prems(3) by auto
  from Cons.IH [OF rest _ none] Cons.prems(2)
  have IH: "(\<forall>c \<in> set cs. requests_of prm' (c_Name c) = add_limits no_requests (pool_limits (c_Limits c)) \<and>
      (map_of prm' (c_Name c) = None \<longleftrightarrow> pool_limits (c_Limits c) = []))"
    "\<forall>m. m \<notin> c_Name ` set cs \<longrightarrow> requests_of prm' m = requests_of prm1 m \<and>
      (map_of prm' m = None \<longleftrightarrow> map_of prm1 m = None)" by auto
  have "c_Name c \<notin> c_Name ` set cs" using names by auto
  with IH look fresh Cons.prems(3) show ?case by auto
qed simp

text \<open>The amount requested under a prefix, and the three sums.\<close>

definition limit_sum :: "string \<Rightarrow> (string \<times> string) list \<Rightarrow> int" where
  "limit_sum pre ls = sum_list (map (\<lambda>(k, v). if HasPrefix k pre then the (quantity_value v) else 0) ls)"

definition requests_bounded :: "container_pool_requests \<Rightarrow> bool" where
  "requests_bounded r \<longleftrightarrow> in_int64 (sharedCPURequests r) \<and> in_int64 (exclusiveCPURequests r) \<and>
     in_int64 (cloudphoneCPURequests r)"

lemma requests_bounded_add: "requests_bounded r \<Longrightarrow> requests_bounded (add_request k v r)"
  unfolding requests_bounded_def add_request_def using wrap64_bounds by simp

lemma add_limits_sums:
  "requests_bounded r \<Longrightarrow>
     sharedCPURequests (add_limits r ls) =
       wrap64 (sharedCPURequests r + limit_sum (webhookResourceBaseName @ ''/shared'') ls) \<and>
     exclusiveCPURequests (add_limits r ls) =
       wrap64 (exclusiveCPURequests r + limit_sum (webhookResourceBaseName @ ''/exclusive'') ls) \<and>
     cloudphoneCPURequests (add_limits r ls) =
       wrap64 (cloudphoneCPURequests r + limit_sum (webhookResourceBaseName @ ''/cloudphone'') ls)"
proof (induction ls arbitrary: r)
  case Nil
  then show ?case by (simp add: requests_bounded_def limit_sum_def)
next
  case (Cons e ls)
  obtain k v where e: "e = (k, v)" by (cases e)
  let ?r = "add_request k (the (quantity_value v)) r"
  from Cons.IH [OF requests_bounded_add [OF Cons.prems], of k "the (quantity_value v)"] show ?case
    by (simp add: e) (simp add: add_request_def limit_sum_def add.assoc)
qed

lemma add_limits_pools:
  "distinct (map (\<lambda>(k, v). TrimPrefix k (webhookResourceBaseName @ ''/'')) ls) \<Longrightarrow>
   map_of (pools (add_limits r ls)) n =
     (case find (\<lambda>(k, v). TrimPrefix k (webhookResourceBaseName @ ''/'') = n) ls of
        Some (k, v) \<Rightarrow> Some (the (quantity_value v)) | None \<Rightarrow> map_of (pools r) n)"
proof (induction ls arbitrary: r)
  case (Cons e ls)
  obtain k v where e: "e = (k, v)" by (cases e)
  have "TrimPrefix k (webhookResourceBaseName @ ''/'') = n \<Longrightarrow>
      find (\<lambda>(k, v). TrimPrefix k (webhookResourceBaseName @ ''/'') = n) ls = None"
    using Cons.prems e by (force simp: find_None_iff)
  with Cons e show ?case by (auto simp: add_request_def update_conv' split: option.splits)
qed simp

lemma limit_sum_pool_limits:
  assumes "HasPrefix pre webhookResourceBaseName"
  shows "limit_sum pre (pool_limits ls) = limit_sum pre ls"
proof (induction ls)
  case (Cons e ls)
  obtain k v where e: "e = (k, v)" by (cases e)
  have "HasPrefix k pre \<Longrightarrow> HasPrefix k webhookResourceBaseName" using assms HasPrefix_trans by blast
  with Cons e show ?case by (auto simp: limit_sum_def)
qed (simp add: limit_sum_def)

lemma limit_sums:
  "sharedCPURequests (add_limits no_requests (pool_limits ls)) =
     wrap64 (limit_sum (webhookResourceBaseName @ ''/shared'') ls)"
  "exclusiveCPURequests (add_limits no_requests (pool_limits ls)) =
     wrap64 (limit_sum (webhookResourceBaseName @ ''/exclusive'') ls)"
  "cloudphoneCPURequests (add_limits no_requests (pool_limits ls)) =
     wrap64 (limit_sum (webhookResourceBaseName @ ''/cloudphone'') ls)"
  using add_limits_sums [of no_requests "pool_limits ls"]
  by (simp_all add: requests_bounded_def no_requests_def limit_sum_pool_limits)

text \<open>Limits with different names, the pool limits all in the domain of the resources.\<close>

definition limits_wf :: "(string \<times> string) list \<Rightarrow> bool" where
  "limits_wf ls \<longleftrightarrow> distinct (map fst ls) \<and>
     (\<forall>(k, v) \<in> set (pool_limits ls). HasPrefix k (webhookResourceBaseName @ ''/''))"

lemma find_pool_limit:
  assumes "limits_wf ls"
  shows "find (\<lambda>(k, v). TrimPrefix k (webhookResourceBaseName @ ''/'') = n) (pool_limits ls) =
    map_option (Pair (webhookResourceBaseName @ ''/'' @ n)) (map_of ls (webhookResourceBaseName @ ''/'' @ n))"
  using assms
proof (induction ls)
  case (Cons e ls)
  obtain k v where e: "e = (k, v)" by (cases e)
  have wf: "limits_wf ls" using Cons.prems e by (auto simp: limits_wf_def split: if_splits)
  show ?case
  proof (cases "HasPrefix k webhookResourceBaseName")
    case True
    with Cons.prems e obtain t where k: "k = (webhookResourceBaseName @ ''/'') @ t"
      by (auto simp: limits_wf_def HasPrefix_iff)
    then have "TrimPrefix k (webhookResourceBaseName @ ''/'') = t" by (metis TrimPrefix_append)
    with k e True Cons.IH [OF wf] show ?thesis by auto
  next
    case False
    then have "k \<noteq> webhookResourceBaseName @ ''/'' @ n" by auto
    with False e Cons.IH [OF wf] show ?thesis by simp
  qed
qed simp

lemma pool_limits_names:
  assumes "limits_wf ls"
  shows "distinct (map (\<lambda>(k, v). TrimPrefix k (webhookResourceBaseName @ ''/'')) (pool_limits ls))"
  using assms
proof (induction ls)
  case (Cons e ls)
  obtain k v where e: "e = (k, v)" by (cases e)
  have wf: "limits_wf ls" using Cons.prems e by (auto simp: limits_wf_def split: if_splits)
  show ?case
  proof (cases "HasPrefix k webhookResourceBaseName")
    case True
    with Cons.prems e obtain t where k: "k = (webhookResourceBaseName @ ''/'') @ t"
      by (auto simp: limits_wf_def HasPrefix_iff)
    have "t \<noteq> TrimPrefix k' (webhookResourceBaseName @ ''/'')" if "(k', v') \<in> set (pool_limits ls)" for k' v'
    proof
      assume t: "t = TrimPrefix k' (webhookResourceBaseName @ ''/'')"
      from that wf obtain t' where k': "k' = (webhookResourceBaseName @ ''/'') @ t'"
        by (auto simp: limits_wf_def HasPrefix_iff)
      with t k have "k' = k" by (metis TrimPrefix_append)
      with that Cons.prems e show False by (auto simp: limits_wf_def pool_limits_def rev_image_eqI)
    qed
    moreover have "TrimPrefix k (webhookResourceBaseName @ ''/'') = t" using k by (metis TrimPrefix_append)
    ultimately show ?thesis using e True Cons.IH [OF wf] by auto
  next
    case False
    with e Cons.IH [OF wf] show ?thesis by simp
  qed
qed simp

lemma add_limits_pools_wf:
  assumes "limits_wf ls" "\<forall>(k, v) \<in> set (pool_limits ls). quantity_value v \<noteq> None"
  shows "map_of (pools (add_limits no_requests (pool_limits ls))) n =
    Option.bind (map_of ls (webhookResourceBaseName @ ''/'' @ n)) quantity_value"
proof -
  have "Some (the (quantity_value v)) = quantity_value v"
    if "map_of ls (webhookResourceBaseName @ ''/'' @ n) = Some v" for v
  proof -
    have "(webhookResourceBaseName @ ''/'' @ n, v) \<in> set (pool_limits ls)"
      using map_of_SomeD [OF that] by (simp add: pool_limits_def)
    with assms(2) show ?thesis by auto
  qed
  then show ?thesis
    using add_limits_pools [OF pool_limits_names [OF assms(1)], of no_requests n] find_pool_limit [OF assms(1), of n]
    by (cases "map_of ls (webhookResourceBaseName @ ''/'' @ n)") (auto simp: no_requests_def)
qed

text \<open>C26: The pool requests of a pod with different container names can be read exactly when every pool
  limit is a whole number (with at most a \<^verbatim>\<open>k\<close>). Then the shared, exclusive and cloudphone requests
  of every container are the sums of its limits of those kinds, and the request of a pool is the
  limit of the resource of that name.\<close>

theorem getCPUPoolRequests_correct:
  assumes "distinct (map c_Name (p_Containers pod))"
  shows "((\<exists>prm. getCPUPoolRequests pod = Inr prm) \<longleftrightarrow> all_numbers (p_Containers pod)) \<and>
    (\<forall>prm c. getCPUPoolRequests pod = Inr prm \<and> c \<in> set (p_Containers pod) \<longrightarrow>
      sharedCPURequests (requests_of prm (c_Name c)) =
        wrap64 (limit_sum (webhookResourceBaseName @ ''/shared'') (c_Limits c)) \<and>
      exclusiveCPURequests (requests_of prm (c_Name c)) =
        wrap64 (limit_sum (webhookResourceBaseName @ ''/exclusive'') (c_Limits c)) \<and>
      cloudphoneCPURequests (requests_of prm (c_Name c)) =
        wrap64 (limit_sum (webhookResourceBaseName @ ''/cloudphone'') (c_Limits c)) \<and>
      (limits_wf (c_Limits c) \<longrightarrow> (\<forall>n. map_of (pools (requests_of prm (c_Name c))) n =
         Option.bind (map_of (c_Limits c) (webhookResourceBaseName @ ''/'' @ n)) quantity_value)))"
proof (intro conjI allI impI, goal_cases)
  case 1
  show ?case by (simp add: getCPUPoolRequests_def requests_loop_Inr_iff)
next
  case (5 prm c n)
  then have "all_numbers (p_Containers pod)" using requests_loop_Inr_iff by (auto simp: getCPUPoolRequests_def)
  then have "\<forall>(k, v) \<in> set (pool_limits (c_Limits c)). quantity_value v \<noteq> None"
    using 5 by (simp only: all_numbers_def) blast
  moreover have "requests_of prm (c_Name c) = add_limits no_requests (pool_limits (c_Limits c))"
    using 5 requests_loop_lookup [of "[]" "p_Containers pod" prm] assms by (auto simp: getCPUPoolRequests_def)
  ultimately show ?case using 5 by (simp only: add_limits_pools_wf)
qed (use requests_loop_lookup [of "[]" "p_Containers pod"] assms in \<open>auto simp: getCPUPoolRequests_def limit_sums\<close>)

definition demo_container :: "string \<Rightarrow> string list \<Rightarrow> (string \<times> string) list \<Rightarrow> container" where
  "demo_container n cmd limits =
     \<lparr>c_Name = n, c_Command = cmd, c_Args = [], c_Env = [], c_VolumeMounts = [], c_Limits = limits,
      c_Requests = [], c_RestartPolicy = None\<rparr>"

definition demo_pod :: "container list \<Rightarrow> (string \<times> string) list \<Rightarrow> pod" where
  "demo_pod cs anns =
     \<lparr>p_Name = ''pod'', p_Namespace = ''ns'', p_UID = ''uid'', p_Annotations = anns, p_DeletionTimestamp = None,
      p_NodeName = ''node'', p_Containers = cs, p_InitContainers = [], p_Volumes = [], p_Phase = ''Pending'',
      p_Reason = [], p_Conditions = [], p_InitContainerStatuses = [], p_ContainerStatuses = []\<rparr>"

theorem getCPUPoolRequests_correct_witness:
  "\<exists>prm. getCPUPoolRequests (demo_pod [demo_container ''c'' [''sh'']
       [(''cpu'', ''1''), (''bonc.k8s.io/shared_a'', ''1k''), (''bonc.k8s.io/exclusive'', ''2'')]] []) = Inr prm \<and>
     sharedCPURequests (requests_of prm ''c'') = 1000 \<and> exclusiveCPURequests (requests_of prm ''c'') = 2"
proof -
  let ?c = "demo_container ''c'' [''sh'']
       [(''cpu'', ''1''), (''bonc.k8s.io/shared_a'', ''1k''), (''bonc.k8s.io/exclusive'', ''2'')]"
  have d: "distinct (map c_Name (p_Containers (demo_pod [?c] [])))" by (simp add: demo_pod_def)
  have "all_numbers (p_Containers (demo_pod [?c] []))" by code_simp
  then obtain prm where prm: "getCPUPoolRequests (demo_pod [?c] []) = Inr prm"
    using getCPUPoolRequests_correct [OF d] by blast
  have "?c \<in> set (p_Containers (demo_pod [?c] []))" "c_Name ?c = ''c''"
    by (simp_all add: demo_pod_def demo_container_def)
  moreover have "wrap64 (limit_sum (webhookResourceBaseName @ ''/shared'') (c_Limits ?c)) = 1000"
    "wrap64 (limit_sum (webhookResourceBaseName @ ''/exclusive'') (c_Limits ?c)) = 2" by code_simp+
  ultimately show ?thesis using getCPUPoolRequests_correct [OF d] prm by metis
qed

section \<open>Checking the annotation\<close>

definition pool_agrees :: "pool_request_map \<Rightarrow> cpu_annotation \<Rightarrow> string \<Rightarrow> string \<Rightarrow> bool" where
  "pool_agrees poolRequests ann cName pool \<longleftrightarrow>
     (\<exists>r v. map_of poolRequests cName = Some r \<and> ContainerSharedCPUTime ann cName = sharedCPURequests r \<and>
        map_of (pools r) pool = Some v \<and> ContainerTotalCPURequest ann pool cName \<le> wrap64 (2 * v))"

lemma validate_pools_None_iff:
  "validate_pools prm ann n ps = None \<longleftrightarrow> (\<forall>p \<in> set ps. pool_agrees prm ann n p)"
  by (induction ps) (auto simp: pool_agrees_def split: option.splits)

lemma validateAnnotation_loop_None_iff:
  "validateAnnotation_loop prm ann ns = None \<longleftrightarrow>
     (\<forall>n \<in> set ns. \<forall>p \<in> set (ContainerPools ann n). pool_agrees prm ann n p)"
proof (induction ns)
  case (Cons n ns)
  then show ?case
    using validate_pools_None_iff [of prm ann n "ContainerPools ann n"]
    by (cases "validate_pools prm ann n (ContainerPools ann n)") auto
qed simp

text \<open>C25: A decoded annotation is accepted exactly when every container it names has pool requests, the
  CPU time its processes ask from shared pools is the requested amount, and for every pool of a
  process the pod requests that pool and the container's total on it is at most twice the
  request (the second hardware threads).\<close>

theorem validateAnnotation_correct:
  assumes "ann_keyed ann" "\<forall>(n, c) \<in> set ann. container_valid c"
  shows "validateAnnotation prm ann = None \<longleftrightarrow>
    (\<forall>(n, c) \<in> set ann. \<exists>r. map_of prm n = Some r \<and> ContainerSharedCPUTime ann n = sharedCPURequests r \<and>
       (\<forall>p \<in> set (Processes c). \<exists>v. map_of (pools r) (PoolName p) = Some v \<and>
          ContainerTotalCPURequest ann (PoolName p) n \<le> wrap64 (2 * v)))"
proof -
  have agrees: "(\<forall>p \<in> set (ContainerPools ann n). pool_agrees prm ann n p) \<longleftrightarrow>
      (\<exists>r. map_of prm n = Some r \<and> ContainerSharedCPUTime ann n = sharedCPURequests r \<and>
       (\<forall>p \<in> set (Processes c). \<exists>v. map_of (pools r) (PoolName p) = Some v \<and>
          ContainerTotalCPURequest ann (PoolName p) n \<le> wrap64 (2 * v)))" if nc: "(n, c) \<in> set ann" for n c
  proof -
    have "map_of ann n = Some c" using assms(1) nc by (simp add: ann_keyed_def)
    then have set: "set (ContainerPools ann n) = PoolName ` set (Processes c)"
      using set_ContainerPools_keyed [OF assms(1)] by simp
    have "container_valid c" using assms(2) nc by blast
    then have "Processes c \<noteq> []" by (simp add: container_valid_def)
    then obtain q where "q \<in> set (Processes c)" using list.set_sel(1) by blast
    then show ?thesis
      unfolding set pool_agrees_def by (cases "map_of prm n") auto
  qed
  have "validateAnnotation prm ann = None \<longleftrightarrow>
      (\<forall>(n, c) \<in> set ann. \<forall>p \<in> set (ContainerPools ann n). pool_agrees prm ann n p)"
    unfolding validateAnnotation_def validateAnnotation_loop_None_iff Containers_keyed [OF assms(1)] by force
  also have "\<dots> \<longleftrightarrow> (\<forall>(n, c) \<in> set ann. \<exists>r. map_of prm n = Some r \<and> ContainerSharedCPUTime ann n = sharedCPURequests r \<and>
       (\<forall>p \<in> set (Processes c). \<exists>v. map_of (pools r) (PoolName p) = Some v \<and>
          ContainerTotalCPURequest ann (PoolName p) n \<le> wrap64 (2 * v)))"
    using agrees by (intro ball_cong refl, clarify, simp only: prod.case)
  finally show ?thesis .
qed

definition demo_annotation :: cpu_annotation where
  "demo_annotation = [(''c'', \<lparr>ann_Name = ''c'', Processes =
     [\<lparr>ProcName = ''/bin/a'', Args = [], CPUs = 4, PoolName = ''exclusive''\<rparr>]\<rparr>)]"

definition demo_requests :: "int \<Rightarrow> pool_request_map" where
  "demo_requests n = [(''c'', no_requests\<lparr>exclusiveCPURequests := n, pools := [(''exclusive'', n)]\<rparr>)]"

theorem validateAnnotation_correct_witness:
  "validateAnnotation (demo_requests 2) demo_annotation = None \<and>
   validateAnnotation (demo_requests 1) demo_annotation \<noteq> None"
proof -
  have k: "ann_keyed demo_annotation" "\<forall>(n, c) \<in> set demo_annotation. container_valid c"
    by (simp_all add: demo_annotation_def ann_keyed_def container_valid_def)
  have sums: "ContainerSharedCPUTime demo_annotation ''c'' = 0"
    "ContainerTotalCPURequest demo_annotation ''exclusive'' ''c'' = 4" by code_simp+
  have w: "wrap64 4 = 4" "wrap64 2 = 2" by simp_all
  show ?thesis
    unfolding validateAnnotation_correct [OF k]
    using sums w by (simp add: demo_annotation_def demo_requests_def no_requests_def)
qed

section \<open>Pods the webhook has nothing to do with\<close>

lemma patch_containers_none:
  assumes "\<forall>c \<in> set cs. requests_of prm (c_Name c) = no_requests \<and> \<not> ContainerExists ann (c_Name c)"
  shows "patch_containers env pcs prm ann l added i cs = (l, added)"
  using assms
proof (induction cs arbitrary: l added i)
  case (Cons c cs)
  then show ?case
    by (simp add: setRequestLimit_def totalCFSLimit_def pinning_needed_def no_requests_def)
qed simp

lemma requests_loop_none:
  "\<forall>c \<in> set cs. pool_limits (c_Limits c) = [] \<Longrightarrow> requests_loop prm cs = Inr prm"
  by (induction cs) (simp_all add: limits_loop_Inr)

text \<open>A pod that has no CPU annotation and requests no pool resource is admitted unchanged.\<close>

theorem mutatePods_unrelated_pod:
  assumes "rq_Resource req = ([], ''v1'', ''pods'')" "we_decode_pod env (rq_Raw req) = Inr pod"
    "map_of (p_Annotations pod) annotationNameFromConfig = None"
    "\<forall>c \<in> set (p_Containers pod). \<forall>(k, v) \<in> set (c_Limits c). \<not> HasPrefix k webhookResourceBaseName"
  shows "mutatePods env req = Some \<lparr>Allowed = True, Message = None, Patch = None, resp_UID = []\<rparr>"
proof -
  have "\<forall>c \<in> set (p_Containers pod). pool_limits (c_Limits c) = []"
    using assms(4) by (auto simp: pool_limits_def filter_empty_conv)
  then have "getCPUPoolRequests pod = Inr []" by (simp add: getCPUPoolRequests_def requests_loop_none)
  moreover have "patch_containers env pcs [] [] l False 0 (p_Containers pod) = (l, False)" for pcs l
    by (rule patch_containers_none) (simp add: requests_of_def ContainerExists_def)
  ultimately show ?thesis
    using assms(1-3) by (simp add: mutatePods_def mutate_pod_def finish_response_def)
qed

definition demo_env :: "pod \<Rightarrow> int list webhook_env" where
  "demo_env pod =
     \<lparr>we_cpuset = ref_cpuset, we_pools = two_configs, we_decode_pod = (\<lambda>raw. Inr pod),
      we_decode_review = (\<lambda>b. (Some \<lparr>rq_UID = ''u1'', rq_Resource = ([], ''v1'', ''pods''), rq_Raw = b\<rparr>, None)),
      we_unmarshal = (\<lambda>s. ([], None)), processStarterPath = ''/opt/bin/cloudphone-process-starter'',
      cfsQuotas = ''all''\<rparr>"

definition demo_request :: admission_request where
  "demo_request = \<lparr>rq_UID = ''u1'', rq_Resource = ([], ''v1'', ''pods''), rq_Raw = ''pod''\<rparr>"

theorem mutatePods_unrelated_pod_witness:
  "mutatePods (demo_env (demo_pod [demo_container ''c'' [''sh''] [(''cpu'', ''1'')]] [])) demo_request =
     Some \<lparr>Allowed = True, Message = None, Patch = None, resp_UID = []\<rparr>"
  by (rule mutatePods_unrelated_pod [where pod = "demo_pod [demo_container ''c'' [''sh''] [(''cpu'', ''1'')]] []"])
    (simp_all add: demo_env_def demo_request_def demo_pod_def demo_container_def webhookResourceBaseName_def)

section \<open>Well-formed patches\<close>

lemma json_value_ws [simp]: "is_ws c \<Longrightarrow> json_value n (c # s) = json_value n s"
  by (cases n) simp_all

lemma json_elements_ws [simp]: "is_ws c \<Longrightarrow> json_elements n (c # s) = json_elements n s"
  by (cases n) simp_all

lemma is_ws_simps [simp]:
  "is_ws CHR '' ''" "is_ws (CHR 0x09)" "is_ws (CHR 0x0A)"
  "\<not> is_ws quote" "\<not> is_ws CHR ''{''" "\<not> is_ws CHR ''}''" "\<not> is_ws CHR ''[''" "\<not> is_ws CHR '']''"
  "\<not> is_ws CHR '',''" "\<not> is_ws CHR '':''" "\<not> is_ws CHR ''t''"
  by (simp_all add: is_ws_def)

text \<open>A quoted plain string as a value, and a list of such strings.\<close>

lemma json_value_quoted [simp]: "plain s \<Longrightarrow> json_value (Suc n) (quote # s @ quote # r) = Some r"
  by (simp add: json_string_plain)

definition after_element :: "nat \<Rightarrow> string \<Rightarrow> string option" where
  "after_element n r =
     (case skip_ws r of [] \<Rightarrow> None
      | c # t \<Rightarrow> (if c = CHR '','' then json_elements n t else if c = CHR '']'' then Some t else None))"

lemma json_elements_Join:
  assumes "ws \<noteq> []" "\<forall>w \<in> set ws. plain w" "0 < k"
  shows "json_elements (length ws + k) (quote # Join ws [quote, CHR '','', quote] @ quote # r) = after_element k r"
  using assms
proof (induction ws)
  case (Cons w ws)
  obtain n where n: "length ws + k = Suc n" using Cons.prems(3) by (cases "length ws + k") auto
  show ?case
  proof (cases ws)
    case Nil
    with Cons.prems n show ?thesis by (simp add: after_element_def json_string_plain)
  next
    case (Cons v vs)
    with Cons.IH Cons.prems n show ?thesis by (clarsimp simp: json_string_plain)
  qed
qed simp

lemma Join_length: "length ws \<le> Suc (length (Join ws [a, b, c]))"
  by (induction ws "[a, b, c]" rule: Join.induct) auto

lemma valid_args:
  assumes "c_Command c \<noteq> []" "\<forall>w \<in> set (c_Command c @ c_Args c). plain w"
  shows "json_valid (args_value c)"
proof -
  let ?sep = "[quote, CHR '','', quote]"
  let ?rest = "(if c_Args c \<noteq> [] then CHR '','' # quote # Join (c_Args c) ?sep @ [quote] else []) @ '']''"
  let ?n = "length (c_Command c) + (length (c_Args c) + 1)"
  have v: "args_value c = CHR ''['' # CHR '' '' # quote # Join (c_Command c) ?sep @ quote # CHR '' '' # ?rest"
    by (simp add: args_value_def)
  have "json_elements ?n (quote # Join (c_Command c) ?sep @ quote # CHR '' '' # ?rest) =
      after_element (length (c_Args c) + 1) (CHR '' '' # ?rest)"
    using assms by (intro json_elements_Join) auto
  also have "\<dots> = Some []"
    using assms(2) json_elements_Join [of "c_Args c" 1 "'']''"] by (auto simp: after_element_def)
  finally have "json_value (Suc ?n) (args_value c) = Some []" by (simp add: v)
  moreover have "Suc ?n \<le> 2 * length (args_value c) + 2"
    using Join_length [of "c_Command c" quote "CHR '',''" quote] Join_length [of "c_Args c" quote "CHR '',''" quote]
    by (simp add: v) 
  ultimately show ?thesis by (rule json_validI) simp
qed

text \<open>Every other value, for a plain starter path and plain names.\<close>

lemmas json_eval = json_string_append eval_nat_numeral

lemma plain_Itoa [simp]: "plain (Itoa i)"
proof -
  have "is_digit c \<Longrightarrow> c \<noteq> quote \<and> c \<noteq> backslash \<and> 32 \<le> (of_char c :: nat)" for c
    by (auto simp: is_digit_def)
  then have "plain (nat_dec n)" for n using nat_dec_digits by (force simp: plain_def)
  then show ?thesis by (simp add: Itoa_def)
qed

lemma plain_pool_ids [simp]:
  "plain SharedPoolID" "plain ExclusivePoolID" "plain CloudphonePoolID" "plain DefaultPoolID"
  by (simp_all add: pool_ids)

lemma valid_env:
  assumes "plain n" "plain v"
  shows "json_valid (Value (env_patch i a n v))"
proof (cases a)
  case True
  have "json_value 4 (Value (env_patch i True n v)) = Some []"
    using assms by (simp add: env_patch_def Let_def json_eval)
  then show ?thesis using True by (intro json_validI [of 4 _ "[]"]) (simp_all add: env_patch_def Let_def)
next
  case False
  have "json_value 6 (Value (env_patch i False n v)) = Some []"
    using assms by (simp add: env_patch_def Let_def json_eval)
  then show ?thesis using False by (intro json_validI [of 6 _ "[]"]) (simp_all add: env_patch_def Let_def)
qed

lemma valid_limit: "p \<in> set (patchCPULimit t [] i) \<Longrightarrow> json_valid (Value p)"
  using json_validI [of 1 "Value p" "[]"] plain_Itoa [of t]
  by (auto simp: patchCPULimit_def json_eval)

lemma valid_mounts:
  assumes "plain starter" "plain n"
  shows "p \<in> set (mount_patches starter i n) \<Longrightarrow> json_valid (Value p)"
  using json_validI [of 8 "Value p" "[]"] assms
  by (auto simp: mount_patches_def Let_def add_patch_def json_eval)

lemma valid_command: "plain starter \<Longrightarrow> json_valid (''[ '' @ quote # starter @ quote # '' ]'')"
  by (rule json_validI [of 3 _ "[]"]) (simp_all add: json_eval)

lemma valid_volume:
  assumes "plain (p_Namespace pod)" "plain (p_Name pod)" "plain (c_Name c)"
  shows "json_valid (Value (volume_patch pod c))"
  using assms by (intro json_validI [of 8 _ "[]"]) (simp_all add: volume_patch_def add_patch_def json_eval)

lemma valid_volumes:
  assumes "plain starter" "plain (p_Namespace pod)" "plain (p_Name pod)" "\<forall>c \<in> set (p_Containers pod). plain (c_Name c)"
  shows "p \<in> set (patchVolumesForPinning starter [] pod) \<Longrightarrow> json_valid (Value p)"
  using assms json_validI [of 20 "Value p" "[]"] valid_volume [of pod]
  by (auto simp: patchVolumesForPinning_def add_patch_def json_eval)

text \<open>Pods whose names and commands can be pasted between quotes.\<close>

definition container_plain :: "container \<Rightarrow> bool" where
  "container_plain c \<longleftrightarrow> plain (c_Name c) \<and> (\<forall>w \<in> set (c_Command c @ c_Args c). plain w)"

definition pod_plain :: "string \<Rightarrow> pod \<Rightarrow> bool" where
  "pod_plain starter pod \<longleftrightarrow> plain starter \<and> plain (p_Namespace pod) \<and> plain (p_Name pod) \<and>
     (\<forall>c \<in> set (p_Containers pod). container_plain c)"

abbreviation all_valid :: "patch list \<Rightarrow> bool" where
  "all_valid l \<equiv> \<forall>p \<in> set l. json_valid (Value p)"

lemma patchCPULimit_append: "patchCPULimit t l i = l @ patchCPULimit t [] i"
  by (simp add: patchCPULimit_def)

lemma all_valid_limit: "all_valid l \<Longrightarrow> all_valid (setRequestLimit cs q pcs r l i)"
  unfolding setRequestLimit_def by (subst patchCPULimit_append) (auto dest: valid_limit)

lemma all_valid_env: "all_valid l \<Longrightarrow> all_valid (patchContainerEnv prm b l i c)"
  by (auto simp: patchContainerEnv_def pool_env_value_def intro!: valid_env)

lemma all_valid_pinning:
  assumes "plain starter" "container_plain c" "all_valid l"
  shows "all_valid (patchContainerForPinning starter ann l i c)"
  using assms valid_mounts [of starter "c_Name c"] valid_env [of "''CONTAINER_NAME''" "c_Name c"]
    valid_command [of starter] valid_args [of c]
  by (auto simp: patchContainerForPinning_def container_plain_def add_patch_def)

lemma patchVolumesForPinning_append:
  "patchVolumesForPinning starter l pod = l @ patchVolumesForPinning starter [] pod"
  by (simp add: patchVolumesForPinning_def)

lemma all_valid_volumes:
  "pod_plain starter pod \<Longrightarrow> all_valid l \<Longrightarrow> all_valid (patchVolumesForPinning starter l pod)"
  by (subst patchVolumesForPinning_append)
    (auto simp: pod_plain_def container_plain_def dest: valid_volumes [rotated 4])

lemma patch_containers_valid:
  assumes "plain (processStarterPath env)" "\<forall>c \<in> set cs. container_plain c" "all_valid l"
  shows "all_valid (fst (patch_containers env pcs prm ann l added i cs)) \<and>
    (snd (patch_containers env pcs prm ann l added i cs) \<longleftrightarrow> added \<or> (\<exists>c \<in> set cs. pinning_needed prm ann c))"
  using assms
proof (induction cs arbitrary: l added i)
  case (Cons c cs)
  define r where "r = requests_of prm (c_Name c)"
  define l1 where "l1 = setRequestLimit (we_cpuset env) (cfsQuotas env) pcs r l i"
  define pin where "pin = pinning_needed prm ann c"
  define l2 where "l2 = (if pin then patchContainerForPinning (processStarterPath env) ann l1 i c else l1)"
  define l3 where "l3 = (if sharedCPURequests r > 0 \<or> exclusiveCPURequests r > 0 \<or> cloudphoneCPURequests r > 0
    then patchContainerEnv prm pin l2 i c else l2)"
  have step: "patch_containers env pcs prm ann l added i (c # cs) =
      patch_containers env pcs prm ann l3 (added \<or> pin) (i + 1) cs"
    by (simp add: Let_def r_def l1_def l2_def l3_def pin_def)
  have "all_valid l1" using Cons.prems(3) unfolding l1_def by (rule all_valid_limit)
  then have "all_valid l2"
    using all_valid_pinning [of "processStarterPath env" c l1 ann i] Cons.prems(1,2)
    by (cases pin) (simp_all add: l2_def)
  then have "all_valid l3" unfolding l3_def using all_valid_env by (cases "0 < sharedCPURequests r \<or>
    exclusiveCPURequests r > 0 \<or> cloudphoneCPURequests r > 0") simp_all
  from Cons.IH [OF Cons.prems(1) _ this, of "added \<or> pin" "i + 1"] Cons.prems(2) step show ?case
    by (auto simp: pin_def)
qed simp

lemma pinning_needed_exists: "ContainerExists ann (c_Name c) \<Longrightarrow> pinning_needed prm ann c"
  by (simp add: pinning_needed_def)

lemma finish_response_valid: "all_valid l \<Longrightarrow> Allowed (finish_response l)"
  by (simp add: finish_response_def)

lemma finish_response_patches:
  "(\<forall>l. Patch (finish_response l') = Some l \<longrightarrow> l \<noteq> [] \<and> all_valid l) \<and>
   (Allowed (finish_response l') \<longleftrightarrow> Message (finish_response l') = None) \<and>
   (\<not> Allowed (finish_response l') \<longrightarrow> Patch (finish_response l') = None)"
  by (simp add: finish_response_def toAdmissionResponse_def)

text \<open>A response that carries patches only when it allows, and a message only when it does not.\<close>

definition response_wf :: "admission_response \<Rightarrow> bool" where
  "response_wf r \<longleftrightarrow> (\<forall>l. Patch r = Some l \<longrightarrow> l \<noteq> [] \<and> all_valid l) \<and> (Allowed r \<longleftrightarrow> Message r = None) \<and>
     (\<not> Allowed r \<longrightarrow> Patch r = None)"

lemma response_wf_error [simp]: "response_wf (toAdmissionResponse e)" "\<not> Allowed (toAdmissionResponse e)"
  by (simp_all add: response_wf_def toAdmissionResponse_def)

lemma mutate_pod_wf: "response_wf (mutate_pod env pod prm ann ex)"
  using finish_response_patches by (auto simp: mutate_pod_def Let_def response_wf_def toAdmissionResponse_def split: prod.splits)

text \<open>Whether any container is started through the process starter.\<close>

lemma patch_containers_added:
  "snd (patch_containers env pcs prm ann l added i cs) \<longleftrightarrow> added \<or> (\<exists>c \<in> set cs. pinning_needed prm ann c)"
  by (induction cs arbitrary: l added i) (auto simp: Let_def)

lemma mutate_pod_unpinned:
  assumes "\<forall>c \<in> set (p_Containers pod). \<not> pinning_needed prm ann c"
  shows "\<not> Allowed (mutate_pod env pod prm ann True)"
proof -
  define pcs where "pcs = (case ReadAllPoolConfigs (we_cpuset env) (we_pools env) of Ok pcs \<Rightarrow> Some pcs | _ \<Rightarrow> None)"
  obtain l added where p: "patch_containers env pcs prm ann [] False 0 (p_Containers pod) = (l, added)" by fastforce
  with patch_containers_added [of env pcs prm ann "[]" False 0 "p_Containers pod"] assms have "\<not> added" by simp
  with p show ?thesis by (simp add: mutate_pod_def pcs_def [symmetric])
qed

lemma mutate_pod_allowed:
  assumes "pod_plain (processStarterPath env) pod"
    and "ex \<longrightarrow> (\<exists>c \<in> set (p_Containers pod). pinning_needed prm ann c)"
  shows "Allowed (mutate_pod env pod prm ann ex)"
proof -
  define pcs where "pcs = (case ReadAllPoolConfigs (we_cpuset env) (we_pools env) of Ok pcs \<Rightarrow> Some pcs | _ \<Rightarrow> None)"
  obtain l added where p: "patch_containers env pcs prm ann [] False 0 (p_Containers pod) = (l, added)" by fastforce
  have valid: "all_valid l" and pin: "added \<longleftrightarrow> (\<exists>c \<in> set (p_Containers pod). pinning_needed prm ann c)"
    using patch_containers_valid [of env "p_Containers pod" "[]" pcs prm ann False 0] p assms(1)
    by (auto simp: pod_plain_def)
  have "ex \<Longrightarrow> added" using assms(2) pin by blast
  with p valid all_valid_volumes [OF assms(1) valid] show ?thesis
    by (auto simp: mutate_pod_def pcs_def [symmetric] Let_def intro!: finish_response_valid)
qed

text \<open>What an annotated pod has to satisfy.\<close>

definition annotation_accepted :: "'s webhook_env \<Rightarrow> pod \<Rightarrow> pool_request_map \<Rightarrow> string \<Rightarrow> bool" where
  "annotation_accepted env pod prm s \<longleftrightarrow>
     (\<exists>ann. Decode (we_unmarshal env) NewCPUAnnotation s = (ann, None) \<and> validateAnnotation prm ann = None \<and>
        (\<exists>c \<in> set (p_Containers pod). pinning_needed prm ann c))"

text \<open>C24: The verdict on a pod. Whatever the pod, an allowed response has no message, its patches, if any, are
  all well-formed JSON values, and a refusal has a message and no patches. A pod is allowed only when its
  pool limits are numbers and its CPU annotation, if it has one, decodes, agrees with the requests and
  leads to a container that is started through the process starter. For pods whose names, commands and arguments
  contain no quote, backslash or control character this is also enough.\<close>

theorem mutatePods_admits:
  assumes "rq_Resource req = ([], ''v1'', ''pods'')" "we_decode_pod env (rq_Raw req) = Inr pod"
  shows "\<exists>r. mutatePods env req = Some r \<and>
    (\<forall>l. Patch r = Some l \<longrightarrow> Allowed r \<and> l \<noteq> [] \<and> (\<forall>p \<in> set l. json_valid (Value p))) \<and> (Allowed r \<longleftrightarrow> Message r = None) \<and>
    (Allowed r \<longrightarrow> all_numbers (p_Containers pod) \<and>
       (\<forall>s prm. map_of (p_Annotations pod) annotationNameFromConfig = Some s \<and> getCPUPoolRequests pod = Inr prm \<longrightarrow>
          annotation_accepted env pod prm s)) \<and>
    (pod_plain (processStarterPath env) pod \<and> all_numbers (p_Containers pod) \<and>
       (\<forall>s prm. map_of (p_Annotations pod) annotationNameFromConfig = Some s \<and> getCPUPoolRequests pod = Inr prm \<longrightarrow>
          annotation_accepted env pod prm s) \<longrightarrow> Allowed r)"
proof (cases "getCPUPoolRequests pod")
  case (Inl e)
  then have "\<not> all_numbers (p_Containers pod)"
    using requests_loop_Inr_iff [of "[]" "p_Containers pod"] by (auto simp: getCPUPoolRequests_def)
  with assms Inl show ?thesis by (simp add: mutatePods_def toAdmissionResponse_def)
next
  case (Inr prm)
  then have num: "all_numbers (p_Containers pod)"
    using requests_loop_Inr_iff [of "[]" "p_Containers pod"] by (auto simp: getCPUPoolRequests_def)
  define verdict where "verdict \<longleftrightarrow> (\<forall>s. map_of (p_Annotations pod) annotationNameFromConfig = Some s \<longrightarrow> annotation_accepted env pod prm s)"
  have "\<exists>r. mutatePods env req = Some r \<and> response_wf r \<and> (Allowed r \<longrightarrow> verdict) \<and>
    (pod_plain (processStarterPath env) pod \<and> verdict \<longrightarrow> Allowed r)"
  proof (cases "map_of (p_Annotations pod) annotationNameFromConfig")
    case None
    with assms Inr show ?thesis
      by (simp add: mutatePods_def verdict_def mutate_pod_wf mutate_pod_allowed)
  next
    case (Some s)
    obtain ann err where d: "Decode (we_unmarshal env) NewCPUAnnotation s = (ann, err)" by fastforce
    show ?thesis
    proof (cases "err = None \<and> validateAnnotation prm ann = None")
      case False
      then have "\<not> verdict" using Some d by (auto simp: verdict_def annotation_accepted_def)
      with False assms Inr Some d show ?thesis by (cases err) (auto simp: mutatePods_def split: option.splits)
    next
      case True
      then have v: "verdict \<longleftrightarrow> (\<exists>c \<in> set (p_Containers pod). pinning_needed prm ann c)"
        using Some d by (auto simp: verdict_def annotation_accepted_def)
      have "mutatePods env req = Some (mutate_pod env pod prm ann True)"
        using True assms Inr Some d by (simp add: mutatePods_def)
      with v mutate_pod_wf mutate_pod_unpinned mutate_pod_allowed [of env pod True prm ann] show ?thesis by blast
    qed
  qed
  with Inr num show ?thesis by (auto simp: response_wf_def verdict_def)
qed

definition exclusive_pod :: "string list \<Rightarrow> pod" where
  "exclusive_pod cmd = demo_pod [demo_container ''c'' cmd [(''bonc.k8s.io/exclusive'', ''2'')]] []"

theorem mutatePods_admits_witness:
  "\<exists>r l. mutatePods (demo_env (exclusive_pod [''sleep'', ''10''])) demo_request = Some r \<and> Allowed r \<and>
     Patch r = Some l \<and> filter (\<lambda>p. json_valid (Value p)) l = l"
proof -
  let ?pod = "exclusive_pod [''sleep'', ''10'']"
  have h: "rq_Resource demo_request = ([], ''v1'', ''pods'')"
    "we_decode_pod (demo_env ?pod) (rq_Raw demo_request) = Inr ?pod" by (simp_all add: demo_env_def demo_request_def)
  have plain: "pod_plain (processStarterPath (demo_env ?pod)) ?pod" "all_numbers (p_Containers ?pod)" by code_simp+
  have none: "map_of (p_Annotations ?pod) annotationNameFromConfig = None" by code_simp
  have "case mutatePods (demo_env ?pod) demo_request of Some r \<Rightarrow> Patch r \<noteq> None | None \<Rightarrow> False" by code_simp
  then obtain r l where r: "mutatePods (demo_env ?pod) demo_request = Some r" "Patch r = Some l"
    by (auto split: option.splits)
  with mutatePods_admits [OF h] plain none show ?thesis by (auto simp: filter_id_conv)
qed

text \<open>A command line with a quote in it, such as \<^verbatim>\<open>sh -c "echo \"hi\""\<close>, is pasted into the patch unescaped:
  a pod that runs it on exclusive CPUs is refused with a marshalling error.\<close>

theorem quoted_command_refused:
  "mutatePods (demo_env (exclusive_pod [''sh'', ''-c'', ''echo '' @ [quote] @ ''hi'' @ [quote]])) demo_request =
     Some (toAdmissionResponse PatchMarshalError)"
  by code_simp

text \<open>For JSON bodies the handler dereferences a nil pointer for every review without a request, for every
  review of a resource that is not a pod, and for every body whose review cannot be decoded into a request;
  for a decoded pod review it answers with the request's identifier.\<close>

theorem serveMutatePod_outcome:
  assumes "we_decode_review env body = (request, err)"
  shows "serveMutatePod env ''application/json'' body =
    (case request of
       None \<Rightarrow> Panic NilDereference
     | Some req \<Rightarrow>
         (if err = None \<and> rq_Resource req \<noteq> ([], ''v1'', ''pods'') then Panic NilDereference
          else Ok (Some ((case err of Some e \<Rightarrow> toAdmissionResponse (DeserializeError e)
                          | None \<Rightarrow> the (mutatePods env req))\<lparr>resp_UID := rq_UID req\<rparr>))))"
  using assms by (auto simp: serveMutatePod_def Let_def mutatePods_def split: option.splits)

theorem serveMutatePod_outcome_witness:
  "serveMutatePod ((demo_env (exclusive_pod []))\<lparr>we_decode_review := (\<lambda>b. (None, None))\<rparr>) ''application/json'' ''{}'' =
     Panic NilDereference"
  by (subst serveMutatePod_outcome [of _ _ None None]) simp_all

section \<open>The CFS limit of a container\<close>

lemma shared_pool_name_unique:
  assumes "(n, s) \<in> set ps" "\<forall>(m, t) \<in> set ps. t = s \<longrightarrow> m = n"
  shows "shared_pool_name s z ps = n"
proof -
  have "\<forall>(m, t) \<in> set ps. t = s \<longrightarrow> m = n \<Longrightarrow> (n, s) \<in> set ps \<or> z = n \<Longrightarrow> shared_pool_name s z ps = n"
    by (induction s z ps rule: shared_pool_name.induct) auto
  with assms show ?thesis by blast
qed

text \<open>The size of the pool \<open>n\<close> in thousandths of a CPU, in the configurations that have it.\<close>

definition pool_sizes :: "'s cpuset_api \<Rightarrow> string \<Rightarrow> 's pool_config list \<Rightarrow> int list" where
  "pool_sizes cs n pcs = map (\<lambda>p. 1000 * cs_Size cs (CPUset p)) (List.map_filter (\<lambda>pc. map_of (Pools pc) n) pcs)"

lemma max_pool_size_eq:
  assumes "\<forall>s \<in> set (pool_sizes cs n pcs). in_int64 s"
  shows "max_pool_size cs n m pcs = Max (insert m (set (pool_sizes cs n pcs)))"
  using assms
proof (induction pcs arbitrary: m)
  case (Cons pc pcs)
  show ?case
  proof (cases "map_of (Pools pc) n")
    case None
    with Cons show ?thesis by (simp add: pool_sizes_def map_filter_simps)
  next
    case (Some p)
    let ?s = "1000 * cs_Size cs (CPUset p)"
    have sizes: "pool_sizes cs n (pc # pcs) = ?s # pool_sizes cs n pcs"
      using Some by (simp add: pool_sizes_def map_filter_simps)
    then have s: "wrap64 (cs_Size cs (CPUset p) * 1000) = ?s"
      using Cons.prems by (simp add: mult.commute)
    have "max_pool_size cs n m (pc # pcs) = max_pool_size cs n (max m ?s) pcs"
      using Some s by (simp add: max_def)
    also have "\<dots> = Max (insert (max m ?s) (set (pool_sizes cs n pcs)))"
      using Cons sizes by simp
    also have "\<dots> = Max (insert m (set (pool_sizes cs n (pc # pcs))))"
      unfolding sizes by (cases "set (pool_sizes cs n pcs) = {}") (simp_all add: max.assoc)
    finally show ?thesis .
  qed
qed (simp add: pool_sizes_def map_filter_simps)

text \<open>C27: For a container with both exclusive and shared requests, when the shared request differs from
  every other pool request, the limit is 1000 per exclusive CPU plus the whole size of the
  requested shared pool, the largest over all configurations; the shared threads can then not
  use up the quota of the exclusive ones.\<close>

theorem mixed_limit_exact:
  assumes "exclusiveCPURequests r > 0" "sharedCPURequests r > 0" "(n, sharedCPURequests r) \<in> set (pools r)"
    "\<forall>(m, t) \<in> set (pools r). t = sharedCPURequests r \<longrightarrow> m = n"
    "\<forall>s \<in> set (pool_sizes cs n pcs). in_int64 s"
    "in_int64 (1000 * exclusiveCPURequests r + Max (insert 0 (set (pool_sizes cs n pcs))))"
  shows "totalCFSLimit cs QuotaAll (Some pcs) r =
    1000 * exclusiveCPURequests r + Max (insert 0 (set (pool_sizes cs n pcs)))"
proof -
  have "getMaxSharedPoolLimit cs (Some pcs) r = Max (insert 0 (set (pool_sizes cs n pcs)))"
    using assms(3-5) by (simp add: getMaxSharedPoolLimit_def shared_pool_name_unique max_pool_size_eq)
  with assms(1,2,6) show ?thesis by (simp add: totalCFSLimit_def)
qed

definition mixed_config :: "int list pool_config" where
  "mixed_config = \<lparr>Pools = [named_pool ''shared'' [0, 1, 2, 3], named_pool ''exclusive'' [4, 5]], NodeSelector = []\<rparr>"

definition mixed_requests :: "int \<Rightarrow> int \<Rightarrow> container_pool_requests" where
  "mixed_requests s e =
     \<lparr>sharedCPURequests = s, exclusiveCPURequests = e, cloudphoneCPURequests = 0,
      pools = [(''shared'', s), (''exclusive'', e)]\<rparr>"

theorem mixed_limit_exact_witness:
  "totalCFSLimit ref_cpuset QuotaAll (Some [mixed_config]) (mixed_requests 500 2) = 6000"
proof -
  have "pool_sizes ref_cpuset ''shared'' [mixed_config] = [4000]" by code_simp
  then show ?thesis
    using mixed_limit_exact [of "mixed_requests 500 2" "''shared''" ref_cpuset "[mixed_config]"]
    by (simp add: mixed_requests_def)
qed

text \<open>The shared pool is recognised by its number only. When an exclusive pool is requested with the
  same number the pool that the map visits last is taken: here the limit is computed from the
  exclusive pool, 4000 instead of 6000.\<close>

theorem mixed_limit_confused:
  "totalCFSLimit ref_cpuset QuotaAll (Some [mixed_config]) (mixed_requests 2 2) = 4000 \<and>
   totalCFSLimit ref_cpuset QuotaAll (Some [mixed_config])
     ((mixed_requests 2 2)\<lparr>pools := rev (pools (mixed_requests 2 2))\<rparr>) = 6000"
  by code_simp

text \<open>With quotas for shared containers only, and with any other value than \<^verbatim>\<open>all\<close>, a container of both kinds of
  pools is not left without a quota: it gets the shared part alone, which throttles its exclusive
  processes as well.\<close>

theorem mixed_quota_throttled:
  assumes "quotas \<noteq> QuotaAll" "exclusiveCPURequests r > 0" "sharedCPURequests r > 0"
  shows "setRequestLimit cs quotas pcs r l i = patchCPULimit (sharedCPURequests r) l i"
  using assms by (simp add: setRequestLimit_def totalCFSLimit_def)

end
