(* ===== verification/Access_Log.thy ===== *)
theory Access_Log
  imports Go_Prelude
begin

text \<open>
  The request log of the webhook, \<^verbatim>\<open>cmd/webhook/fasthttplog.go\<close>: six wrappers around a request handler
  that print one line after the request, three of them with colours. The handler is a parameter,
  as are the rendering of the elapsed time and of the current time.

  The lemmas show that the wrappers run the handler once and do not touch its result, and that the
  coloured formats are the plain ones with escape sequences put in.
\<close>

section \<open>Colours\<close>

abbreviation ESC :: char where "ESC \<equiv> CHR 0x1B"

definition green :: string where "green = ESC # ''[00:32m''"
definition yellow :: string where "yellow = ESC # ''[00;33m''"
definition red :: string where "red = ESC # ''[00;31m''"
definition blue :: string where "blue = ESC # ''[00;34m''"
definition white :: string where "white = ESC # ''[0m''"

definition getColorByStatus :: "int \<Rightarrow> string" where
  "getColorByStatus code =
     (if code \<ge> 200 \<and> code < 300 then green
      else if code \<ge> 300 \<and> code < 400 then blue
      else if code \<ge> 400 \<and> code < 500 then yellow
      else red)"

definition colorStatus :: "int \<Rightarrow> string" where
  "colorStatus code = getColorByStatus code @ Itoa code @ white"

definition colorMethod :: "string \<Rightarrow> int \<Rightarrow> string" where
  "colorMethod meth code = getColorByStatus code @ meth @ white"

section \<open>Formats\<close>

record http_ctx =
  h_Method :: string
  h_RequestURI :: string
  h_RemoteAddr :: string
  h_UserAgent :: string
  h_HTTP11 :: bool
  h_StatusCode :: int
  h_Body :: string

definition getHttp :: "http_ctx \<Rightarrow> string" where
  "getHttp ctx = (if h_HTTP11 ctx then ''HTTP/1.1'' else ''HTTP/1.0'')"

text \<open>The clock: the rendering of the elapsed time and of the end of the request.\<close>

record clock =
  ck_elapsed :: string
  ck_end :: string

text \<open>The state is the context and the lines printed so far.\<close>

type_synonym handler = "http_ctx \<Rightarrow> http_ctx"

definition Tiny :: "clock \<Rightarrow> handler \<Rightarrow> http_ctx \<times> string list \<Rightarrow> http_ctx \<times> string list" where
  "Tiny ck req s =
     (let ctx = req (fst s)
      in (ctx, snd s @ [h_Method ctx @ '' '' @ h_RequestURI ctx @ '' - '' @ Itoa (h_StatusCode ctx) @ '' - '' @ ck_elapsed ck]))"

definition TinyColored :: "clock \<Rightarrow> handler \<Rightarrow> http_ctx \<times> string list \<Rightarrow> http_ctx \<times> string list" where
  "TinyColored ck req s =
     (let ctx = req (fst s)
      in (ctx, snd s @ [colorMethod (h_Method ctx) (h_StatusCode ctx) @ '' '' @ h_RequestURI ctx @ '' - '' @
            colorStatus (h_StatusCode ctx) @ '' - '' @ ck_elapsed ck]))"

definition Short :: "clock \<Rightarrow> handler \<Rightarrow> http_ctx \<times> string list \<Rightarrow> http_ctx \<times> string list" where
  "Short ck req s =
     (let ctx = req (fst s)
      in (ctx, snd s @ [h_RemoteAddr ctx @ '' | '' @ getHttp ctx @ '' | '' @ h_Method ctx @ '' '' @ h_RequestURI ctx @ '' - '' @
            Itoa (h_StatusCode ctx) @ '' - '' @ ck_elapsed ck]))"

definition ShortColored :: "clock \<Rightarrow> handler \<Rightarrow> http_ctx \<times> string list \<Rightarrow> http_ctx \<times> string list" where
  "ShortColored ck req s =
     (let ctx = req (fst s)
      in (ctx, snd s @ [h_RemoteAddr ctx @ '' | '' @ getHttp ctx @ '' | '' @ colorMethod (h_Method ctx) (h_StatusCode ctx) @ '' '' @
            h_RequestURI ctx @ '' - '' @ colorStatus (h_StatusCode ctx) @ '' - '' @ ck_elapsed ck]))"

definition Combined :: "clock \<Rightarrow> handler \<Rightarrow> http_ctx \<times> string list \<Rightarrow> http_ctx \<times> string list" where
  "Combined ck req s =
     (let ctx = req (fst s)
      in (ctx, snd s @ [''['' @ ck_end ck @ ''] '' @ h_RemoteAddr ctx @ '' | '' @ getHttp ctx @ '' | '' @ h_Method ctx @ '' '' @
            h_RequestURI ctx @ '' - '' @ Itoa (h_StatusCode ctx) @ '' - '' @ ck_elapsed ck @ '' | '' @ h_UserAgent ctx]))"

definition CombinedColored :: "clock \<Rightarrow> handler \<Rightarrow> http_ctx \<times> string list \<Rightarrow> http_ctx \<times> string list" where
  "CombinedColored ck req s =
     (let ctx = req (fst s)
      in (ctx, snd s @ [''['' @ ck_end ck @ ''] '' @ h_RemoteAddr ctx @ '' | '' @ getHttp ctx @ '' | '' @
            colorMethod (h_Method ctx) (h_StatusCode ctx) @ '' '' @ h_RequestURI ctx @ '' - '' @
            colorStatus (h_StatusCode ctx) @ '' - '' @ ck_elapsed ck @ '' | '' @ h_UserAgent ctx]))"

section \<open>Coloured and plain lines\<close>

text \<open>A line without its escape sequences, each of which ends with \<^verbatim>\<open>m\<close>.\<close>

fun uncolor :: "bool \<Rightarrow> string \<Rightarrow> string" where
  "uncolor inside [] = []"
| "uncolor inside (c # s) =
     (if inside then uncolor (c \<noteq> CHR ''m'') s else if c = ESC then uncolor True s else c # uncolor False s)"

lemma uncolor_plain: "ESC \<notin> set s \<Longrightarrow> uncolor False (s @ t) = s @ uncolor False t"
  by (induction s) auto

lemma uncolor_color: "uncolor False (getColorByStatus code @ t) = uncolor False t"
  by (simp add: getColorByStatus_def green_def yellow_def red_def blue_def)

lemma uncolor_white: "uncolor False (white @ t) = uncolor False t"
  by (simp add: white_def)

lemma Itoa_no_ESC: "ESC \<notin> set (Itoa i)"
  using nat_dec_digits [of ESC] by (auto simp: Itoa_def is_digit_def)

lemma uncolor_parts:
  "ESC \<notin> set m \<Longrightarrow> uncolor False (colorMethod m code @ t) = m @ uncolor False t"
  "uncolor False (colorStatus code @ t) = Itoa code @ uncolor False t"
  by (simp_all add: colorMethod_def colorStatus_def uncolor_color uncolor_plain uncolor_white Itoa_no_ESC)

definition no_escapes :: "clock \<Rightarrow> http_ctx \<Rightarrow> bool" where
  "no_escapes ck ctx \<longleftrightarrow> (\<forall>s \<in> {h_Method ctx, h_RequestURI ctx, h_RemoteAddr ctx, h_UserAgent ctx, ck_elapsed ck, ck_end ck}. ESC \<notin> set s)"

text \<open>The log formats run the handler once, leave its result alone and print one line; a coloured
  format prints the line of its plain counterpart with escape sequences put in.\<close>

theorem log_formats:
  assumes "no_escapes ck (req (fst s))"
    and "(plainf, colored) \<in> {(Tiny, TinyColored), (Short, ShortColored), (Combined, CombinedColored)}"
  shows "\<exists>line cline. plainf ck req s = (req (fst s), snd s @ [line]) \<and> colored ck req s = (req (fst s), snd s @ [cline]) \<and>
    uncolor False cline = line"
proof -
  have e: "uncolor False s = s" if "ESC \<notin> set s" for s using uncolor_plain [OF that, of "[]"] by simp
  have h: "ESC \<notin> set (getHttp c)" for c by (simp add: getHttp_def)
  show ?thesis
    using assms
    by (auto simp: Tiny_def TinyColored_def Short_def ShortColored_def Combined_def CombinedColored_def Let_def no_escapes_def
        uncolor_parts uncolor_plain h e)
qed

theorem log_formats_witness:
  "\<exists>line. TinyColored \<lparr>ck_elapsed = ''1ms'', ck_end = ''now''\<rparr> (\<lambda>c. c\<lparr>h_StatusCode := 404\<rparr>)
     (\<lparr>h_Method = ''GET'', h_RequestURI = ''/'', h_RemoteAddr = ''a'', h_UserAgent = ''b'', h_HTTP11 = True, h_StatusCode = 0, h_Body = []\<rparr>, []) =
     (\<lparr>h_Method = ''GET'', h_RequestURI = ''/'', h_RemoteAddr = ''a'', h_UserAgent = ''b'', h_HTTP11 = True, h_StatusCode = 404, h_Body = []\<rparr>, [line])"
proof -
  let ?s = "(\<lparr>h_Method = ''GET'', h_RequestURI = ''/'', h_RemoteAddr = ''a'', h_UserAgent = ''b'', h_HTTP11 = True, h_StatusCode = 0, h_Body = []\<rparr>, [])"
  let ?ck = "\<lparr>ck_elapsed = ''1ms'', ck_end = ''now''\<rparr>" and ?req = "\<lambda>c :: http_ctx. c\<lparr>h_StatusCode := 404\<rparr>"
  have "no_escapes ?ck (?req (fst ?s))" by (simp add: no_escapes_def)
  then show ?thesis
    using log_formats [where ck = ?ck and req = ?req and s = ?s and plainf = Tiny and colored = TinyColored] by auto
qed

end
