(* ===== verification/Command_Line.thy ===== *)
theory Command_Line
  imports Go_Prelude
begin

text \<open>
  The command line of the programs, as the package \<^verbatim>\<open>flag\<close> of the Go library reads it for the flags
  the sources define with \<^verbatim>\<open>flag.StringVar\<close>. Flags that other packages register, such as those of
  the logging package, are a parameter: their kind and which values they accept.

  The lemmas show that both ways of writing a list of flags are read back, that of two values for
  one flag the last one counts, and that nothing behind the first operand is read.
\<close>

section \<open>Parsing\<close>

datatype flag_def =
  StringVar
| ForeignFlag bool "string \<Rightarrow> bool"

text \<open>\<^verbatim>\<open>flag.Parse\<close> ends the process on an error: with status 2, and with status 0 for a request for help.\<close>

datatype flag_error = BadFlagSyntax string | FlagNotDefined string | FlagNeedsArgument string
  | InvalidFlagValue string string | HelpRequested

type_synonym flag_values = "(string \<times> string) list"

text \<open>The name and the value of a flag argument without its dashes.\<close>

definition flag_name :: "string \<Rightarrow> string" where
  "flag_name body = takeWhile (\<lambda>c. c \<noteq> CHR ''='') body"

definition flag_inline_value :: "string \<Rightarrow> string option" where
  "flag_inline_value body =
     (case dropWhile (\<lambda>c. c \<noteq> CHR ''='') body of [] \<Rightarrow> None | _ # v \<Rightarrow> Some v)"

text \<open>What an argument is: an operand, the terminator, or a flag with the text behind its dashes.\<close>

datatype arg_class = Operand | Terminator | FlagArg string

definition arg_kind :: "string \<Rightarrow> arg_class" where
  "arg_kind s =
     (if length s < 2 \<or> hd s \<noteq> CHR ''-'' then Operand
      else if s = ''--'' then Terminator
      else if s ! 1 = CHR ''-'' then FlagArg (drop 2 s)
      else FlagArg (drop 1 s))"

text \<open>The values set so far, the latest first.\<close>

fun parse_flags :: "(string \<Rightarrow> flag_def option) \<Rightarrow> flag_values \<Rightarrow> string list \<Rightarrow> (flag_error, flag_values) outcome" where
  "parse_flags formal vs [] = Ok vs"
| "parse_flags formal vs (s # args) =
     (case arg_kind s of
        Operand \<Rightarrow> Ok vs
      | Terminator \<Rightarrow> Ok vs
      | FlagArg body \<Rightarrow>
          (if body = [] \<or> hd body = CHR ''-'' \<or> hd body = CHR ''='' then Err (BadFlagSyntax s)
           else
             (let name = flag_name body
              in case formal name of
                   None \<Rightarrow> Err (if name = ''help'' \<or> name = ''h'' then HelpRequested else FlagNotDefined name)
                 | Some (ForeignFlag True accepts) \<Rightarrow>
                     (let v = (case flag_inline_value body of Some v \<Rightarrow> v | None \<Rightarrow> ''true'')
                      in if accepts v then parse_flags formal vs args else Err (InvalidFlagValue name v))
                 | Some (ForeignFlag False accepts) \<Rightarrow>
                     (case flag_inline_value body of
                        Some v \<Rightarrow> (if accepts v then parse_flags formal vs args else Err (InvalidFlagValue name v))
                      | None \<Rightarrow>
                          (case args of
                             [] \<Rightarrow> Err (FlagNeedsArgument name)
                           | v # rest \<Rightarrow> (if accepts v then parse_flags formal vs rest else Err (InvalidFlagValue name v))))
                 | Some StringVar \<Rightarrow>
                     (case flag_inline_value body of
                        Some v \<Rightarrow> parse_flags formal ((name, v) # vs) args
                      | None \<Rightarrow>
                          (case args of
                             [] \<Rightarrow> Err (FlagNeedsArgument name)
                           | v # rest \<Rightarrow> parse_flags formal ((name, v) # vs) rest)))))"

definition flag_value :: "flag_values \<Rightarrow> string \<Rightarrow> string \<Rightarrow> string" where
  "flag_value vs name dflt = (case map_of vs name of Some v \<Rightarrow> v | None \<Rightarrow> dflt)"

text \<open>The flags of a program: its own string flags, and those of the packages it imports.\<close>

definition program_flags :: "string list \<Rightarrow> (string \<Rightarrow> flag_def option) \<Rightarrow> string \<Rightarrow> flag_def option" where
  "program_flags own foreign name = (if name \<in> set own then Some StringVar else foreign name)"

datatype parsed = Flags flag_values | ExitStatus nat

definition flag_Parse :: "(string \<Rightarrow> flag_def option) \<Rightarrow> string list \<Rightarrow> parsed" where
  "flag_Parse formal args =
     (case parse_flags formal [] args of
        Ok vs \<Rightarrow> Flags vs
      | Err e \<Rightarrow> ExitStatus (if e = HelpRequested then 0 else 2)
      | Panic _ \<Rightarrow> ExitStatus 2)"

section \<open>Reading back a command line\<close>

definition flag_ident :: "string \<Rightarrow> bool" where
  "flag_ident n \<longleftrightarrow> n \<noteq> [] \<and> hd n \<noteq> CHR ''-'' \<and> CHR ''='' \<notin> set n"

text \<open>The ways to write the value of a flag.\<close>

datatype flag_style = TwoWords | OneWord

fun render_flag :: "flag_style \<Rightarrow> string \<times> string \<Rightarrow> string list" where
  "render_flag TwoWords (n, v) = [''--'' @ n, v]"
| "render_flag OneWord (n, v) = [''--'' @ n @ ''='' @ v]"

lemma arg_kind_flag [simp]: "n \<noteq> [] \<Longrightarrow> arg_kind (CHR ''-'' # CHR ''-'' # n) = FlagArg n"
  by (simp add: arg_kind_def)

lemma flag_ident_body:
  assumes "flag_ident n"
  shows "flag_name n = n" "flag_inline_value n = None"
    "flag_name (n @ CHR ''='' # v) = n" "flag_inline_value (n @ CHR ''='' # v) = Some v"
proof -
  have n: "\<And>c. c \<in> set n \<Longrightarrow> c \<noteq> CHR ''=''" using assms by (auto simp: flag_ident_def)
  have "flag_name n = n" "dropWhile (\<lambda>c. c \<noteq> CHR ''='') n = []"
    using n by (simp_all add: flag_name_def takeWhile_eq_all_conv dropWhile_eq_Nil_conv)
  then show "flag_name n = n" "flag_inline_value n = None" by (simp_all only: flag_inline_value_def list.case)
  have "takeWhile (\<lambda>c. c \<noteq> CHR ''='') (n @ CHR ''='' # v) = n" "dropWhile (\<lambda>c. c \<noteq> CHR ''='') (n @ CHR ''='' # v) = CHR ''='' # v"
    using n by (simp_all add: takeWhile_append2 dropWhile_append2)
  then show "flag_name (n @ CHR ''='' # v) = n" "flag_inline_value (n @ CHR ''='' # v) = Some v"
    by (simp_all add: flag_name_def flag_inline_value_def)
qed

lemma parse_flags_step:
  assumes "flag_ident n" "formal n = Some StringVar"
  shows "parse_flags formal vs (render_flag style (n, v) @ args) = parse_flags formal ((n, v) # vs) args"
proof -
  have n: "n \<noteq> []" "hd n \<noteq> CHR ''-''" "CHR ''='' \<notin> set n"
    using assms(1) by (simp_all add: flag_ident_def)
  then have "hd n \<noteq> CHR ''=''" by (metis hd_in_set)
  show ?thesis
    using assms(2) n \<open>hd n \<noteq> CHR ''=''\<close> flag_ident_body [OF assms(1)] by (cases style) simp_all
qed

lemma parse_flags_rendered:
  assumes "\<forall>(style, n, v) \<in> set fs. flag_ident n \<and> formal n = Some StringVar"
  shows "parse_flags formal vs (concat (map (\<lambda>(style, f). render_flag style f) fs) @ args) =
    parse_flags formal (rev (map snd fs) @ vs) args"
  using assms
proof (induction fs arbitrary: vs)
  case (Cons f fs)
  obtain style n v where f: "f = (style, n, v)" by (cases f)
  with Cons show ?case by (simp add: parse_flags_step)
qed simp

lemma parse_flags_operand: "arg_kind s = Operand \<or> arg_kind s = Terminator \<Longrightarrow> parse_flags formal vs (s # args) = Ok vs"
  by auto

text \<open>Whatever mixture of the two styles the string flags of a program are written in, the parser reads
  their values back, the last value of a flag counting, and reads nothing behind the first
  operand or the terminator.\<close>

theorem flag_Parse_roundtrip:
  assumes "\<forall>(style, n, v) \<in> set fs. flag_ident n \<and> n \<in> set own"
    and "rest = [] \<or> arg_kind (hd rest) \<in> {Operand, Terminator}"
  shows "\<exists>vs. flag_Parse (program_flags own foreign) (concat (map (\<lambda>(style, f). render_flag style f) fs) @ rest) = Flags vs \<and>
    (\<forall>n d. flag_value vs n d = (case map_of (rev (map snd fs)) n of Some v \<Rightarrow> v | None \<Rightarrow> d))"
proof -
  have fs: "\<forall>(style, n, v) \<in> set fs. flag_ident n \<and> program_flags own foreign n = Some StringVar"
    using assms(1) by (auto simp: program_flags_def)
  have "parse_flags (program_flags own foreign) (rev (map snd fs) @ []) rest = Ok (rev (map snd fs))"
    using assms(2) parse_flags_operand by (cases rest) auto
  with parse_flags_rendered [OF fs, of "[]" rest] show ?thesis
    by (simp add: flag_Parse_def flag_value_def)
qed

theorem flag_Parse_roundtrip_witness:
  "\<exists>vs. flag_Parse (program_flags [''poolconfigs'', ''cpusetroot''] (\<lambda>n. None))
      [''--poolconfigs=/etc/cpu-pooler'', ''--cpusetroot'', ''/sys'', ''run'', ''--cpusetroot=/x''] = Flags vs \<and>
    flag_value vs ''cpusetroot'' [] = ''/sys''"
proof -
  let ?fs = "[(OneWord, ''poolconfigs'', ''/etc/cpu-pooler''), (TwoWords, ''cpusetroot'', ''/sys'')]"
    and ?rest = "[''run'', ''--cpusetroot=/x'']"
  have "arg_kind (hd ?rest) = Operand" by code_simp
  then show ?thesis
    using flag_Parse_roundtrip [of ?fs "[''poolconfigs'', ''cpusetroot'']" ?rest "\<lambda>n. None"]
    by (auto simp: flag_ident_def)
qed

end
