(* ===== verification/Webhook_Server.thy ===== *)
theory Webhook_Server
  imports Webhook Access_Log Command_Line
begin

text \<open>
  The main function of the webhook, \<^verbatim>\<open>cmd/webhook/webhook.go\<close>, and the way of a request through it: the flags,
  the key pair, the listener, the route and the log line. Loading the key pair, listening, the
  router's answer for other paths and the rendering of a review response are parameters.

  The lemmas show what the flags left out stand for, that a failed listen is a crash, and that a
  started webhook answers every review of a pod and logs it in one line.
\<close>

section \<open>Start\<close>

definition webhook_flags :: "string list" where
  "webhook_flags = [''tls-cert-file'', ''tls-private-key-file'', ''process-starter-path'', ''cfs-quotas'']"

definition default_starter_path :: string where
  "default_starter_path = ''/opt/bin/cloudphone-process-starter''"

text \<open>How \<^verbatim>\<open>main\<close> goes on: it ends, or serves with the values of the package variables. The error of
  \<^verbatim>\<open>net.Listen\<close> is not looked at, and accepting on the nil listener dereferences it.\<close>

datatype 's webhook_start = WebhookExit nat | WebhookFatal | WebhookPanic panic | WebhookServing "'s webhook_env"

definition webhook_main ::
  "(string \<Rightarrow> flag_def option) \<Rightarrow> (string \<Rightarrow> string \<Rightarrow> bool) \<Rightarrow> (string \<Rightarrow> bool) \<Rightarrow> 's webhook_env \<Rightarrow> string list
    \<Rightarrow> 's webhook_start" where
  "webhook_main foreign loadKeyPair listen env args =
     (case flag_Parse (program_flags webhook_flags foreign) args of
        ExitStatus n \<Rightarrow> WebhookExit n
      | Flags vs \<Rightarrow>
          (let certFile = flag_value vs ''tls-cert-file'' [];
               keyFile = flag_value vs ''tls-private-key-file'' [];
               env' = env\<lparr>processStarterPath := flag_value vs ''process-starter-path'' default_starter_path,
                          cfsQuotas := flag_value vs ''cfs-quotas'' QuotaAll\<rparr>
           in if \<not> loadKeyPair certFile keyFile then WebhookFatal
              else if \<not> listen '':443'' then WebhookPanic NilDereference
              else WebhookServing env'))"

section \<open>Requests\<close>

record web_request =
  wr_Path :: string
  wr_ContentType :: string
  wr_Body :: string
  wr_ctx :: http_ctx

text \<open>The route: the handler never sets a status, which is 200 then.\<close>

definition route ::
  "(admission_response \<Rightarrow> string) \<Rightarrow> (http_ctx \<Rightarrow> http_ctx) \<Rightarrow> 's webhook_env \<Rightarrow> web_request \<Rightarrow> (unit, http_ctx) outcome" where
  "route marshal otherPath env r =
     (if wr_Path r = ''/mutating-pods'' then
        (case serveMutatePod env (wr_ContentType r) (wr_Body r) of
           Ok None \<Rightarrow> Ok ((wr_ctx r)\<lparr>h_StatusCode := 200, h_Body := []\<rparr>)
         | Ok (Some resp) \<Rightarrow> Ok ((wr_ctx r)\<lparr>h_StatusCode := 200, h_Body := marshal resp\<rparr>)
         | Err e \<Rightarrow> Err e
         | Panic p \<Rightarrow> Panic p)
      else Ok (otherPath (wr_ctx r)))"

text \<open>The log wraps the route; a panic of the handler prints no line.\<close>

definition serve ::
  "clock \<Rightarrow> (admission_response \<Rightarrow> string) \<Rightarrow> (http_ctx \<Rightarrow> http_ctx) \<Rightarrow> 's webhook_env \<Rightarrow> web_request \<Rightarrow> string list
    \<Rightarrow> (unit, http_ctx \<times> string list) outcome" where
  "serve ck marshal otherPath env r lines =
     and_then (route marshal otherPath env r) (\<lambda>ctx. Ok (Combined ck (\<lambda>_. ctx) (wr_ctx r, lines)))"

section \<open>From the command line to the answer\<close>

lemma webhook_main_parsed:
  assumes "flag_Parse (program_flags webhook_flags foreign) args = Flags vs"
    "loadKeyPair (flag_value vs ''tls-cert-file'' []) (flag_value vs ''tls-private-key-file'' [])"
  shows "webhook_main foreign loadKeyPair listen env args =
    (if listen '':443'' then WebhookServing (env\<lparr>processStarterPath := flag_value vs ''process-starter-path'' default_starter_path,
       cfsQuotas := flag_value vs ''cfs-quotas'' QuotaAll\<rparr>)
     else WebhookPanic NilDereference)"
  using assms by (simp add: webhook_main_def)

lemma tls_flags_parsed:
  "flag_Parse (program_flags webhook_flags foreign)
     (render_flag s1 (''tls-cert-file'', cert) @ render_flag s2 (''tls-private-key-file'', key)) =
     Flags [(''tls-private-key-file'', key), (''tls-cert-file'', cert)]"
proof -
  let ?fs = "[(s1, ''tls-cert-file'', cert), (s2, ''tls-private-key-file'', key)]"
  have "\<forall>(style, n, v) \<in> set ?fs. flag_ident n \<and> program_flags webhook_flags foreign n = Some StringVar"
    by (simp add: flag_ident_def program_flags_def webhook_flags_def)
  from parse_flags_rendered [OF this, of "[]" "[]"] show ?thesis by (simp add: flag_Parse_def)
qed

text \<open>Given only the key pair, the webhook provisions quotas for all containers and starts processes through
  the default starter; when the port is taken it crashes.\<close>

lemma webhook_main_defaults:
  assumes "loadKeyPair cert key"
  shows "webhook_main foreign loadKeyPair listen env
      (render_flag s1 (''tls-cert-file'', cert) @ render_flag s2 (''tls-private-key-file'', key)) =
    (if listen '':443'' then WebhookServing (env\<lparr>processStarterPath := default_starter_path, cfsQuotas := QuotaAll\<rparr>)
     else WebhookPanic NilDereference)"
  using webhook_main_parsed [where loadKeyPair = loadKeyPair and listen = listen and env = env,
    OF tls_flags_parsed [of foreign s1 cert s2 key]] assms
  by (simp add: flag_value_def)

lemma serveMutatePod_pod:
  assumes "we_decode_review env body = (Some req, None)" "rq_Resource req = ([], ''v1'', ''pods'')"
  obtains r where "mutatePods env req = Some r"
    "serveMutatePod env ''application/json'' body = Ok (Some (r\<lparr>resp_UID := rq_UID req\<rparr>))"
  using assms by (cases "mutatePods env req") (simp_all add: serveMutatePod_def mutatePods_def)

lemma Combined_logs: "\<exists>line. Combined ck (\<lambda>_. ctx) (ctx0, lines) = (ctx, lines @ [line])"
  by (simp add: Combined_def Let_def)

lemma serve_pod:
  assumes "wr_Path r = ''/mutating-pods''" "wr_ContentType r = ''application/json''"
    "serveMutatePod env ''application/json'' (wr_Body r) = Ok (Some resp)"
  shows "\<exists>line. serve ck marshal otherPath env r lines =
    Ok ((wr_ctx r)\<lparr>h_StatusCode := 200, h_Body := marshal resp\<rparr>, lines @ [line])"
  using Combined_logs [of ck "(wr_ctx r)\<lparr>h_StatusCode := 200, h_Body := marshal resp\<rparr>"] assms
  by (simp add: serve_def route_def)

text \<open>C28: A webhook started with a key pair on a free port answers every review of a pod that is sent to its
  path as JSON: with status 200 and the response computed for the pod under the id of the
  request, with quotas for all containers and the default starter, and logs one line.\<close>

theorem webhook_answers_pods:
  assumes "loadKeyPair cert key" "listen '':443''"
    and "wr_Path r = ''/mutating-pods''" "wr_ContentType r = ''application/json''"
    and "we_decode_review env (wr_Body r) = (Some req, None)" "rq_Resource req = ([], ''v1'', ''pods'')"
  shows "\<exists>env' resp line. webhook_main foreign loadKeyPair listen env
      (render_flag s1 (''tls-cert-file'', cert) @ render_flag s2 (''tls-private-key-file'', key)) = WebhookServing env' \<and>
    mutatePods (env\<lparr>processStarterPath := default_starter_path, cfsQuotas := QuotaAll\<rparr>) req = Some resp \<and>
    serve ck marshal otherPath env' r lines =
      Ok ((wr_ctx r)\<lparr>h_StatusCode := 200, h_Body := marshal (resp\<lparr>resp_UID := rq_UID req\<rparr>)\<rparr>, lines @ [line])"
proof -
  let ?env = "env\<lparr>processStarterPath := default_starter_path, cfsQuotas := QuotaAll\<rparr>"
  have "we_decode_review ?env (wr_Body r) = (Some req, None)" using assms(5) by simp
  from serveMutatePod_pod [OF this assms(6)] obtain resp where resp: "mutatePods ?env req = Some resp"
    "serveMutatePod ?env ''application/json'' (wr_Body r) = Ok (Some (resp\<lparr>resp_UID := rq_UID req\<rparr>))" .
  from serve_pod [OF assms(3,4) resp(2)] obtain line where "serve ck marshal otherPath ?env r lines =
      Ok ((wr_ctx r)\<lparr>h_StatusCode := 200, h_Body := marshal (resp\<lparr>resp_UID := rq_UID req\<rparr>)\<rparr>, lines @ [line])" by blast
  with resp(1) show ?thesis
    using webhook_main_defaults [where loadKeyPair = loadKeyPair and listen = listen, OF assms(1), of foreign env s1 s2] assms(2)
    by (intro exI [of _ ?env] exI [of _ resp] exI [of _ line]) simp
qed

definition demo_ctx :: http_ctx where
  "demo_ctx = \<lparr>h_Method = ''POST'', h_RequestURI = ''/mutating-pods'', h_RemoteAddr = ''10.0.0.1:4000'', h_UserAgent = ''kube'',
     h_HTTP11 = True, h_StatusCode = 200, h_Body = []\<rparr>"

theorem webhook_answers_pods_witness:
  "\<exists>env' line. webhook_main (\<lambda>n. None) (\<lambda>c k. c = ''/tls/cert'' \<and> k = ''/tls/key'') (\<lambda>a. True)
      ((demo_env (demo_pod [] []))\<lparr>we_decode_review := (\<lambda>b. (Some demo_request, None))\<rparr>)
      [''--tls-cert-file=/tls/cert'', ''--tls-private-key-file'', ''/tls/key''] = WebhookServing env' \<and>
    serve \<lparr>ck_elapsed = ''1ms'', ck_end = ''now''\<rparr> (\<lambda>resp. if Allowed resp then ''allowed'' else ''denied'') (\<lambda>c. c) env'
      \<lparr>wr_Path = ''/mutating-pods'', wr_ContentType = ''application/json'', wr_Body = [], wr_ctx = demo_ctx\<rparr> [] =
      Ok (demo_ctx\<lparr>h_Body := ''allowed''\<rparr>, [line])"
proof -
  let ?env = "(demo_env (demo_pod [] []))\<lparr>we_decode_review := (\<lambda>b. (Some demo_request, None))\<rparr>"
  let ?r = "\<lparr>wr_Path = ''/mutating-pods'', wr_ContentType = ''application/json'', wr_Body = [], wr_ctx = demo_ctx\<rparr>"
  have "rq_Resource demo_request = ([], ''v1'', ''pods'')" by (simp add: demo_request_def)
  moreover have "map_option Allowed (mutatePods (?env\<lparr>processStarterPath := default_starter_path, cfsQuotas := QuotaAll\<rparr>) demo_request) = Some True"
    by code_simp
  ultimately show ?thesis
    using webhook_answers_pods [where loadKeyPair = "\<lambda>c k. c = ''/tls/cert'' \<and> k = ''/tls/key''" and listen = "\<lambda>a. True"
      and cert = "''/tls/cert''" and key = "''/tls/key''" and ?s1.0 = OneWord and ?s2.0 = TwoWords and r = ?r and env = ?env
      and req = demo_request and foreign = "\<lambda>n. None" and ck = "\<lparr>ck_elapsed = ''1ms'', ck_end = ''now''\<rparr>"
      and marshal = "\<lambda>resp. if Allowed resp then ''allowed'' else ''denied''" and otherPath = "\<lambda>c. c" and lines = "[]"]
    by (auto simp: demo_ctx_def)
qed

end
