(* ===== verification/Process_Starter.thy ===== *)
theory Process_Starter
  imports Cpuset_Lib Cpu_Annotation Pool_Config
begin

text \<open>
  The process starter, \<^verbatim>\<open>cmd/process-starter/process_starter.go\<close>: the entry point of a pinned
  container. It reads the CPU annotation, waits until the cgroup of the container has the CPUs
  the environment promises, sets the affinity of every annotated process and starts it.

  The environment variables, the content of the cgroup file in every round, the annotation file,
  the JSON decoders and the success of an \<^verbatim>\<open>exec\<close> are arguments. What the starter does to the
  system is a list of events. The lemmas show when the waiting ends and with which CPUs, that the
  exclusive CPUs are dealt out to the processes in disjoint slices, and when the starter gives up.
\<close>

section \<open>Reading the annotation\<close>

record ps_input =
  annotation_lines :: "string list option"
  scan_error :: bool
  json_string_of :: "string \<Rightarrow> string option"
  json_containers_of :: "string \<Rightarrow> ann_container list option"

fun find_annotation :: "string list \<Rightarrow> string" where
  "find_annotation [] = []"
| "find_annotation (str # rest) =
     (if Contains str ''bonc.k8s.io/cpus='' then ReplaceOne str ''bonc.k8s.io/cpus='' [] else find_annotation rest)"

text \<open>\<^verbatim>\<open>readCPUAnnotation\<close>: \<open>None\<close> is a returned error. A file that cannot be opened has no lines.\<close>

definition readCPUAnnotation :: "ps_input \<Rightarrow> ann_container list option" where
  "readCPUAnnotation inp =
     (let ann = find_annotation (case annotation_lines inp of None \<Rightarrow> [] | Some ls \<Rightarrow> ls)
      in if ann = [] then Some []
         else if scan_error inp then None
         else case json_string_of inp ann of
                None \<Rightarrow> None
              | Some s \<Rightarrow> json_containers_of inp s)"

section \<open>Waiting for the cpuset\<close>

datatype poll_result = Polled "int list" "int list" "int list" | PollExit

text \<open>The sets of one round, cloudphone, exclusive, shared and expected CPUs; \<open>None\<close> when the round
  is skipped. The environment does not change, so every round computes the same sets.\<close>

definition poll_sets :: "'s cpuset_api \<Rightarrow> (string \<Rightarrow> string) \<Rightarrow> ('s \<times> 's \<times> 's \<times> 's) option" where
  "poll_sets cs getenv =
     (let z = cs_zero cs;
          env_set = (\<lambda>name. fst (cs_Parse cs (getenv name)));
          poolType = getenv ''CPU_POOLS''
      in if poolType = CloudphonePoolID then
           (if cs_IsEmpty cs (env_set ''CLOUDPHONE_CPUS'') then None
            else if cs_IsEmpty cs (env_set ''NUMA_CPUS'') then None
            else Some (env_set ''CLOUDPHONE_CPUS'', z, z, env_set ''NUMA_CPUS''))
         else if poolType = ExclusivePoolID @ ''&'' @ SharedPoolID then
           (if cs_IsEmpty cs (env_set ''EXCLUSIVE_CPUS'') \<or> cs_IsEmpty cs (env_set ''SHARED_CPUS'') then None
            else Some (z, env_set ''EXCLUSIVE_CPUS'', env_set ''SHARED_CPUS'',
                   cs_Union cs (env_set ''EXCLUSIVE_CPUS'') [env_set ''SHARED_CPUS'']))
         else if poolType = ExclusivePoolID then
           (if cs_IsEmpty cs (env_set ''EXCLUSIVE_CPUS'') then None
            else Some (z, env_set ''EXCLUSIVE_CPUS'', z, env_set ''EXCLUSIVE_CPUS''))
         else if poolType = SharedPoolID then
           (if cs_IsEmpty cs (env_set ''SHARED_CPUS'') then None
            else Some (z, z, env_set ''SHARED_CPUS'', env_set ''SHARED_CPUS''))
         else Some (z, z, z, z))"

text \<open>The rounds: \<open>cgroup i\<close> is the first line of the cgroup file in round \<open>i\<close>, \<open>None\<close> when the file
  cannot be opened, which ends the process.\<close>

fun poll_loop ::
  "'s cpuset_api \<Rightarrow> (string \<Rightarrow> string) \<Rightarrow> (nat \<Rightarrow> string option) \<Rightarrow> nat \<Rightarrow> nat \<Rightarrow> poll_result" where
  "poll_loop cs getenv cgroup i 0 = PollExit"
| "poll_loop cs getenv cgroup i (Suc n) =
     (case poll_sets cs getenv of
        None \<Rightarrow> poll_loop cs getenv cgroup (Suc i) n
      | Some (cloudphoneCPUSet, exclusiveCPUSet, sharedCPUSet, expCpus) \<Rightarrow>
          (case cgroup i of
             None \<Rightarrow> PollExit
           | Some cgCPUSet \<Rightarrow>
               (if cs_Equals cs expCpus (fst (cs_Parse cs cgCPUSet))
                then Polled (cs_List cs cloudphoneCPUSet) (cs_List cs exclusiveCPUSet) (cs_List cs sharedCPUSet)
                else poll_loop cs getenv cgroup (Suc i) n)))"

definition pollCPUSetCompletion ::
  "'s cpuset_api \<Rightarrow> (string \<Rightarrow> string) \<Rightarrow> (nat \<Rightarrow> string option) \<Rightarrow> poll_result" where
  "pollCPUSetCompletion cs getenv cgroup = poll_loop cs getenv cgroup 0 90"

section \<open>Starting the processes\<close>

datatype ps_event =
  Affinity "int list"
| Spawn string "string list"
| Exec string "string list"

text \<open>\<^verbatim>\<open>setAffinity\<close>: the event and the remaining CPUs, \<open>None\<close> for nil. Too few CPUs leave the
  affinity alone; a negative number is out of the slice's bounds.\<close>

definition setAffinity :: "int \<Rightarrow> int list \<Rightarrow> (unit, ps_event list \<times> int list option) outcome" where
  "setAffinity nbrCPUs cpuList =
     (if int (length cpuList) < nbrCPUs then Ok ([], None)
      else if nbrCPUs < 0 then Panic IndexOutOfRange
      else Ok ([Affinity (take (nat nbrCPUs) cpuList)], Some (drop (nat nbrCPUs) cpuList)))"

text \<open>How the starter goes on: with the remaining exclusive CPUs, replaced by another program, ended
  with exit code 1, or panicking.\<close>

datatype ps_flow =
  Go_on "int list" "ps_event list"
| Replaced "ps_event list"
| Exit_1 "ps_event list"
| Crash panic "ps_event list"

fun run_processes ::
  "(string \<Rightarrow> bool) \<Rightarrow> int list \<Rightarrow> int list \<Rightarrow> ps_event list \<Rightarrow> process list \<Rightarrow> ps_flow" where
  "run_processes exec_ok sharedCPUs exclCPUs evs [] = Go_on exclCPUs evs"
| "run_processes exec_ok sharedCPUs exclCPUs evs (process # ps) =
     (case (if HasPrefix (PoolName process) ''exclusive'' then setAffinity (CPUs process) exclCPUs
            else and_then (setAffinity (int (length sharedCPUs)) sharedCPUs) (\<lambda>(e, _). Ok (e, Some exclCPUs))) of
        Panic p \<Rightarrow> Crash p evs
      | Err _ \<Rightarrow> Exit_1 evs
      | Ok (e, None) \<Rightarrow> Exit_1 (evs @ e)
      | Ok (e, Some excl') \<Rightarrow>
          (if ps = [] then
             (if exec_ok (ProcName process)
              then Replaced (evs @ e @ [Exec (ProcName process) (ProcName process # Args process)])
              else run_processes exec_ok sharedCPUs excl'
                     (evs @ e @ [Exec (ProcName process) (ProcName process # Args process)]) ps)
           else run_processes exec_ok sharedCPUs excl' (evs @ e @ [Spawn (ProcName process) (Args process)]) ps))"

fun run_containers ::
  "(string \<Rightarrow> bool) \<Rightarrow> string \<Rightarrow> int list \<Rightarrow> int list \<Rightarrow> ps_event list \<Rightarrow> ann_container list \<Rightarrow> ps_flow" where
  "run_containers exec_ok me sharedCPUs exclCPUs evs [] = Go_on exclCPUs evs"
| "run_containers exec_ok me sharedCPUs exclCPUs evs (c # cs) =
     (if ann_Name c \<noteq> me then run_containers exec_ok me sharedCPUs exclCPUs evs cs
      else case run_processes exec_ok sharedCPUs exclCPUs evs (Processes c) of
             Go_on excl' evs' \<Rightarrow> run_containers exec_ok me sharedCPUs excl' evs' cs
           | r \<Rightarrow> r)"

text \<open>The whole program. \<open>Exit_0\<close> is the return of \<^verbatim>\<open>main\<close> after a last failed \<^verbatim>\<open>exec\<close>; \<open>Gives_up\<close> its
  own calls of \<^verbatim>\<open>panic\<close>.\<close>

datatype ps_result = Gives_up | Exit_0 "ps_event list" | Flow ps_flow

definition starter_main ::
  "'s cpuset_api \<Rightarrow> ps_input \<Rightarrow> (string \<Rightarrow> string) \<Rightarrow> (nat \<Rightarrow> string option) \<Rightarrow> (string \<Rightarrow> bool) \<Rightarrow> string list
    \<Rightarrow> ps_result" where
  "starter_main cs inp getenv cgroup exec_ok argv =
     (case readCPUAnnotation inp of
        None \<Rightarrow> Gives_up
      | Some containers \<Rightarrow>
          (if getenv ''CONTAINER_NAME'' = [] then Gives_up
           else
             (case pollCPUSetCompletion cs getenv cgroup of
                PollExit \<Rightarrow> Flow (Exit_1 [])
              | Polled _ exclCPUs sharedCPUs \<Rightarrow>
                  (case run_containers exec_ok (getenv ''CONTAINER_NAME'') sharedCPUs exclCPUs [] containers of
                     Go_on _ evs \<Rightarrow>
                       (if length argv < 2 then Flow (Crash IndexOutOfRange evs)
                        else if exec_ok (argv ! 1) then Flow (Replaced (evs @ [Exec (argv ! 1) (tl argv)]))
                        else Exit_0 (evs @ [Exec (argv ! 1) (tl argv)]))
                   | r \<Rightarrow> Flow r))))"

section \<open>The wait\<close>

text \<open>Round \<open>k\<close> is the first in which the cgroup has the expected CPUs, and the file could be read so far.\<close>

definition settles_at :: "'s cpuset_api \<Rightarrow> 's \<Rightarrow> (nat \<Rightarrow> string option) \<Rightarrow> nat \<Rightarrow> bool" where
  "settles_at cs expected cgroup k \<longleftrightarrow>
     (\<forall>j < Suc k. cgroup j \<noteq> None) \<and>
     cs_elems cs (fst (cs_Parse cs (the (cgroup k)))) = cs_elems cs expected \<and>
     (\<forall>j < k. cs_elems cs (fst (cs_Parse cs (the (cgroup j)))) \<noteq> cs_elems cs expected)"

lemma poll_loop_skip: "poll_sets cs getenv = None \<Longrightarrow> poll_loop cs getenv cgroup i n = PollExit"
  by (induction n arbitrary: i) simp_all

lemma settles_at_Suc:
  "settles_at cs e f (Suc k) \<longleftrightarrow>
     f 0 \<noteq> None \<and> cs_elems cs (fst (cs_Parse cs (the (f 0)))) \<noteq> cs_elems cs e \<and> settles_at cs e (\<lambda>j. f (Suc j)) k"
  unfolding settles_at_def All_less_Suc2 by auto

lemma settles_at_0:
  "settles_at cs e f 0 \<longleftrightarrow> f 0 \<noteq> None \<and> cs_elems cs (fst (cs_Parse cs (the (f 0)))) = cs_elems cs e"
  unfolding settles_at_def by auto

lemma settles_at_ex:
  "(\<exists>k < Suc n. settles_at cs e f k) \<longleftrightarrow>
     f 0 \<noteq> None \<and> (cs_elems cs (fst (cs_Parse cs (the (f 0)))) = cs_elems cs e \<or>
        (\<exists>k < n. settles_at cs e (\<lambda>j. f (Suc j)) k) \<and> cs_elems cs (fst (cs_Parse cs (the (f 0)))) \<noteq> cs_elems cs e)"
  unfolding Ex_less_Suc2 settles_at_0 settles_at_Suc by auto

lemma poll_loop_iff:
  assumes "cpuset_lib cs" "poll_sets cs getenv = Some (cl, ex, sh, e)"
  shows "poll_loop cs getenv cgroup i n =
    (if \<exists>k < n. settles_at cs e (\<lambda>j. cgroup (i + j)) k
     then Polled (cs_List cs cl) (cs_List cs ex) (cs_List cs sh) else PollExit)"
proof (induction n arbitrary: i)
  case (Suc n)
  have "cs_Equals cs e s \<longleftrightarrow> cs_elems cs s = cs_elems cs e" for s
    using cpuset_lib.Equals_iff [OF assms(1)] by auto
  then show ?case
    using assms(2) Suc [of "Suc i"]
    by (cases "cgroup i") (auto simp: settles_at_ex [of n cs e "\<lambda>j. cgroup (i + j)"])
qed simp

lemma poll_completion:
  assumes "cpuset_lib cs"
  shows "pollCPUSetCompletion cs getenv cgroup =
    (case poll_sets cs getenv of
       None \<Rightarrow> PollExit
     | Some (cl, ex, sh, e) \<Rightarrow>
         (if \<exists>k < 90. settles_at cs e cgroup k
          then Polled (cs_List cs cl) (cs_List cs ex) (cs_List cs sh) else PollExit))"
  using poll_loop_skip [of cs getenv cgroup 0 90] poll_loop_iff [OF assms, of getenv _ _ _ _ cgroup 0 90]
  by (auto simp: pollCPUSetCompletion_def split: option.splits)

text \<open>C14: The wait for the cpuset ends after at most 90 rounds. It succeeds exactly when one of these
  rounds finds the expected CPUs in the cgroup, the file being readable until then, and then returns
  the CPU lists of the environment; a pool list whose sets are not given never succeeds.\<close>

theorem pollCPUSetCompletion_correct:
  assumes "cpuset_lib cs"
  shows "pollCPUSetCompletion cs getenv cgroup =
    (case poll_sets cs getenv of
       None \<Rightarrow> PollExit
     | Some (cl, ex, sh, e) \<Rightarrow>
         (if \<exists>k < 90. settles_at cs e cgroup k
          then Polled (cs_List cs cl) (cs_List cs ex) (cs_List cs sh) else PollExit))"
  using assms by (rule poll_completion)

definition demo_getenv :: "string \<Rightarrow> string" where
  "demo_getenv v =
     (if v = ''CPU_POOLS'' then ''exclusive'' else if v = ''EXCLUSIVE_CPUS'' then ''2-3''
      else if v = ''CONTAINER_NAME'' then ''c'' else [])"

definition demo_cgroup :: "nat \<Rightarrow> string option" where
  "demo_cgroup i = Some (if i < 3 then ''0-3'' else ''2-3'')"

theorem pollCPUSetCompletion_correct_witness:
  "pollCPUSetCompletion ref_cpuset demo_getenv demo_cgroup = Polled [] [2, 3] []"
proof -
  have sets: "poll_sets ref_cpuset demo_getenv = Some ([], [2, 3], [], [2, 3])" by code_simp
  have parse: "fst (cs_Parse ref_cpuset ''0-3'') = [0, 1, 2, 3]" "fst (cs_Parse ref_cpuset ''2-3'') = [2, 3]"
    by code_simp+
  have "(0 :: int) \<in> {0, 1, 2, 3}" "(0 :: int) \<notin> {2, 3}" by simp_all
  then have "{0, 1, 2, 3} \<noteq> {2, 3 :: int}" by metis
  then have "settles_at ref_cpuset [2, 3] demo_cgroup 3"
    unfolding settles_at_def demo_cgroup_def by (auto simp: parse)
  then have "\<exists>k < 90. settles_at ref_cpuset [2, 3] demo_cgroup k" by (intro exI [of _ 3]) simp
  moreover have "cs_List ref_cpuset [] = []" "cs_List ref_cpuset [2, 3] = [2, 3]" by code_simp+
  ultimately show ?thesis
    using pollCPUSetCompletion_correct [OF ref.cpuset_lib_axioms, of demo_getenv demo_cgroup] by (simp add: sets)
qed

section \<open>Dealing out the CPUs\<close>

abbreviation on_exclusive :: "process \<Rightarrow> bool" where
  "on_exclusive p \<equiv> HasPrefix (PoolName p) ''exclusive''"

text \<open>The CPUs of every process: consecutive slices of the exclusive CPUs, or all shared CPUs.\<close>

fun assignment :: "int list \<Rightarrow> int list \<Rightarrow> process list \<Rightarrow> int list list" where
  "assignment shared excl [] = []"
| "assignment shared excl (p # ps) =
     (if on_exclusive p then take (nat (CPUs p)) excl # assignment shared (drop (nat (CPUs p)) excl) ps
      else shared # assignment shared excl ps)"

fun start_events :: "int list list \<Rightarrow> process list \<Rightarrow> ps_event list" where
  "start_events (a # as) [p] = [Affinity a, Exec (ProcName p) (ProcName p # Args p)]"
| "start_events (a # as) (p # ps) = Affinity a # Spawn (ProcName p) (Args p) # start_events as ps"
| "start_events as ps = []"

definition exclusive_total :: "process list \<Rightarrow> int" where
  "exclusive_total ps = requested on_exclusive ps"

definition nonneg_processes :: "process list \<Rightarrow> bool" where
  "nonneg_processes ps = (\<forall>p \<in> set ps. on_exclusive p \<longrightarrow> 0 \<le> CPUs p)"

lemma exclusive_total_simps [simp]:
  "exclusive_total [] = 0" "exclusive_total (p # ps) = (if on_exclusive p then CPUs p else 0) + exclusive_total ps"
  by (simp_all add: exclusive_total_def requested_def)

lemma nonneg_processes_Cons [simp]:
  "nonneg_processes (p # ps) \<longleftrightarrow> (on_exclusive p \<longrightarrow> 0 \<le> CPUs p) \<and> nonneg_processes ps"
  by (simp add: nonneg_processes_def)

lemma exclusive_total_nonneg: "nonneg_processes ps \<Longrightarrow> 0 \<le> exclusive_total ps"
  by (induction ps) (auto simp: nonneg_processes_def)

lemma setAffinity_shared: "setAffinity (int (length xs)) xs = Ok ([Affinity xs], Some [])"
  by (simp add: setAffinity_def)

lemma run_processes_starts:
  assumes "ps \<noteq> []" "nonneg_processes ps" "exclusive_total ps \<le> int (length excl)" "exec_ok (ProcName (last ps))"
  shows "run_processes exec_ok shared excl evs ps = Replaced (evs @ start_events (assignment shared excl ps) ps)"
  using assms
proof (induction ps arbitrary: excl evs)
  case (Cons p ps)
  have t: "0 \<le> exclusive_total ps" using Cons.prems(2) by (simp add: exclusive_total_nonneg)
  show ?case
  proof (cases ps)
    case Nil
    with Cons.prems t show ?thesis 
      by (cases "on_exclusive p") (simp_all add: setAffinity_shared, simp_all add: setAffinity_def)
  next
    case (Cons q qs)
    then have len: "start_events (a # assignment shared e ps) (p # ps) =
        Affinity a # Spawn (ProcName p) (Args p) # start_events (assignment shared e ps) ps" for a e by simp
    show ?thesis
    proof (cases "on_exclusive p")
      case True
      with Cons.prems t have "setAffinity (CPUs p) excl =
          Ok ([Affinity (take (nat (CPUs p)) excl)], Some (drop (nat (CPUs p)) excl))"
        by (simp add: setAffinity_def)
      with True Cons Cons.prems t Cons.IH [of "drop (nat (CPUs p)) excl"] len show ?thesis
        by simp
    next
      case False
      with Cons Cons.prems Cons.IH [of excl] len show ?thesis by (simp add: setAffinity_shared)
    qed
  qed
qed simp

lemma assignment_length [simp]: "length (assignment shared excl ps) = length ps"
  by (induction shared excl ps rule: assignment.induct) simp_all

lemma assignment_subset:
  "i < length ps \<Longrightarrow> on_exclusive (ps ! i) \<Longrightarrow> set (assignment shared excl ps ! i) \<subseteq> set excl"
proof (induction shared excl ps arbitrary: i rule: assignment.induct)
  case (2 shared excl p ps)
  have "set (drop n excl) \<subseteq> set excl" "set (take n excl) \<subseteq> set excl" for n
    by (simp_all add: set_drop_subset set_take_subset)
  with 2 show ?case by (cases i; cases "on_exclusive p"; simp; blast)
qed simp

lemma assignment_size:
  "nonneg_processes ps \<Longrightarrow> exclusive_total ps \<le> int (length excl) \<Longrightarrow> i < length ps \<Longrightarrow>
   (if on_exclusive (ps ! i) then int (length (assignment shared excl ps ! i)) = CPUs (ps ! i)
    else assignment shared excl ps ! i = shared)"
proof (induction shared excl ps arbitrary: i rule: assignment.induct)
  case (2 shared excl p ps)
  have t: "0 \<le> exclusive_total ps" using 2(3) by (simp add: exclusive_total_nonneg)
  show ?case using 2 t by (cases i) (auto split: if_splits)
qed simp

lemma assignment_disjoint:
  "distinct excl \<Longrightarrow> i < j \<Longrightarrow> j < length ps \<Longrightarrow> on_exclusive (ps ! i) \<Longrightarrow> on_exclusive (ps ! j) \<Longrightarrow>
   set (assignment shared excl ps ! i) \<inter> set (assignment shared excl ps ! j) = {}"
proof (induction shared excl ps arbitrary: i j rule: assignment.induct)
  case (2 shared excl p ps)
  obtain j' where j: "j = Suc j'" using 2(4) by (cases j) auto
  show ?case
  proof (cases i)
    case 0
    have "set (assignment shared (drop (nat (CPUs p)) excl) ps ! j') \<subseteq> set (drop (nat (CPUs p)) excl)"
      using 2(5,7) j by (intro assignment_subset) simp_all
    moreover have "set (take (nat (CPUs p)) excl) \<inter> set (drop (nat (CPUs p)) excl) = {}"
      using 2(3) by (rule set_take_disj_set_drop_if_distinct) simp
    ultimately show ?thesis using 0 j 2(6) by auto
  next
    case (Suc i')
    with 2 j show ?thesis by (cases "on_exclusive p") simp_all
  qed
qed simp

lemma run_processes_exhausted:
  assumes "nonneg_processes ps" "int (length excl) < exclusive_total ps"
  shows "\<exists>evs'. run_processes exec_ok shared excl evs ps = Exit_1 evs'"
  using assms
proof (induction ps arbitrary: excl evs)
  case (Cons p ps)
  show ?case
  proof (cases "on_exclusive p")
    case False
    have "ps \<noteq> []" using Cons.prems(2) False by auto
    with False Cons show ?thesis by (simp add: setAffinity_shared)
  next
    case True
    show ?thesis
    proof (cases "int (length excl) < CPUs p")
      case True
      with \<open>on_exclusive p\<close> show ?thesis by (simp add: setAffinity_def)
    next
      case False
      with Cons.prems True have "ps \<noteq> []" "int (length (drop (nat (CPUs p)) excl)) < exclusive_total ps" by auto
      with True False Cons show ?thesis by (simp add: setAffinity_def)
    qed
  qed
qed simp

lemma run_containers_first:
  assumes "find (\<lambda>c. ann_Name c = me) containers = Some c"
    and "\<forall>excl' evs'. run_processes exec_ok shared excl evs (Processes c) \<noteq> Go_on excl' evs'"
  shows "run_containers exec_ok me shared excl evs containers = run_processes exec_ok shared excl evs (Processes c)"
  using assms
proof (induction containers)
  case (Cons d ds)
  then show ?case
    by (cases "run_processes exec_ok shared excl evs (Processes c)") (auto split: if_splits)
qed simp

lemma poll_loop_Polled:
  "poll_loop cs getenv cgroup i n = Polled cl ex sh \<Longrightarrow> \<exists>s. ex = cs_List cs s"
proof (induction n arbitrary: i)
  case (Suc n)
  then show ?case by (auto split: option.splits if_splits)
qed simp

text \<open>C13: When the wait succeeded and the exclusive CPUs suffice for the annotated processes of the
  container, the starter gives every process its affinity before it starts it, in the order of the
  annotation and the last one in its own place: each exclusive process gets as many exclusive
  CPUs as it asks for, no two of them share a CPU, and every other process gets the shared CPUs.\<close>

theorem starter_isolates_processes:
  assumes "cpuset_lib cs" "readCPUAnnotation inp = Some containers" "getenv ''CONTAINER_NAME'' \<noteq> []"
    "pollCPUSetCompletion cs getenv cgroup = Polled cl ex sh"
    "find (\<lambda>c. ann_Name c = getenv ''CONTAINER_NAME'') containers = Some c"
    "Processes c \<noteq> []" "nonneg_processes (Processes c)" "exclusive_total (Processes c) \<le> int (length ex)"
    "exec_ok (ProcName (last (Processes c)))"
  shows "\<exists>asg. starter_main cs inp getenv cgroup exec_ok argv = Flow (Replaced (start_events asg (Processes c))) \<and>
    length asg = length (Processes c) \<and>
    (\<forall>i < length asg. if on_exclusive (Processes c ! i)
       then int (length (asg ! i)) = CPUs (Processes c ! i) \<and> set (asg ! i) \<subseteq> set ex
       else asg ! i = sh) \<and>
    (\<forall>j < length asg. \<forall>i < j. on_exclusive (Processes c ! i) \<and> on_exclusive (Processes c ! j) \<longrightarrow>
       set (asg ! i) \<inter> set (asg ! j) = {})"
proof -
  let ?asg = "assignment sh ex (Processes c)"
  obtain s where "ex = cs_List cs s"
    using assms(4) poll_loop_Polled by (fastforce simp: pollCPUSetCompletion_def)
  then have d: "distinct ex" using cpuset_lib.List_distinct [OF assms(1)] by simp
  have "run_processes exec_ok sh ex [] (Processes c) = Replaced (start_events ?asg (Processes c))"
    using run_processes_starts [OF assms(6-8), of exec_ok] assms(9) by simp
  then have "starter_main cs inp getenv cgroup exec_ok argv = Flow (Replaced (start_events ?asg (Processes c)))"
    using assms(2-4) run_containers_first [OF assms(5), of exec_ok sh ex "[]"] by (simp add: starter_main_def)
  then show ?thesis
    using assignment_size [OF assms(7,8)] assignment_subset [of _ "Processes c"] assignment_disjoint [OF d]
    by (intro exI [of _ ?asg]) auto
qed

definition demo_proc :: "string \<Rightarrow> int \<Rightarrow> string \<Rightarrow> process" where
  "demo_proc n k pool = \<lparr>ProcName = n, Args = [], CPUs = k, PoolName = pool\<rparr>"

definition demo_input :: "ann_container list \<Rightarrow> ps_input" where
  "demo_input cs = \<lparr>annotation_lines = Some [''bonc.k8s.io/cpus=x''], scan_error = False,
     json_string_of = Some, json_containers_of = (\<lambda>s. Some cs)\<rparr>"

definition demo_two :: "ann_container" where
  "demo_two = \<lparr>ann_Name = ''c'', Processes = [demo_proc ''a'' 1 ''exclusive'', demo_proc ''b'' 1 ''exclusive'']\<rparr>"

theorem starter_isolates_processes_witness:
  "\<exists>asg. starter_main ref_cpuset (demo_input [demo_two]) demo_getenv demo_cgroup (\<lambda>p. True) [''starter''] =
       Flow (Replaced (start_events asg (Processes demo_two))) \<and> set (asg ! 0) \<inter> set (asg ! 1) = {}"
proof -
  have h: "readCPUAnnotation (demo_input [demo_two]) = Some [demo_two]"
    "demo_getenv ''CONTAINER_NAME'' \<noteq> []"
    "pollCPUSetCompletion ref_cpuset demo_getenv demo_cgroup = Polled [] [2, 3] []"
    "find (\<lambda>c. ann_Name c = demo_getenv ''CONTAINER_NAME'') [demo_two] = Some demo_two"
    "Processes demo_two \<noteq> []" "nonneg_processes (Processes demo_two)"
    "exclusive_total (Processes demo_two) \<le> int (length ([2, 3] :: int list))"
    "on_exclusive (Processes demo_two ! 0)" "on_exclusive (Processes demo_two ! 1)" by code_simp+
  from starter_isolates_processes [OF ref.cpuset_lib_axioms h(1-7), of "\<lambda>p. True" "[''starter'']"] h(8,9)
  obtain asg where asg: "starter_main ref_cpuset (demo_input [demo_two]) demo_getenv demo_cgroup (\<lambda>p. True) [''starter''] =
       Flow (Replaced (start_events asg (Processes demo_two)))" "length asg = length (Processes demo_two)"
    "\<forall>j < length asg. \<forall>i < j. on_exclusive (Processes demo_two ! i) \<and> on_exclusive (Processes demo_two ! j) \<longrightarrow>
       set (asg ! i) \<inter> set (asg ! j) = {}" by auto
  have "length (Processes demo_two) = 2" by code_simp
  with asg(2,3) h(8,9) have "set (asg ! 0) \<inter> set (asg ! 1) = {}" by simp
  with asg(1) show ?thesis by blast
qed

text \<open>When the annotated processes ask for more exclusive CPUs than the container has, the starter
  ends with exit code 1, without having replaced itself by the last process.\<close>

theorem starter_refuses_overbooking:
  assumes "readCPUAnnotation inp = Some containers" "getenv ''CONTAINER_NAME'' \<noteq> []"
    "pollCPUSetCompletion cs getenv cgroup = Polled cl ex sh"
    "find (\<lambda>c. ann_Name c = getenv ''CONTAINER_NAME'') containers = Some c"
    "nonneg_processes (Processes c)" "int (length ex) < exclusive_total (Processes c)"
  shows "\<exists>evs. starter_main cs inp getenv cgroup exec_ok argv = Flow (Exit_1 evs)"
proof -
  obtain evs where "run_processes exec_ok sh ex [] (Processes c) = Exit_1 evs"
    using run_processes_exhausted [OF assms(5,6)] by blast
  with run_containers_first [OF assms(4), of exec_ok sh ex "[]"] assms(1-3) show ?thesis
    by (auto simp: starter_main_def)
qed

definition demo_three :: "ann_container" where
  "demo_three = \<lparr>ann_Name = ''c'', Processes = [demo_proc ''a'' 1 ''exclusive'', demo_proc ''b'' 2 ''exclusive'']\<rparr>"

theorem starter_refuses_overbooking_witness:
  "\<exists>evs. starter_main ref_cpuset (demo_input [demo_three]) demo_getenv demo_cgroup (\<lambda>p. True) [''starter''] = Flow (Exit_1 evs)"
  by (rule starter_refuses_overbooking [where containers = "[demo_three]" and c = demo_three and cl = "[]" and ex = "[2, 3]" and sh = "[]"])
    code_simp+

end
