(* ===== verification/Cpuset_Choice.thy ===== *)
theory Cpuset_Choice
  imports Pool_Config Checkpoint Kube_Types Device_Ids
begin

text \<open>
  The part of cpusetter, \<^verbatim>\<open>pkg/sethandler/controller.go\<close>, that decides which CPUs a container
  runs on: from the names of the resources the container requests, the pool configuration, and
  the devices the kubelet's checkpoint says it was given. Parameters, for code outside the
  repository: the cpuset package, the hyper-threading topology and its sibling lookup.

  The lemmas show that the device ids decode to the CPUs the device plugin advertised (the
  interface of \<^verbatim>\<open>Device_Ids\<close>), which set a container of each kind gets, and where the choice goes
  by a substring of the resource name.
\<close>

section \<open>Definitions\<close>

datatype set_error =
  CheckpointErr checkpoint_error
| BadDeviceID string
| EmptyCloudphoneSet
| NoContainerID string
| CpusetPathError string
| NoCpusetDir string
| ChildPathError string
| CannotWrite "string list"
| NoContainerDir
| NoInfraDir
| CpuDirError "string list"
| ArchiveError
| AnnotationError

record 's choice_env =
  ch_cpuset :: "'s cpuset_api"
  ch_checkpoint :: cp_env
  ch_numOfCpus :: int
  ch_htMap :: "(int \<times> string) list"
  ch_addHT :: "'s \<Rightarrow> (int \<times> string) list \<Rightarrow> 's"
  ch_poolConfig :: "'s pool_config"

definition setResourceBaseName :: string where
  "setResourceBaseName = ''bonc.k8s.io''"

fun final_set_loop :: "'s cpuset_api \<Rightarrow> int \<Rightarrow> 's \<Rightarrow> string list \<Rightarrow> (set_error, 's) outcome" where
  "final_set_loop cs numOfCpus setBuilder [] = Ok setBuilder"
| "final_set_loop cs numOfCpus setBuilder (deviceID # ids) =
     (case Atoi deviceID of
        None \<Rightarrow> Err (BadDeviceID deviceID)
      | Some deviceIDasInt \<Rightarrow>
          and_then (go_rem deviceIDasInt numOfCpus) (\<lambda>r.
            final_set_loop cs numOfCpus (cs_Union cs setBuilder [cs_New cs [r]]) ids))"

definition calculateFinalExclusiveSet :: "'s cpuset_api \<Rightarrow> int \<Rightarrow> string list \<Rightarrow> (set_error, 's) outcome" where
  "calculateFinalExclusiveSet cs numOfCpus exclusiveCpus = final_set_loop cs numOfCpus (cs_New cs []) exclusiveCpus"

definition getListOfAllocatedExclusiveCpus ::
  "'s choice_env \<Rightarrow> string \<Rightarrow> pod \<Rightarrow> container \<Rightarrow> (set_error, 's) outcome" where
  "getListOfAllocatedExclusiveCpus env poolName pod c =
     (case read_checkpoint (ch_checkpoint env) of
        Panic p \<Rightarrow> Panic p
      | Err e \<Rightarrow> Err (CheckpointErr e)
      | Ok cp \<Rightarrow>
          (let deviceIDs = collect_devices (p_UID pod) (c_Name c) poolName [] (PodDeviceEntries cp)
           in if deviceIDs = [] then Ok (cs_zero (ch_cpuset env))
              else calculateFinalExclusiveSet (ch_cpuset env) (ch_numOfCpus env) deviceIDs))"

text \<open>The second component of a resource name; the name is split at every slash.\<close>

definition pool_of_resource :: "string \<Rightarrow> (set_error, string) outcome" where
  "pool_of_resource res =
     (let fullResName = Split res CHR ''/''
      in if length fullResName < 2 then Panic IndexOutOfRange else Ok (fullResName ! 1))"

text \<open>All cores of the pool on the NUMA node of the first CPU.\<close>

fun node_cores :: "'s cpuset_api \<Rightarrow> int \<Rightarrow> 's \<Rightarrow> (int \<times> topology) list \<Rightarrow> 's" where
  "node_cores cs idx realCPUSet [] = realCPUSet"
| "node_cores cs idx realCPUSet ((_, v) # rest) =
     node_cores cs idx
       (if t_Node v = idx then cs_Union cs realCPUSet [realCPUSet, cs_New cs [t_Core v]] else realCPUSet) rest"

definition cloudphone_sets ::
  "'s choice_env \<Rightarrow> string \<Rightarrow> 's \<Rightarrow> (set_error, 's \<times> 's) outcome" where
  "cloudphone_sets env poolName cloudphoneCPUSet =
     (if cs_IsEmpty (ch_cpuset env) cloudphoneCPUSet then Err EmptyCloudphoneSet
      else
        (case cs_List (ch_cpuset env) cloudphoneCPUSet of
           [] \<Rightarrow> Panic IndexOutOfRange
         | cpu # _ \<Rightarrow>
             (let coreMap = CoreMap (SelectPool (ch_cpuset env) (ch_poolConfig env) poolName)
              in Ok (cloudphoneCPUSet,
                     node_cores (ch_cpuset env) (t_Node (topo_at coreMap cpu)) (cs_New (ch_cpuset env) []) coreMap))))"

text \<open>The loop over the requested resource names. It ends early for a cloudphone pool.\<close>

datatype 's choice = Sets 's 's | Early 's 's

fun choose_loop ::
  "'s choice_env \<Rightarrow> pod \<Rightarrow> container \<Rightarrow> 's \<Rightarrow> 's \<Rightarrow> string list \<Rightarrow> (set_error, 's choice) outcome" where
  "choose_loop env pod c sharedCPUSet exclusiveCPUSet [] = Ok (Sets sharedCPUSet exclusiveCPUSet)"
| "choose_loop env pod c sharedCPUSet exclusiveCPUSet (res # rest) =
     (if Contains res setResourceBaseName \<and> Contains res SharedPoolID then
        choose_loop env pod c (CPUset (SelectPool (ch_cpuset env) (ch_poolConfig env) SharedPoolID)) exclusiveCPUSet rest
      else if Contains res setResourceBaseName \<and> Contains res ExclusivePoolID then
        and_then (getListOfAllocatedExclusiveCpus env res pod c) (\<lambda>excl.
        and_then (pool_of_resource res) (\<lambda>exclusivePoolName.
          choose_loop env pod c sharedCPUSet
            (if HTPolicy (SelectPool (ch_cpuset env) (ch_poolConfig env) exclusivePoolName) = MultiThreadHTPolicy
             then ch_addHT env excl (ch_htMap env) else excl) rest))
      else if Contains res setResourceBaseName \<and> Contains res CloudphonePoolID then
        and_then (getListOfAllocatedExclusiveCpus env res pod c) (\<lambda>cloudphoneCPUSet.
        and_then (pool_of_resource res) (\<lambda>cloudphonePoolName.
        and_then (cloudphone_sets env cloudphonePoolName cloudphoneCPUSet) (\<lambda>(a, b). Ok (Early a b))))
      else choose_loop env pod c sharedCPUSet exclusiveCPUSet rest)"

definition determineCorrectCpuset ::
  "'s choice_env \<Rightarrow> pod \<Rightarrow> container \<Rightarrow> (set_error, 's \<times> 's) outcome" where
  "determineCorrectCpuset env pod c =
     (let cs = ch_cpuset env in
      and_then (choose_loop env pod c (cs_zero cs) (cs_zero cs) (map fst (c_Requests c))) (\<lambda>r.
        case r of
          Early a b \<Rightarrow> Ok (a, b)
        | Sets sharedCPUSet exclusiveCPUSet \<Rightarrow>
            (if \<not> cs_IsEmpty cs sharedCPUSet \<or> \<not> cs_IsEmpty cs exclusiveCPUSet
             then Ok (cs_Union cs sharedCPUSet [exclusiveCPUSet], cs_Union cs sharedCPUSet [exclusiveCPUSet])
             else Ok (CPUset (SelectPool cs (ch_poolConfig env) DefaultPoolID),
                      CPUset (SelectPool cs (ch_poolConfig env) DefaultPoolID)))))"

section \<open>Decoding device ids\<close>

definition cpusetter_decode :: "int \<Rightarrow> string \<Rightarrow> int option" where
  "cpusetter_decode n i =
     Option.bind (Atoi i) (\<lambda>v. case (go_rem v n :: (unit, int) outcome) of Ok r \<Rightarrow> Some r | _ \<Rightarrow> None)"

interpretation cpusetter: device_decoder cpusetter_decode
proof
  fix n cpu k assume v: "valid_slot n cpu k"
  note e = device_id_exact [OF v]
  have "cpu + k * n \<le> 4294967295" using v by (simp add: valid_slot_def)
  then have "Atoi (device_id n cpu k) = Some (cpu + k * n)" using e in_int64_u32 by simp
  moreover have "0 < n" using v by (simp add: valid_slot_def)
  ultimately show "cpusetter_decode n (device_id n cpu k) = Some cpu"
    using e(2) slot_mod [OF v] by (simp add: cpusetter_decode_def go_rem_nonneg)
qed

lemma final_set_loop_Ok:
  assumes "cpuset_lib cs" "n \<noteq> 0" "\<forall>i \<in> set ids. cpusetter_decode n i \<noteq> None"
  shows "\<exists>s. final_set_loop cs n acc ids = Ok s \<and> cs_elems cs s = cs_elems cs acc \<union> cpusetter.decoded n ids"
  using assms(3)
proof (induction ids arbitrary: acc)
  case (Cons i ids)
  note lib = cpuset_lib.elems_Union [OF assms(1)] cpuset_lib.elems_New [OF assms(1)]
  obtain v where v: "Atoi i = Some v" using Cons.prems by (cases "Atoi i") (simp_all add: cpusetter_decode_def)
  obtain r where r: "go_rem v n = (Ok r :: (set_error, int) outcome)" "go_rem v n = (Ok r :: (unit, int) outcome)"
    using assms(2) by (simp add: go_rem_def)
  then have "cpusetter_decode n i = Some r" using v by (simp add: cpusetter_decode_def)
  with Cons.IH [of "cs_Union cs acc [cs_New cs [r]]"] Cons.prems v r(1) show ?case
    by (simp add: cpusetter.decoded_Cons lib Un_ac)
qed simp

section \<open>Kinds of resources\<close>

definition shared_res :: "string \<Rightarrow> bool" where
  "shared_res r \<longleftrightarrow> Contains r setResourceBaseName \<and> Contains r SharedPoolID"

definition exclusive_res :: "string \<Rightarrow> bool" where
  "exclusive_res r \<longleftrightarrow> Contains r setResourceBaseName \<and> \<not> Contains r SharedPoolID \<and> Contains r ExclusivePoolID"

definition cloudphone_res :: "string \<Rightarrow> bool" where
  "cloudphone_res r \<longleftrightarrow> Contains r setResourceBaseName \<and> \<not> Contains r SharedPoolID \<and>
     \<not> Contains r ExclusivePoolID \<and> Contains r CloudphonePoolID"

lemmas res_kinds = shared_res_def exclusive_res_def cloudphone_res_def

text \<open>What the loop assigns for one exclusive resource.\<close>

definition exclusive_set :: "'s choice_env \<Rightarrow> pod \<Rightarrow> container \<Rightarrow> string \<Rightarrow> (set_error, 's) outcome" where
  "exclusive_set env pod c res =
     and_then (getListOfAllocatedExclusiveCpus env res pod c) (\<lambda>excl.
     and_then (pool_of_resource res) (\<lambda>n.
       Ok (if HTPolicy (SelectPool (ch_cpuset env) (ch_poolConfig env) n) = MultiThreadHTPolicy
           then ch_addHT env excl (ch_htMap env) else excl)))"

lemma choose_loop_skip:
  "\<not> shared_res r \<Longrightarrow> \<not> exclusive_res r \<Longrightarrow> \<not> cloudphone_res r \<Longrightarrow>
     choose_loop env pod c sh ex (r # rs) = choose_loop env pod c sh ex rs"
  by (auto simp: res_kinds)

lemma choose_loop_shared:
  "shared_res r \<Longrightarrow> choose_loop env pod c sh ex (r # rs) =
     choose_loop env pod c (CPUset (SelectPool (ch_cpuset env) (ch_poolConfig env) SharedPoolID)) ex rs"
  by (simp add: res_kinds)

lemma choose_loop_exclusive:
  "exclusive_res r \<Longrightarrow> exclusive_set env pod c r = Ok x \<Longrightarrow>
     choose_loop env pod c sh ex (r # rs) = choose_loop env pod c sh x rs"
  by (auto simp: res_kinds exclusive_set_def and_then_Ok_iff)

declare choose_loop.simps(2) [simp del]

lemma choose_loop_eq:
  assumes "\<forall>r \<in> set rs. \<not> cloudphone_res r" "\<forall>r \<in> set rs. exclusive_res r \<longrightarrow> exclusive_set env pod c r = Ok (x r)"
  shows "choose_loop env pod c sh ex rs =
    Ok (Sets (if \<exists>r \<in> set rs. shared_res r then CPUset (SelectPool (ch_cpuset env) (ch_poolConfig env) SharedPoolID) else sh)
      (if filter exclusive_res rs = [] then ex else x (last (filter exclusive_res rs))))"
  using assms
proof (induction rs arbitrary: sh ex)
  case (Cons r rs)
  consider "shared_res r" | "exclusive_res r" | "\<not> shared_res r" "\<not> exclusive_res r" by blast
  then show ?case
  proof cases
    case 1
    then have "\<not> exclusive_res r" by (simp add: res_kinds)
    with 1 Cons choose_loop_shared [of r env] show ?thesis by simp
  next
    case 2
    then have "\<not> shared_res r" by (simp add: res_kinds)
    with 2 Cons choose_loop_exclusive [of r env pod c "x r"] show ?thesis by simp
  next
    case 3
    with Cons choose_loop_skip [of r env] show ?thesis by simp
  qed
qed simp

text \<open>The device ids the kubelet recorded for a container and a resource.\<close>

definition allocated_ids :: "'s choice_env \<Rightarrow> pod \<Rightarrow> container \<Rightarrow> string \<Rightarrow> string list" where
  "allocated_ids env pod c res =
     (case read_checkpoint (ch_checkpoint env) of
        Ok cp \<Rightarrow> collect_devices (p_UID pod) (c_Name c) res [] (PodDeviceEntries cp) | _ \<Rightarrow> [])"

definition slot_device_ids :: "int \<Rightarrow> (int \<times> int) list \<Rightarrow> string list" where
  "slot_device_ids n slots = map (\<lambda>(cpu, k). device_id n cpu k) slots"

lemma allocated_set:
  assumes lib: "cpuset_lib (ch_cpuset env)" and ne: "slots \<noteq> []"
    and ids: "allocated_ids env pod c res = slot_device_ids (ch_numOfCpus env) slots"
    and valid: "\<forall>(cpu, k) \<in> set slots. valid_slot (ch_numOfCpus env) cpu k"
  shows "\<exists>s. getListOfAllocatedExclusiveCpus env res pod c = Ok s \<and> cs_elems (ch_cpuset env) s = fst ` set slots"
proof -
  let ?cs = "ch_cpuset env" and ?n = "ch_numOfCpus env"
  have "allocated_ids env pod c res \<noteq> []" using ids ne by (simp add: slot_device_ids_def)
  then obtain cp where cp: "read_checkpoint (ch_checkpoint env) = Ok cp"
    "collect_devices (p_UID pod) (c_Name c) res [] (PodDeviceEntries cp) = slot_device_ids ?n slots"
    using ids by (auto simp: allocated_ids_def split: outcome.splits)
  obtain cpu k where "(cpu, k) \<in> set slots" using ne by (cases slots) auto
  with valid have n: "?n \<noteq> 0" by (auto simp: valid_slot_def)
  have "\<forall>i \<in> set (slot_device_ids ?n slots). cpusetter_decode ?n i \<noteq> None"
    using valid cpusetter.decode_device_id by (fastforce simp: slot_device_ids_def)
  from final_set_loop_Ok [OF lib n this, of "cs_New ?cs []"]
  obtain s where s: "final_set_loop ?cs ?n (cs_New ?cs []) (slot_device_ids ?n slots) = Ok s"
    "cs_elems ?cs s = cpusetter.decoded ?n (slot_device_ids ?n slots)"
    using cpuset_lib.elems_New [OF lib] by auto
  have "cpusetter.decoded ?n (slot_device_ids ?n slots) = fst ` set slots"
    unfolding slot_device_ids_def using valid by (intro cpusetter.decoded_advertised) auto
  with s cp ne show ?thesis
    by (simp add: getListOfAllocatedExclusiveCpus_def calculateFinalExclusiveSet_def slot_device_ids_def)
qed

lemma pool_of_resource_ok:
  "CHR ''/'' \<notin> set pool \<Longrightarrow> pool_of_resource (setResourceBaseName @ CHR ''/'' # pool) = Ok pool"
proof -
  assume "CHR ''/'' \<notin> set pool"
  moreover have "CHR ''/'' \<notin> set setResourceBaseName" by (simp add: setResourceBaseName_def)
  ultimately have "Split (setResourceBaseName @ CHR ''/'' # pool) CHR ''/'' = [setResourceBaseName, pool]"
    by (simp add: Split_append_sep Split_no_sep)
  then show ?thesis by (simp add: pool_of_resource_def)
qed

section \<open>Properties\<close>

lemma choice_exclusive:
  assumes lib: "cpuset_lib (ch_cpuset env)"
    and names: "\<forall>r \<in> set (map fst (c_Requests c)). \<not> cloudphone_res r"
      "filter exclusive_res (map fst (c_Requests c)) = [setResourceBaseName @ CHR ''/'' # pool]" "CHR ''/'' \<notin> set pool"
    and policy: "HTPolicy (SelectPool (ch_cpuset env) (ch_poolConfig env) pool) \<noteq> MultiThreadHTPolicy"
    and ids: "allocated_ids env pod c (setResourceBaseName @ CHR ''/'' # pool) = slot_device_ids (ch_numOfCpus env) slots"
      "slots \<noteq> []" "\<forall>(cpu, k) \<in> set slots. valid_slot (ch_numOfCpus env) cpu k"
  shows "\<exists>s. determineCorrectCpuset env pod c = Ok (s, s) \<and>
    cs_elems (ch_cpuset env) s = fst ` set slots \<union>
      (if \<exists>r \<in> set (map fst (c_Requests c)). shared_res r
       then cs_elems (ch_cpuset env) (CPUset (SelectPool (ch_cpuset env) (ch_poolConfig env) SharedPoolID)) else {})"
proof -
  let ?cs = "ch_cpuset env" and ?r = "setResourceBaseName @ CHR ''/'' # pool"
  obtain s where s: "getListOfAllocatedExclusiveCpus env ?r pod c = Ok s" "cs_elems ?cs s = fst ` set slots"
    using allocated_set [OF lib ids(2,1,3)] by blast
  have "exclusive_set env pod c ?r = Ok s"
    using s(1) pool_of_resource_ok [OF names(3)] policy by (simp add: exclusive_set_def)
  then have ex: "\<forall>r \<in> set (map fst (c_Requests c)). exclusive_res r \<longrightarrow> exclusive_set env pod c r = Ok s"
  proof (intro ballI impI)
    fix r assume ok: "exclusive_set env pod c ?r = Ok s" and "r \<in> set (map fst (c_Requests c))" "exclusive_res r"
    then have "r \<in> set (filter exclusive_res (map fst (c_Requests c)))" by simp
    then have "r = ?r" unfolding names(2) by simp
    with ok show "exclusive_set env pod c r = Ok s" by simp
  qed
  have loop: "choose_loop env pod c (cs_zero ?cs) (cs_zero ?cs) (map fst (c_Requests c)) =
      Ok (Sets (if \<exists>r \<in> set (map fst (c_Requests c)). shared_res r
        then CPUset (SelectPool ?cs (ch_poolConfig env) SharedPoolID) else cs_zero ?cs) s)"
    using choose_loop_eq [OF names(1) ex, of "cs_zero ?cs" "cs_zero ?cs"] names(2) by simp
  have "\<not> cs_IsEmpty ?cs s" using s(2) ids(2) cpuset_lib.IsEmpty_iff [OF lib] by simp
  with loop s(2) show ?thesis
    by (simp add: determineCorrectCpuset_def Let_def cpuset_lib.elems_Union [OF lib] cpuset_lib.elems_zero [OF lib] Un_commute)
qed

text \<open>C10: A container that was given devices of one exclusive pool, without hyper-threading siblings, gets
  exactly the CPUs behind those devices, together with the shared pool when it also requests a
  shared resource.\<close>

theorem determineCorrectCpuset_exclusive:
  assumes lib: "cpuset_lib (ch_cpuset env)"
    and names: "\<forall>r \<in> set (map fst (c_Requests c)). \<not> cloudphone_res r"
      "filter exclusive_res (map fst (c_Requests c)) = [setResourceBaseName @ CHR ''/'' # pool]" "CHR ''/'' \<notin> set pool"
    and policy: "HTPolicy (SelectPool (ch_cpuset env) (ch_poolConfig env) pool) \<noteq> MultiThreadHTPolicy"
    and ids: "allocated_ids env pod c (setResourceBaseName @ CHR ''/'' # pool) = slot_device_ids (ch_numOfCpus env) slots"
      "slots \<noteq> []" "\<forall>(cpu, k) \<in> set slots. valid_slot (ch_numOfCpus env) cpu k"
  shows "\<exists>s. determineCorrectCpuset env pod c = Ok (s, s) \<and>
    cs_elems (ch_cpuset env) s = fst ` set slots \<union>
      (if \<exists>r \<in> set (map fst (c_Requests c)). shared_res r
       then cs_elems (ch_cpuset env) (CPUset (SelectPool (ch_cpuset env) (ch_poolConfig env) SharedPoolID)) else {})"
  using assms by (rule choice_exclusive)

text \<open>Containers without devices.\<close>

lemma choice_without_devices:
  assumes lib: "cpuset_lib (ch_cpuset env)"
    and "\<forall>r \<in> set (map fst (c_Requests c)). \<not> cloudphone_res r \<and> \<not> exclusive_res r"
  shows "\<exists>s. determineCorrectCpuset env pod c = Ok (s, s) \<and>
    cs_elems (ch_cpuset env) s = cs_elems (ch_cpuset env) (CPUset (SelectPool (ch_cpuset env) (ch_poolConfig env)
      (if (\<exists>r \<in> set (map fst (c_Requests c)). shared_res r) \<and>
          cs_elems (ch_cpuset env) (CPUset (SelectPool (ch_cpuset env) (ch_poolConfig env) SharedPoolID)) \<noteq> {}
       then SharedPoolID else DefaultPoolID)))"
proof -
  let ?cs = "ch_cpuset env"
  have "filter exclusive_res (map fst (c_Requests c)) = []" using assms(2) by (simp add: filter_empty_conv)
  then have loop: "choose_loop env pod c (cs_zero ?cs) (cs_zero ?cs) (map fst (c_Requests c)) =
      Ok (Sets (if \<exists>r \<in> set (map fst (c_Requests c)). shared_res r
        then CPUset (SelectPool ?cs (ch_poolConfig env) SharedPoolID) else cs_zero ?cs) (cs_zero ?cs))"
    using choose_loop_eq [of "map fst (c_Requests c)" env pod c "\<lambda>_. cs_zero ?cs" "cs_zero ?cs" "cs_zero ?cs"] assms(2)
    by auto
  show ?thesis
    using loop by (auto simp: determineCorrectCpuset_def Let_def cpuset_lib.IsEmpty_iff [OF lib]
        cpuset_lib.elems_Union [OF lib] cpuset_lib.elems_zero [OF lib])
qed

text \<open>A container that requests no exclusive or cloudphone resource gets the shared pool when it
  requests a shared resource and that pool is not empty, and the default pool otherwise.\<close>

theorem determineCorrectCpuset_other:
  assumes lib: "cpuset_lib (ch_cpuset env)"
    and "\<forall>r \<in> set (map fst (c_Requests c)). \<not> cloudphone_res r \<and> \<not> exclusive_res r"
  shows "\<exists>s. determineCorrectCpuset env pod c = Ok (s, s) \<and>
    cs_elems (ch_cpuset env) s = cs_elems (ch_cpuset env) (CPUset (SelectPool (ch_cpuset env) (ch_poolConfig env)
      (if (\<exists>r \<in> set (map fst (c_Requests c)). shared_res r) \<and>
          cs_elems (ch_cpuset env) (CPUset (SelectPool (ch_cpuset env) (ch_poolConfig env) SharedPoolID)) \<noteq> {}
       then SharedPoolID else DefaultPoolID)))"
  using assms by (rule choice_without_devices)

text \<open>cpusetter goes by a substring where the device plugin goes by the prefix: a container whose only
  resource belongs to a pool that is exclusive by its prefix but has \<^verbatim>\<open>shared\<close> in its name runs on the
  shared pool, whatever devices it was given.\<close>

theorem exclusive_pool_taken_for_shared:
  assumes "cpuset_lib (ch_cpuset env)" "map fst (c_Requests c) = [setResourceBaseName @ CHR ''/'' # pool]"
    and "DeterminePoolType pool = ExclusivePoolID" "Contains pool SharedPoolID"
    and "cs_elems (ch_cpuset env) (CPUset (SelectPool (ch_cpuset env) (ch_poolConfig env) SharedPoolID)) \<noteq> {}"
  shows "\<exists>s. determineCorrectCpuset env pod c = Ok (s, s) \<and>
    cs_elems (ch_cpuset env) s = cs_elems (ch_cpuset env) (CPUset (SelectPool (ch_cpuset env) (ch_poolConfig env) SharedPoolID))"
proof -
  obtain a b where "pool = a @ SharedPoolID @ b" using assms(4) Contains_iff by blast
  then have "Contains (setResourceBaseName @ CHR ''/'' # pool) SharedPoolID"
    unfolding Contains_iff by (intro exI [of _ "setResourceBaseName @ CHR ''/'' # a"] exI [of _ b]) simp
  moreover have "Contains (setResourceBaseName @ CHR ''/'' # pool) setResourceBaseName"
    by (rule HasPrefix_Contains) simp
  ultimately have "shared_res (setResourceBaseName @ CHR ''/'' # pool)" by (simp add: shared_res_def)
  then have "\<forall>r \<in> set (map fst (c_Requests c)). \<not> cloudphone_res r \<and> \<not> exclusive_res r"
    "\<exists>r \<in> set (map fst (c_Requests c)). shared_res r"
    unfolding assms(2) by (simp_all add: res_kinds)
  with assms(5) choice_without_devices [OF assms(1), of c pod] show ?thesis by simp
qed

text \<open>The CPUs a cloudphone container really runs on.\<close>

lemma node_cores_elems:
  assumes "cpuset_lib cs"
  shows "cs_elems cs (node_cores cs idx acc m) = cs_elems cs acc \<union> {t_Core v |k v. (k, v) \<in> set m \<and> t_Node v = idx}"
proof (induction m arbitrary: acc)
  case (Cons e m)
  obtain k v where e: "e = (k, v)" by (cases e)
  note lib = cpuset_lib.elems_Union [OF assms] cpuset_lib.elems_New [OF assms]
  show ?case by (auto simp: e Cons.IH lib)
qed simp

lemma choose_loop_prefix:
  "\<forall>r \<in> set pre. \<not> shared_res r \<and> \<not> exclusive_res r \<and> \<not> cloudphone_res r \<Longrightarrow>
     choose_loop env pod c sh ex (pre @ rs) = choose_loop env pod c sh ex rs"
  by (induction pre) (simp_all add: choose_loop_skip)

text \<open>C38: A container that was given devices of a cloudphone pool is shown exactly those CPUs. It really runs
  on the core numbers that the core map of the selected pool, which \<^verbatim>\<open>ReadPoolConfigFile\<close> restricts to the pool's
  own CPUs, has for the NUMA node of the lowest of them (node 0 when the lowest has no entry there), which may
  be fewer than all cores of that node.\<close>

theorem determineCorrectCpuset_cloudphone:
  assumes lib: "cpuset_lib (ch_cpuset env)"
    and names: "map fst (c_Requests c) = pre @ (setResourceBaseName @ CHR ''/'' # pool) # post"
      "\<forall>r \<in> set pre. \<not> shared_res r \<and> \<not> exclusive_res r \<and> \<not> cloudphone_res r"
      "cloudphone_res (setResourceBaseName @ CHR ''/'' # pool)" "CHR ''/'' \<notin> set pool"
    and ids: "allocated_ids env pod c (setResourceBaseName @ CHR ''/'' # pool) = slot_device_ids (ch_numOfCpus env) slots"
      "slots \<noteq> []" "\<forall>(cpu, k) \<in> set slots. valid_slot (ch_numOfCpus env) cpu k"
    and cm: "coreMap = CoreMap (SelectPool (ch_cpuset env) (ch_poolConfig env) pool)"
  shows "\<exists>s real. determineCorrectCpuset env pod c = Ok (s, real) \<and>
    cs_elems (ch_cpuset env) s = fst ` set slots \<and>
    cs_elems (ch_cpuset env) real =
      {t_Core v |k v. (k, v) \<in> set coreMap \<and> t_Node v = t_Node (topo_at coreMap (Min (fst ` set slots)))}"
proof -
  let ?cs = "ch_cpuset env" and ?r = "setResourceBaseName @ CHR ''/'' # pool"
  obtain s where s: "getListOfAllocatedExclusiveCpus env ?r pod c = Ok s" "cs_elems ?cs s = fst ` set slots"
    using allocated_set [OF lib ids(2,1,3)] by blast
  then have ne: "\<not> cs_IsEmpty ?cs s" "cs_List ?cs s \<noteq> []"
    using ids(2) cpuset_lib.IsEmpty_iff [OF lib] by (auto simp: cs_elems_def)
  obtain cpu rest where l: "cs_List ?cs s = cpu # rest" using ne(2) by (cases "cs_List ?cs s") auto
  then have "cpu = Min (set (cs_List ?cs s))"
    using cpuset_lib.List_sorted [OF lib, of s] by (auto intro!: Min_eqI [symmetric])
  then have cpu: "cpu = Min (fst ` set slots)" using s(2) by (simp add: cs_elems_def)
  define real where "real = node_cores ?cs (t_Node (topo_at coreMap cpu)) (cs_New ?cs []) coreMap"
  have "cloudphone_sets env pool s = Ok (s, real)"
    using ne l by (simp add: cloudphone_sets_def Let_def real_def cm)
  moreover have "choose_loop env pod c (cs_zero ?cs) (cs_zero ?cs) (map fst (c_Requests c)) =
      choose_loop env pod c (cs_zero ?cs) (cs_zero ?cs) (?r # post)"
    unfolding names(1) by (rule choose_loop_prefix [OF names(2)])
  ultimately have "determineCorrectCpuset env pod c = Ok (s, real)"
    using names(3) s(1) pool_of_resource_ok [OF names(4)]
    by (auto simp: determineCorrectCpuset_def Let_def choose_loop.simps res_kinds)
  moreover have "cs_elems ?cs real = {t_Core v |k v. (k, v) \<in> set coreMap \<and> t_Node v = t_Node (topo_at coreMap cpu)}"
    by (simp add: real_def node_cores_elems [OF lib] cpuset_lib.elems_New [OF lib])
  ultimately show ?thesis using s(2) cpu by auto
qed

text \<open>Whatever is requested: if every source of CPUs stays within \<open>D\<close> as far as \<open>P\<close> is concerned, so does the choice.\<close>

definition resource_within :: "'s choice_env \<Rightarrow> pod \<Rightarrow> container \<Rightarrow> int set \<Rightarrow> int set \<Rightarrow> string \<Rightarrow> bool" where
  "resource_within env pod c P D r \<longleftrightarrow>
     (exclusive_res r \<longrightarrow> (\<forall>x. exclusive_set env pod c r = Ok x \<longrightarrow> cs_elems (ch_cpuset env) x \<inter> P \<subseteq> D)) \<and>
     (cloudphone_res r \<longrightarrow> (\<forall>s n a b. getListOfAllocatedExclusiveCpus env r pod c = Ok s \<and>
        pool_of_resource r = Ok n \<and> cloudphone_sets env n s = Ok (a, b) \<longrightarrow> cs_elems (ch_cpuset env) b \<inter> P \<subseteq> D))"

lemma choose_loop_within:
  assumes "cs_elems (ch_cpuset env) (CPUset (SelectPool (ch_cpuset env) (ch_poolConfig env) SharedPoolID)) \<inter> P \<subseteq> D"
    and "\<forall>r \<in> set rs. resource_within env pod c P D r"
    and "cs_elems (ch_cpuset env) sh \<inter> P \<subseteq> D" "cs_elems (ch_cpuset env) ex \<inter> P \<subseteq> D"
    and "choose_loop env pod c sh ex rs = Ok res"
  shows "case res of Sets a b \<Rightarrow> cs_elems (ch_cpuset env) a \<inter> P \<subseteq> D \<and> cs_elems (ch_cpuset env) b \<inter> P \<subseteq> D
    | Early a b \<Rightarrow> cs_elems (ch_cpuset env) b \<inter> P \<subseteq> D"
  using assms
proof (induction rs arbitrary: sh ex)
  case (Cons r rs)
  have r: "resource_within env pod c P D r" and rs: "\<forall>r \<in> set rs. resource_within env pod c P D r" using Cons.prems(2) by simp_all
  consider "shared_res r" | "exclusive_res r" | "cloudphone_res r" | "\<not> shared_res r" "\<not> exclusive_res r" "\<not> cloudphone_res r" by blast
  then show ?case
  proof cases
    case 1
    show ?thesis by (rule Cons.IH [OF Cons.prems(1) rs Cons.prems(1,4)]) (use 1 Cons.prems(5) in \<open>simp add: choose_loop_shared\<close>)
  next
    case 2
    then obtain x where x: "exclusive_set env pod c r = Ok x"
      using Cons.prems(5) by (auto simp: choose_loop.simps res_kinds exclusive_set_def and_then_Ok_iff)
    with 2 r have "cs_elems (ch_cpuset env) x \<inter> P \<subseteq> D" unfolding resource_within_def by blast
    then show ?thesis
      by (rule Cons.IH [OF Cons.prems(1) rs Cons.prems(3)]) (use Cons.prems(5) choose_loop_exclusive [OF 2 x] in simp)
  next
    case 3
    then obtain s n a b where "getListOfAllocatedExclusiveCpus env r pod c = Ok s" "pool_of_resource r = Ok n"
      "cloudphone_sets env n s = Ok (a, b)" and res: "res = Early a b"
      using Cons.prems(5) by (auto simp: choose_loop.simps res_kinds and_then_Ok_iff split: prod.splits)
    with 3 r have "cs_elems (ch_cpuset env) b \<inter> P \<subseteq> D" unfolding resource_within_def by blast
    with res show ?thesis by simp
  next
    case 4
    show ?thesis by (rule Cons.IH [OF Cons.prems(1) rs Cons.prems(3,4)]) (use 4 Cons.prems(5) in \<open>simp add: choose_loop_skip\<close>)
  qed
qed auto

lemma choice_within:
  assumes lib: "cpuset_lib (ch_cpuset env)"
    and "cs_elems (ch_cpuset env) (CPUset (SelectPool (ch_cpuset env) (ch_poolConfig env) SharedPoolID)) \<inter> P \<subseteq> D"
    and "cs_elems (ch_cpuset env) (CPUset (SelectPool (ch_cpuset env) (ch_poolConfig env) DefaultPoolID)) \<inter> P \<subseteq> D"
    and "\<forall>r \<in> set (map fst (c_Requests c)). resource_within env pod c P D r"
    and "determineCorrectCpuset env pod c = Ok (cfg, realSet)"
  shows "cs_elems (ch_cpuset env) realSet \<inter> P \<subseteq> D"
proof -
  let ?z = "cs_zero (ch_cpuset env)"
  have z: "cs_elems (ch_cpuset env) ?z \<inter> P \<subseteq> D" by (simp add: cpuset_lib.elems_zero [OF lib])
  obtain res where res: "choose_loop env pod c ?z ?z (map fst (c_Requests c)) = Ok res"
    using assms(5) by (auto simp: determineCorrectCpuset_def Let_def and_then_Ok_iff)
  from choose_loop_within [OF assms(2,4) z z res] assms(3,5) res show ?thesis
    by (cases res) (auto simp: determineCorrectCpuset_def Let_def cpuset_lib.elems_Union [OF lib] split: if_splits)
qed

section \<open>A node for the witnesses\<close>

definition topo :: "int \<Rightarrow> int \<Rightarrow> int \<times> topology" where
  "topo cpu node = (cpu, \<lparr>t_Node = node, t_Core = cpu, t_Devices = []\<rparr>)"

definition demo_choice_config :: "int list pool_config" where
  "demo_choice_config =
     \<lparr>Pools = [named_pool ''shared'' [0, 1], named_pool ''exclusive'' [2, 3],
        (''cloudphone'', (snd (named_pool ''cloudphone'' [4, 5, 6, 7]))\<lparr>CoreMap := [topo 4 0, topo 5 0, topo 6 1, topo 7 1]\<rparr>),
        named_pool ''default'' [8]], NodeSelector = []\<rparr>"

text \<open>Devices 3 and 2 + 9 of the exclusive pool, 6 of the cloudphone pool, and 2 of a confusingly named one.\<close>

definition demo_entry :: "string \<Rightarrow> string list \<Rightarrow> pod_devices_entry" where
  "demo_entry res ids = \<lparr>PodUID = ''uid'', ContainerName = ''c'', ResourceName = res, DeviceIDs = ids\<rparr>"

definition demo_choice :: "int list choice_env" where
  "demo_choice =
     \<lparr>ch_cpuset = ref_cpuset,
      ch_checkpoint = \<lparr>cp_read = Ok [], cp_unmarshal_old = (\<lambda>b. Ok \<lparr>PodDeviceEntries =
        [demo_entry ''bonc.k8s.io/exclusive'' [''3'', ''11''], demo_entry ''bonc.k8s.io/cloudphone'' [''6''],
         demo_entry ''bonc.k8s.io/exclusive_shared'' [''2'']]\<rparr>), cp_unmarshal_new = (\<lambda>b. Err [])\<rparr>,
      ch_numOfCpus = 9, ch_htMap = [], ch_addHT = (\<lambda>s m. s), ch_poolConfig = demo_choice_config\<rparr>"

definition requesting :: "string list \<Rightarrow> container" where
  "requesting names =
     \<lparr>c_Name = ''c'', c_Command = [], c_Args = [], c_Env = [], c_VolumeMounts = [], c_Limits = [],
      c_Requests = map (\<lambda>n. (n, ''1'')) names, c_RestartPolicy = None\<rparr>"

definition choice_pod :: "container list \<Rightarrow> pod" where
  "choice_pod cs =
     \<lparr>p_Name = ''pod'', p_Namespace = ''ns'', p_UID = ''uid'', p_Annotations = [], p_DeletionTimestamp = None,
      p_NodeName = ''node'', p_Containers = cs, p_InitContainers = [], p_Volumes = [], p_Phase = PodRunning,
      p_Reason = [], p_Conditions = [], p_InitContainerStatuses = [], p_ContainerStatuses = []\<rparr>"

lemma demo_lib: "cpuset_lib (ch_cpuset demo_choice)"
  using ref.cpuset_lib_axioms by (simp add: demo_choice_def)

lemma demo_elems: "cs_elems (ch_cpuset demo_choice) s = set s"
  by (simp add: demo_choice_def)

theorem determineCorrectCpuset_exclusive_witness:
  "\<exists>s. determineCorrectCpuset demo_choice (choice_pod []) (requesting [''cpu'', ''bonc.k8s.io/exclusive'']) = Ok (s, s) \<and>
     set s = {2, 3}"
proof -
  let ?c = "requesting [''cpu'', ''bonc.k8s.io/exclusive'']"
  have h: "\<forall>r \<in> set (map fst (c_Requests ?c)). \<not> cloudphone_res r"
    "filter exclusive_res (map fst (c_Requests ?c)) = [setResourceBaseName @ CHR ''/'' # ''exclusive'']"
    "CHR ''/'' \<notin> set ''exclusive''"
    "HTPolicy (SelectPool (ch_cpuset demo_choice) (ch_poolConfig demo_choice) ''exclusive'') \<noteq> MultiThreadHTPolicy"
    "allocated_ids demo_choice (choice_pod []) ?c (setResourceBaseName @ CHR ''/'' # ''exclusive'') =
       slot_device_ids (ch_numOfCpus demo_choice) [(3, 0), (2, 1)]"
    "[(3, 0), (2 :: int, 1 :: int)] \<noteq> []" "\<forall>(cpu, k) \<in> set [(3, 0), (2, 1)]. valid_slot (ch_numOfCpus demo_choice) cpu k"
    by code_simp+
  have "\<not> (\<exists>r \<in> set (map fst (c_Requests ?c)). shared_res r)" by code_simp
  then show ?thesis
    using determineCorrectCpuset_exclusive [OF demo_lib h] by (auto simp: demo_elems)
qed

theorem determineCorrectCpuset_other_witness:
  "\<exists>s. determineCorrectCpuset demo_choice (choice_pod []) (requesting [''cpu'', ''bonc.k8s.io/shared'']) = Ok (s, s) \<and>
     set s = {0, 1}"
proof -
  let ?c = "requesting [''cpu'', ''bonc.k8s.io/shared'']"
  have "\<forall>r \<in> set (map fst (c_Requests ?c)). \<not> cloudphone_res r \<and> \<not> exclusive_res r"
    "\<exists>r \<in> set (map fst (c_Requests ?c)). shared_res r"
    "CPUset (SelectPool (ch_cpuset demo_choice) (ch_poolConfig demo_choice) SharedPoolID) = [0, 1]" by code_simp+
  then show ?thesis
    using determineCorrectCpuset_other [OF demo_lib, of ?c "choice_pod []"] by (auto simp: demo_elems)
qed

theorem exclusive_pool_taken_for_shared_witness:
  "\<exists>s. determineCorrectCpuset demo_choice (choice_pod []) (requesting [''bonc.k8s.io/exclusive_shared'']) = Ok (s, s) \<and>
     set s = {0, 1} \<and>
   allocated_ids demo_choice (choice_pod []) (requesting [''bonc.k8s.io/exclusive_shared'']) ''bonc.k8s.io/exclusive_shared'' = [''2'']"
proof -
  let ?c = "requesting [''bonc.k8s.io/exclusive_shared'']"
  have h: "map fst (c_Requests ?c) = [setResourceBaseName @ CHR ''/'' # ''exclusive_shared'']"
    "DeterminePoolType ''exclusive_shared'' = ExclusivePoolID" "Contains ''exclusive_shared'' SharedPoolID" by code_simp+
  have p: "CPUset (SelectPool (ch_cpuset demo_choice) (ch_poolConfig demo_choice) SharedPoolID) = [0, 1]" by code_simp
  have ids: "allocated_ids demo_choice (choice_pod []) ?c ''bonc.k8s.io/exclusive_shared'' = [''2'']" by code_simp
  show ?thesis
    using exclusive_pool_taken_for_shared [OF demo_lib h, of "choice_pod []"] p ids by (auto simp: demo_elems)
qed

theorem determineCorrectCpuset_cloudphone_witness:
  "\<exists>s real. determineCorrectCpuset demo_choice (choice_pod []) (requesting [''cpu'', ''bonc.k8s.io/cloudphone'']) = Ok (s, real) \<and>
     set s = {6} \<and> 7 \<in> set real \<and> 4 \<notin> set real"
proof -
  let ?c = "requesting [''cpu'', ''bonc.k8s.io/cloudphone'']"
  let ?m = "[topo 4 0, topo 5 0, topo 6 1, topo 7 1]"
  have h: "map fst (c_Requests ?c) = [''cpu''] @ (setResourceBaseName @ CHR ''/'' # ''cloudphone'') # []"
    "\<forall>r \<in> set [''cpu'']. \<not> shared_res r \<and> \<not> exclusive_res r \<and> \<not> cloudphone_res r"
    "cloudphone_res (setResourceBaseName @ CHR ''/'' # ''cloudphone'')" "CHR ''/'' \<notin> set ''cloudphone''"
    "allocated_ids demo_choice (choice_pod []) ?c (setResourceBaseName @ CHR ''/'' # ''cloudphone'') =
       slot_device_ids (ch_numOfCpus demo_choice) [(6, 0)]"
    "[(6 :: int, 0 :: int)] \<noteq> []" "\<forall>(cpu, k) \<in> set [(6, 0)]. valid_slot (ch_numOfCpus demo_choice) cpu k" by code_simp+
  have m: "?m = CoreMap (SelectPool (ch_cpuset demo_choice) (ch_poolConfig demo_choice) ''cloudphone'')" by code_simp
  show ?thesis
    using determineCorrectCpuset_cloudphone [OF demo_lib h m]
    by (auto simp: demo_elems topo_def topo_at_def intro!: exI [of _ 7] exI [of _ "\<lparr>t_Node = 1, t_Core = 7, t_Devices = []\<rparr>"])
qed


text \<open>A container with two exclusive pools: the second set replaces the first, in the order in which the map of
  its requests is visited, so it is kept off CPUs it was given.\<close>

theorem last_exclusive_pool_wins:
  assumes lib: "cpuset_lib (ch_cpuset env)"
    and names: "\<forall>r \<in> set (map fst (c_Requests c)). \<not> cloudphone_res r \<and> \<not> shared_res r"
      "filter exclusive_res (map fst (c_Requests c)) = [r1, r2]"
    and sets: "exclusive_set env pod c r1 = Ok a" "exclusive_set env pod c r2 = Ok b"
      "r1 \<noteq> r2" "cs_elems (ch_cpuset env) b \<noteq> {}"
  shows "\<exists>s. determineCorrectCpuset env pod c = Ok (s, s) \<and> cs_elems (ch_cpuset env) s = cs_elems (ch_cpuset env) b"
proof -
  let ?cs = "ch_cpuset env" and ?x = "\<lambda>r. if r = r1 then a else b"
  have no: "\<forall>r \<in> set (map fst (c_Requests c)). \<not> cloudphone_res r" using names(1) by blast
  have "\<forall>r \<in> set (map fst (c_Requests c)). exclusive_res r \<longrightarrow> exclusive_set env pod c r = Ok (?x r)"
  proof (intro ballI impI)
    fix r assume "r \<in> set (map fst (c_Requests c))" "exclusive_res r"
    then have "r \<in> set (filter exclusive_res (map fst (c_Requests c)))" by simp
    then show "exclusive_set env pod c r = Ok (?x r)" unfolding names(2) using sets(1,2) by auto
  qed
  from choose_loop_eq [OF no this, of "cs_zero ?cs" "cs_zero ?cs"]
  have "choose_loop env pod c (cs_zero ?cs) (cs_zero ?cs) (map fst (c_Requests c)) = Ok (Sets (cs_zero ?cs) b)"
    using names sets(3) by auto
  then show ?thesis
    using sets(4) by (simp add: determineCorrectCpuset_def Let_def cpuset_lib.IsEmpty_iff [OF lib]
        cpuset_lib.elems_Union [OF lib] cpuset_lib.elems_zero [OF lib])
qed

end
