(* ===== verification/File_System.thy ===== *)
theory File_System
  imports Go_Prelude "HOL-Library.List_Lexorder" "HOL-Library.Char_ord"
begin

text \<open>
  The part of the file system cpusetter works on, as a tree whose directories list their entries
  in the order of the names, the order \<^verbatim>\<open>os.ReadDir\<close> and \<^verbatim>\<open>filepath.Walk\<close> use. A path is the list of its
  components from the root of the tree; \<open>render\<close> is its string. \<open>walk\<close> is \<^verbatim>\<open>filepath.Walk\<close> with its
  treatment of \<^verbatim>\<open>SkipDir\<close>, for a function that passes a state on.

  The interface \<open>file_store\<close> states what a write promises to a later read; the client lemma in it
  is about a sequence of writes. It is interpreted on the tree. Further lemmas show what the two
  walks of cpusetter find: the last match outside earlier matches, and the last directory.
\<close>

section \<open>Trees\<close>

datatype node = File (content: string) | Dir (entries: "(string \<times> node) list")

type_synonym path = "string list"

definition render :: "path \<Rightarrow> string" where
  "render p = concat (map (\<lambda>c. CHR ''/'' # c) p)"

fun lookup :: "node \<Rightarrow> path \<Rightarrow> node option" where
  "lookup t [] = Some t"
| "lookup (File c) (n # p) = None"
| "lookup (Dir es) (n # p) = Option.bind (map_of es n) (\<lambda>t. lookup t p)"

definition read_file :: "node \<Rightarrow> path \<Rightarrow> string option" where
  "read_file t p = (case lookup t p of Some (File c) \<Rightarrow> Some c | _ \<Rightarrow> None)"

fun put_entry :: "string \<Rightarrow> node \<Rightarrow> (string \<times> node) list \<Rightarrow> (string \<times> node) list" where
  "put_entry n t [] = [(n, t)]"
| "put_entry n t ((m, u) # es) =
     (if n = m then (n, t) # es
      else if n < m then (n, t) # (m, u) # es
      else (m, u) # put_entry n t es)"

text \<open>\<^verbatim>\<open>os.WriteFile\<close>: a missing file is created, a missing directory or a directory in the place of the
  file is an error.\<close>

fun write_file :: "node \<Rightarrow> path \<Rightarrow> string \<Rightarrow> node option" where
  "write_file (File _) [] c = Some (File c)"
| "write_file (Dir _) [] c = None"
| "write_file (File _) (n # p) c = None"
| "write_file (Dir es) (n # p) c =
     (case map_of es n of
        None \<Rightarrow> (if p = [] then Some (Dir (put_entry n (File c) es)) else None)
      | Some t \<Rightarrow> map_option (\<lambda>t'. Dir (put_entry n t' es)) (write_file t p c))"

text \<open>\<^verbatim>\<open>os.MkdirAll\<close>: \<open>None\<close> when a component is a file.\<close>

fun mkdir_all :: "node \<Rightarrow> path \<Rightarrow> node option" where
  "mkdir_all (Dir es) [] = Some (Dir es)"
| "mkdir_all (File _) p = None"
| "mkdir_all (Dir es) (n # p) =
     map_option (\<lambda>t'. Dir (put_entry n t' es)) (mkdir_all (case map_of es n of None \<Rightarrow> Dir [] | Some t \<Rightarrow> t) p)"

text \<open>Replaces the subtree at an existing path.\<close>

fun set_node :: "node \<Rightarrow> path \<Rightarrow> node \<Rightarrow> node" where
  "set_node t [] u = u"
| "set_node (File c) (n # p) u = File c"
| "set_node (Dir es) (n # p) u =
     (case map_of es n of None \<Rightarrow> Dir es | Some t \<Rightarrow> Dir (put_entry n (set_node t p u) es))"

definition is_dir :: "node \<Rightarrow> bool" where
  "is_dir t = (case t of Dir _ \<Rightarrow> True | File _ \<Rightarrow> False)"

lemma is_dir_simps [simp]: "is_dir (Dir es)" "\<not> is_dir (File c)"
  by (simp_all add: is_dir_def)

section \<open>Walk\<close>

datatype walk_ret = WNil | WSkip | WErr

text \<open>The walk function gets the state, the path, whether it is a directory, and whether an error
  occurred; \<open>bad\<close> tells which directories cannot be read.\<close>

fun walk_node :: "(path \<Rightarrow> bool) \<Rightarrow> ('a \<Rightarrow> path \<Rightarrow> bool \<Rightarrow> bool \<Rightarrow> 'a \<times> walk_ret) \<Rightarrow> 'a \<Rightarrow> path \<Rightarrow> node \<Rightarrow> 'a \<times> walk_ret"
  and walk_entries :: "(path \<Rightarrow> bool) \<Rightarrow> ('a \<Rightarrow> path \<Rightarrow> bool \<Rightarrow> bool \<Rightarrow> 'a \<times> walk_ret) \<Rightarrow> 'a \<Rightarrow> path
    \<Rightarrow> (string \<times> node) list \<Rightarrow> 'a \<times> walk_ret" where
  "walk_node bad fn s p (File c) = fn s p False False"
| "walk_node bad fn s p (Dir es) =
     (case fn s p True (bad p) of (s1, r) \<Rightarrow>
        if bad p \<or> r \<noteq> WNil then (s1, r) else walk_entries bad fn s1 p es)"
| "walk_entries bad fn s p [] = (s, WNil)"
| "walk_entries bad fn s p ((n, t) # es) =
     (case walk_node bad fn s (p @ [n]) t of (s1, r) \<Rightarrow>
        if r \<noteq> WNil \<and> (\<not> is_dir t \<or> r \<noteq> WSkip) then (s1, r) else walk_entries bad fn s1 p es)"

text \<open>\<^verbatim>\<open>filepath.Walk\<close>: the final state and whether an error is returned.\<close>

definition Walk :: "(path \<Rightarrow> bool) \<Rightarrow> ('a \<Rightarrow> path \<Rightarrow> bool \<Rightarrow> bool \<Rightarrow> 'a \<times> walk_ret) \<Rightarrow> 'a \<Rightarrow> node \<Rightarrow> path \<Rightarrow> 'a \<times> bool" where
  "Walk bad fn s fs root =
     (case (case lookup fs root of None \<Rightarrow> fn s root False True | Some t \<Rightarrow> walk_node bad fn s root t) of
        (s', r) \<Rightarrow> (s', r = WErr))"

section \<open>The interface of reading and writing\<close>

locale file_store =
  fixes rd :: "'f \<Rightarrow> path \<Rightarrow> string option"
    and wr :: "'f \<Rightarrow> path \<Rightarrow> string \<Rightarrow> 'f option"
  assumes rd_wr_same: "wr f p c = Some f' \<Longrightarrow> rd f' p = Some c"
    and rd_wr_other: "wr f p c = Some f' \<Longrightarrow> q \<noteq> p \<Longrightarrow> rd f' q = rd f q"
begin

primrec wr_list :: "'f \<Rightarrow> (path \<times> string) list \<Rightarrow> 'f option" where
  "wr_list f [] = Some f"
| "wr_list f (w # ws) = Option.bind (wr f (fst w) (snd w)) (\<lambda>f'. wr_list f' ws)"

lemma wr_list_frame: "wr_list f ws = Some f' \<Longrightarrow> q \<notin> fst ` set ws \<Longrightarrow> rd f' q = rd f q"
proof (induction ws arbitrary: f)
  case (Cons w ws)
  then obtain f1 where "wr f (fst w) (snd w) = Some f1" "wr_list f1 ws = Some f'"
    by (auto simp: bind_eq_Some_conv)
  with Cons show ?case by (auto simp: rd_wr_other)
qed simp

lemma wr_list_read:
  "wr_list f ws = Some f' \<Longrightarrow> distinct (map fst ws) \<Longrightarrow> (p, c) \<in> set ws \<Longrightarrow> rd f' p = Some c"
proof (induction ws arbitrary: f)
  case (Cons w ws)
  then obtain f1 where f1: "wr f (fst w) (snd w) = Some f1" "wr_list f1 ws = Some f'"
    by (auto simp: bind_eq_Some_conv)
  show ?case
  proof (cases "(p, c) = w")
    case True
    with Cons.prems(2) f1 wr_list_frame [OF f1(2), of p] show ?thesis by (auto simp: rd_wr_same)
  next
    case False
    with Cons f1 show ?thesis by auto
  qed
qed simp

end

section \<open>The tree is a file store\<close>

lemma map_of_put_entry [simp]: "map_of (put_entry n t es) = (map_of es)(n \<mapsto> t)"
  by (induction n t es rule: put_entry.induct) auto

lemma lookup_write_same: "write_file t p c = Some t' \<Longrightarrow> lookup t' p = Some (File c)"
  by (induction t p c arbitrary: t' rule: write_file.induct) (auto split: option.splits if_splits)

lemma read_file_simps [simp]:
  "read_file (File c) [] = Some c" "read_file (Dir es) [] = None" "read_file (File c) (n # p) = None"
  "read_file (Dir es) (n # p) = (case map_of es n of None \<Rightarrow> None | Some t \<Rightarrow> read_file t p)"
  by (simp_all add: read_file_def split: option.splits)

lemma read_write_other: "write_file t p c = Some t' \<Longrightarrow> q \<noteq> p \<Longrightarrow> read_file t' q = read_file t q"
proof (induction t p c arbitrary: t' q rule: write_file.induct)
  case (1 x c)
  then show ?case by (cases q) auto
next
  case (4 es n p c)
  show ?case
  proof (cases q)
    case Nil
    with 4 show ?thesis by (auto split: option.splits if_splits)
  next
    case (Cons m q')
    show ?thesis
    proof (cases "map_of es n")
      case None
      with 4 Cons show ?thesis by (cases q') (auto split: if_splits)
    next
      case (Some t)
      with 4 Cons show ?thesis by auto
    qed
  qed
qed simp_all

interpretation tree: file_store read_file write_file
proof
  show "write_file f p c = Some f' \<Longrightarrow> read_file f' p = Some c" for f p c f'
    by (simp add: read_file_def lookup_write_same)
qed (rule read_write_other)

section \<open>What a walk finds\<close>

text \<open>A function that remembers the last path it accepts and then skips.\<close>

definition find_fn :: "(path \<Rightarrow> bool) \<Rightarrow> path option \<Rightarrow> path \<Rightarrow> bool \<Rightarrow> bool \<Rightarrow> path option \<times> walk_ret" where
  "find_fn m s p isdir err = (if err then (s, WErr) else if m p then (Some p, WSkip) else (s, WNil))"

text \<open>A function that remembers the last directory.\<close>

definition last_fn :: "path \<Rightarrow> path \<Rightarrow> bool \<Rightarrow> bool \<Rightarrow> path \<times> walk_ret" where
  "last_fn s p isdir err = (if err then (s, WErr) else if isdir then (p, WNil) else (s, WNil))"

text \<open>Directories list every name once.\<close>

fun names_once :: "node \<Rightarrow> bool" where
  "names_once (File c) = True"
| "names_once (Dir es) \<longleftrightarrow> distinct (map fst es) \<and> (\<forall>e \<in> set es. names_once (snd e))"

lemma lookup_append: "lookup t (p @ q) = Option.bind (lookup t p) (\<lambda>u. lookup u q)"
  by (induction t p rule: lookup.induct) (auto simp: bind_assoc split: option.splits bind_splits)

text \<open>A path a walk from \<open>p\<close> may find: accepted, in the tree, and with nothing accepted above it.\<close>

definition top_match :: "(path \<Rightarrow> bool) \<Rightarrow> path \<Rightarrow> node \<Rightarrow> path \<Rightarrow> bool" where
  "top_match m p t q \<longleftrightarrow> m (p @ q) \<and> lookup t q \<noteq> None \<and> (\<forall>k < length q. \<not> m (p @ take k q))"

lemma top_match_Nil: "top_match m p t [] \<longleftrightarrow> m p"
  by (simp add: top_match_def)

lemma top_match_Cons:
  "\<not> m p \<Longrightarrow> map_of es n = Some u \<Longrightarrow> top_match m (p @ [n]) u q \<Longrightarrow> top_match m p (Dir es) (n # q)"
  by (auto simp: top_match_def less_Suc_eq_0_disj)

lemma walk_find_sound:
  "names_once t \<Longrightarrow> walk_node bad (find_fn m) s p t = (s', r) \<Longrightarrow>
     s' = s \<or> (\<exists>q. s' = Some (p @ q) \<and> top_match m p t q)"
  "distinct (map fst es) \<Longrightarrow> \<forall>e \<in> set es. names_once (snd e) \<Longrightarrow> walk_entries bad (find_fn m) s p es = (s', r) \<Longrightarrow>
     s' = s \<or> (\<exists>n q u. s' = Some (p @ n # q) \<and> map_of es n = Some u \<and> top_match m (p @ [n]) u q)"
proof (induction bad "find_fn m" s p t and bad "find_fn m" s p es arbitrary: s' r and s' r rule: walk_node_walk_entries.induct)
  case (1 bad s p c)
  then show ?case by (auto simp: find_fn_def top_match_Nil split: if_splits intro!: exI [of _ "[]"])
next
  case (2 bad s p es)
  show ?case
  proof (cases "bad p \<or> m p")
    case True
    with 2(3) show ?thesis by (auto simp: find_fn_def top_match_Nil split: if_splits intro!: exI [of _ "[]"])
  next
    case False
    then have f: "find_fn m s p True (bad p) = (s, WNil)" by (simp add: find_fn_def)
    with 2(3) False have w: "walk_entries bad (find_fn m) s p es = (s', r)" by simp
    have "s' = s \<or> (\<exists>n q u. s' = Some (p @ n # q) \<and> map_of es n = Some u \<and> top_match m (p @ [n]) u q)"
      using 2(1) [of s WNil s' r] f False w 2(2) by auto
    with False show ?thesis using top_match_Cons [of m p es] by blast
  qed
next
  case (3 bad s p)
  then show ?case by simp
next
  case (4 bad s p n t es)
  obtain s1 r1 where w: "walk_node bad (find_fn m) s (p @ [n]) t = (s1, r1)" by fastforce
  have t: "s1 = s \<or> (\<exists>q. s1 = Some ((p @ [n]) @ q) \<and> top_match m (p @ [n]) t q)"
    using 4(1) [OF _ w] 4(4) by simp
  show ?case
  proof (cases "r1 \<noteq> WNil \<and> (\<not> is_dir t \<or> r1 \<noteq> WSkip)")
    case True
    with w 4(5) have "s' = s1" by auto
    with t show ?thesis by auto
  next
    case False
    with w 4(5) have w2: "walk_entries bad (find_fn m) s1 p es = (s', r)" by auto
    have rest: "s' = s1 \<or> (\<exists>n q u. s' = Some (p @ n # q) \<and> map_of es n = Some u \<and> top_match m (p @ [n]) u q)"
      using 4(2) [OF w [symmetric] False _ _ w2] 4(3,4) by simp
    have none: "map_of es n = None" using 4(3) by (simp add: map_of_eq_None_iff)
    from rest show ?thesis
    proof
      assume "s' = s1"
      with t show ?thesis by auto
    next
      assume "\<exists>n q u. s' = Some (p @ n # q) \<and> map_of es n = Some u \<and> top_match m (p @ [n]) u q"
      then obtain k q u where k: "s' = Some (p @ k # q)" "map_of es k = Some u" "top_match m (p @ [k]) u q"
        by blast
      with none have "map_of ((n, t) # es) k = Some u" by auto
      with k show ?thesis by blast
    qed
  qed
qed

lemma walk_find_complete:
  "\<forall>q. \<not> bad (p @ q) \<Longrightarrow> walk_node bad (find_fn m) s p t = (s', r) \<Longrightarrow>
     r \<noteq> WErr \<and> (s \<noteq> None \<longrightarrow> s' \<noteq> None) \<and> ((\<exists>q. lookup t q \<noteq> None \<and> m (p @ q)) \<longrightarrow> s' \<noteq> None)"
  "\<forall>q. \<not> bad (p @ q) \<Longrightarrow> walk_entries bad (find_fn m) s p es = (s', r) \<Longrightarrow>
     r \<noteq> WErr \<and> (s \<noteq> None \<longrightarrow> s' \<noteq> None) \<and>
     ((\<exists>n u q. map_of es n = Some u \<and> lookup u q \<noteq> None \<and> m (p @ n # q)) \<longrightarrow> s' \<noteq> None)"
proof (induction bad "find_fn m" s p t and bad "find_fn m" s p es arbitrary: s' r and s' r rule: walk_node_walk_entries.induct)
  case (1 bad s p c)
  have "lookup (File c) q \<noteq> None \<longleftrightarrow> q = []" for q by (cases q) auto
  with 1 show ?case by (auto simp: find_fn_def split: if_splits)
next
  case (2 bad s p es)
  have nb: "\<not> bad p" using 2(2) by (metis append_Nil2)
  show ?case
  proof (cases "m p")
    case True
    with 2(3) nb show ?thesis by (auto simp: find_fn_def)
  next
    case False
    then have f: "find_fn m s p True (bad p) = (s, WNil)" using nb by (simp add: find_fn_def)
    with 2(3) nb have w: "walk_entries bad (find_fn m) s p es = (s', r)" by simp
    have IH: "r \<noteq> WErr \<and> (s \<noteq> None \<longrightarrow> s' \<noteq> None) \<and>
       ((\<exists>n u q. map_of es n = Some u \<and> lookup u q \<noteq> None \<and> m (p @ n # q)) \<longrightarrow> s' \<noteq> None)"
      using 2(1) [OF f [symmetric] _ 2(2) w] nb by simp
    have "\<exists>n u q'. map_of es n = Some u \<and> lookup u q' \<noteq> None \<and> m (p @ n # q')"
      if "lookup (Dir es) q \<noteq> None" "m (p @ q)" for q
      using that False by (cases q) (auto simp: bind_eq_Some_conv)
    with IH show ?thesis by blast
  qed
next
  case (3 bad s p)
  then show ?case by simp
next
  case (4 bad s p n t es)
  obtain s1 r1 where w: "walk_node bad (find_fn m) s (p @ [n]) t = (s1, r1)" by fastforce
  have nb: "\<forall>q. \<not> bad ((p @ [n]) @ q)" using 4(3) by simp
  note t = 4(1) [OF nb w]
  show ?case
  proof (cases "r1 \<noteq> WNil \<and> (\<not> is_dir t \<or> r1 \<noteq> WSkip)")
    case True
    with t have "\<not> is_dir t" "r1 = WSkip" by (cases r1; auto)+
    then obtain c where "t = File c" by (cases t) auto
    with \<open>r1 = WSkip\<close> w have "s1 \<noteq> None" by (auto simp: find_fn_def split: if_splits)
    with True w 4(4) t show ?thesis by auto
  next
    case False
    with w 4(4) have w2: "walk_entries bad (find_fn m) s1 p es = (s', r)" by auto
    note IH = 4(2) [OF w [symmetric] False 4(3) w2]
    show ?thesis using t IH by (auto split: if_splits; fastforce)
  qed
qed

text \<open>The last directory of a walk has no directory below it.\<close>

abbreviation leaf :: "(string \<times> node) list \<Rightarrow> bool" where
  "leaf es \<equiv> \<forall>e \<in> set es. \<not> is_dir (snd e)"

text \<open>Where the second walk of cpusetter is after an entry and the rest of a directory.\<close>

lemma last_leaf_Cons:
  assumes t: "if is_dir t then \<exists>q ds. s1 = (p @ [n]) @ q \<and> lookup t q = Some (Dir ds) \<and> leaf ds else s1 = s"
    and l: "if leaf es then s' = s1
      else \<exists>n u q ds. s' = p @ n # q \<and> map_of es n = Some u \<and> lookup u q = Some (Dir ds) \<and> leaf ds"
    and none: "map_of es n = None"
  shows "if leaf ((n, t) # es) then s' = s
    else \<exists>k u q ds. s' = p @ k # q \<and> map_of ((n, t) # es) k = Some u \<and> lookup u q = Some (Dir ds) \<and> leaf ds"
proof (cases "leaf es")
  case True
  show ?thesis
  proof (cases "is_dir t")
    case dir: True
    with t obtain q ds where "s1 = p @ n # q" "lookup t q = Some (Dir ds)" "leaf ds" by auto
    with dir True l show ?thesis by auto
  next
    case False
    with True l t show ?thesis by simp
  qed
next
  case False
  with l obtain k u q ds where k: "s' = p @ k # q" "map_of es k = Some u" "lookup u q = Some (Dir ds)" "leaf ds"
    by (auto split: if_splits)
  with none have "map_of ((n, t) # es) k = Some u" by auto
  moreover have "\<not> leaf ((n, t) # es)" using False by simp
  ultimately show ?thesis using k by auto
qed

lemma walk_last:
  "names_once t \<Longrightarrow> \<forall>q. \<not> bad (p @ q) \<Longrightarrow>
     \<exists>s'. walk_node bad last_fn s p t = (s', WNil) \<and>
       (if is_dir t then \<exists>q es. s' = p @ q \<and> lookup t q = Some (Dir es) \<and> leaf es else s' = s)"
  "distinct (map fst es) \<Longrightarrow> \<forall>e \<in> set es. names_once (snd e) \<Longrightarrow> \<forall>q. \<not> bad (p @ q) \<Longrightarrow>
     \<exists>s'. walk_entries bad last_fn s p es = (s', WNil) \<and>
       (if leaf es then s' = s
        else \<exists>n u q ds. s' = p @ n # q \<and> map_of es n = Some u \<and> lookup u q = Some (Dir ds) \<and> leaf ds)"
proof (induction bad "last_fn" s p t and bad "last_fn" s p es rule: walk_node_walk_entries.induct)
  case (1 bad s p c)
  then show ?case by (simp add: last_fn_def)
next
  case (2 bad s p es)
  have nb: "\<not> bad p" using 2(3) by (metis append_Nil2)
  then have f: "last_fn s p True (bad p) = (p, WNil)" by (simp add: last_fn_def)
  obtain s' where w: "walk_entries bad last_fn p p es = (s', WNil)"
    and l: "if leaf es then s' = p
       else \<exists>n u q ds. s' = p @ n # q \<and> map_of es n = Some u \<and> lookup u q = Some (Dir ds) \<and> leaf ds"
    using 2(1) [OF f [symmetric]] nb 2(2,3) by auto
  have "walk_node bad last_fn s p (Dir es) = (s', WNil)" using f nb w by simp
  moreover have "\<exists>q ds. s' = p @ q \<and> lookup (Dir es) q = Some (Dir ds) \<and> leaf ds"
  proof (cases "leaf es")
    case True
    with l show ?thesis by (intro exI [of _ "[]"] exI [of _ es]) simp
  next
    case False
    with l obtain n u q ds where "s' = p @ n # q" "map_of es n = Some u" "lookup u q = Some (Dir ds)" "leaf ds"
      by (auto split: if_splits)
    then show ?thesis by (intro exI [of _ "n # q"] exI [of _ ds]) simp
  qed
  ultimately show ?case by simp
next
  case (3 bad s p)
  then show ?case by simp
next
  case (4 bad s p n t es)
  have nb: "\<forall>q. \<not> bad ((p @ [n]) @ q)" using 4(5) by simp
  obtain s1 where w: "walk_node bad last_fn s (p @ [n]) t = (s1, WNil)"
    and t: "if is_dir t then \<exists>q ds. s1 = (p @ [n]) @ q \<and> lookup t q = Some (Dir ds) \<and> leaf ds else s1 = s"
    using 4(1) [OF _ nb] 4(4) by auto
  have h: "distinct (map fst es)" "\<forall>e \<in> set es. names_once (snd e)" using 4(3,4) by simp_all
  obtain s' where w2: "walk_entries bad last_fn s1 p es = (s', WNil)"
    and l: "if leaf es then s' = s1
       else \<exists>n u q ds. s' = p @ n # q \<and> map_of es n = Some u \<and> lookup u q = Some (Dir ds) \<and> leaf ds"
    using 4(2) [OF w [symmetric] _ h 4(5)] by auto
  have step: "walk_entries bad last_fn s p ((n, t) # es) = (s', WNil)" using w w2 by simp
  have "map_of es n = None" using 4(3) by (simp add: map_of_eq_None_iff)
  from last_leaf_Cons [OF t l this] step show ?case by blast
qed

text \<open>The two walks, as results of \<open>Walk\<close>.\<close>

lemma names_once_lookup: "names_once t \<Longrightarrow> lookup t p = Some u \<Longrightarrow> names_once u"
proof (induction t p rule: lookup.induct)
  case (3 es n p)
  then obtain t where t: "map_of es n = Some t" "lookup t p = Some u" by (auto simp: bind_eq_Some_conv)
  then have "names_once t" using 3(2) map_of_SomeD by fastforce
  with 3(1) t show ?case by simp
qed simp_all

lemma Walk_find_Some:
  assumes "names_once fs" "Walk bad (find_fn m) None fs root = (Some p, e)"
  shows "\<exists>t q. lookup fs root = Some t \<and> p = root @ q \<and> top_match m root t q"
proof (cases "lookup fs root")
  case None
  with assms(2) show ?thesis by (simp add: Walk_def find_fn_def)
next
  case (Some t)
  obtain s r where w: "walk_node bad (find_fn m) None root t = (s, r)" by fastforce
  with Some assms(2) have "s = Some p" by (simp add: Walk_def)
  with walk_find_sound(1) [OF names_once_lookup [OF assms(1) Some] w] Some show ?thesis by auto
qed

lemma Walk_find_total:
  assumes "lookup fs root = Some t" "\<forall>q. \<not> bad (root @ q)" "lookup t q \<noteq> None" "m (root @ q)"
  shows "\<exists>p. Walk bad (find_fn m) None fs root = (Some p, False)"
proof -
  obtain s r where w: "walk_node bad (find_fn m) None root t = (s, r)" by fastforce
  from walk_find_complete(1) [OF assms(2) w] assms(3,4) have "r \<noteq> WErr" "s \<noteq> None" by blast+
  with w assms(1) show ?thesis by (auto simp: Walk_def)
qed

lemma Walk_last_dir:
  assumes "names_once fs" "lookup fs p = Some (Dir es)" "\<forall>q. \<not> bad (p @ q)"
  shows "\<exists>q ds. Walk bad last_fn s fs p = (p @ q, False) \<and> lookup fs (p @ q) = Some (Dir ds) \<and> leaf ds"
proof -
  from walk_last(1) [OF names_once_lookup [OF assms(1,2)] assms(3), of s]
  obtain q ds where "walk_node bad last_fn s p (Dir es) = (p @ q, WNil)" "lookup (Dir es) q = Some (Dir ds)" "leaf ds"
    by auto
  with assms(2) show ?thesis by (auto simp: Walk_def lookup_append)
qed

lemma Walk_last_file:
  assumes "lookup fs p = Some (File c)"
  shows "Walk bad last_fn p fs p = (p, False)"
  using assms by (simp add: Walk_def last_fn_def)

text \<open>Writing into a directory that has no directories succeeds.\<close>

lemma write_file_leaf:
  "lookup fs p = Some (Dir es) \<Longrightarrow> leaf es \<Longrightarrow> \<exists>fs'. write_file fs (p @ [n]) c = Some fs'"
proof (induction fs p rule: lookup.induct)
  case (1 t)
  show ?case
  proof (cases "map_of es n")
    case (Some u)
    then have "\<not> is_dir u" using 1(2) map_of_SomeD by fastforce
    with 1 Some show ?thesis by (cases u) auto
  qed (use 1 in auto)
next
  case (3 ds k p)
  then show ?case by (auto simp: bind_eq_Some_conv)
qed simp

section \<open>The order of directories\<close>

text \<open>The representation invariant: every directory lists its entries in the strict order of the names.
  All operations keep it.\<close>

fun ordered :: "node \<Rightarrow> bool" where
  "ordered (File c) = True"
| "ordered (Dir es) \<longleftrightarrow> sorted_wrt (<) (map fst es) \<and> (\<forall>e \<in> set es. ordered (snd e))"

lemma ordered_names_once: "ordered t \<Longrightarrow> names_once t"
  by (induction t) (auto simp: strict_sorted_iff)

lemma set_put_entry: "set (put_entry n t es) \<subseteq> insert (n, t) (set es)"
  by (induction n t es rule: put_entry.induct) auto

lemma put_entry_sorted: "sorted_wrt (<) (map fst es) \<Longrightarrow> sorted_wrt (<) (map fst (put_entry n t es))"
proof (induction n t es rule: put_entry.induct)
  case (2 n t m u es)
  then show ?case using set_put_entry [of n t es] by (auto simp: subset_iff) fastforce+
qed simp

lemma ordered_put_entry [intro]: "ordered (Dir es) \<Longrightarrow> ordered t \<Longrightarrow> ordered (Dir (put_entry n t es))"
  using set_put_entry [of n t es] by (auto simp: put_entry_sorted)

lemma ordered_map_of: "ordered (Dir es) \<Longrightarrow> map_of es n = Some t \<Longrightarrow> ordered t"
  using map_of_SomeD by fastforce

lemma ordered_lookup: "ordered t \<Longrightarrow> lookup t p = Some u \<Longrightarrow> ordered u"
proof (induction t p rule: lookup.induct)
  case (3 es n p)
  then show ?case using ordered_map_of by (auto simp: bind_eq_Some_conv simp del: ordered.simps)
qed simp_all

lemma ordered_write_file: "ordered t \<Longrightarrow> write_file t p c = Some t' \<Longrightarrow> ordered t'"
proof (induction t p c arbitrary: t' rule: write_file.induct)
  case (4 es n p c)
  then show ?case
    using ordered_map_of [OF 4(2)] ordered.simps(1) [of c]
    by (auto simp del: ordered.simps split: option.splits if_splits intro: ordered_put_entry)
qed auto

lemma ordered_mkdir_all: "ordered t \<Longrightarrow> mkdir_all t p = Some t' \<Longrightarrow> ordered t'"
proof (induction t p arbitrary: t' rule: mkdir_all.induct)
  case (3 es n p)
  have "ordered (case map_of es n of None \<Rightarrow> Dir [] | Some t \<Rightarrow> t)"
    using ordered_map_of [OF 3(2)] by (auto split: option.splits)
  with 3 show ?case by (auto simp del: ordered.simps intro: ordered_put_entry)
qed auto

lemma ordered_set_node: "ordered t \<Longrightarrow> ordered u \<Longrightarrow> ordered (set_node t p u)"
proof (induction t p u rule: set_node.induct)
  case (3 es n p u)
  then show ?case
    using ordered_map_of [OF 3(2)] by (auto simp del: ordered.simps split: option.splits intro: ordered_put_entry)
qed auto

end
