(* ===== verification/Set_Handler.thy ===== *)
theory Set_Handler
  imports Cpuset_Choice File_System
begin

text \<open>
  cpusetter's controller, \<^verbatim>\<open>pkg/sethandler/controller.go\<close> with the file helpers of
  \<^verbatim>\<open>pkg/utils/file.go\<close>: a changed pod of this node gets the cpusets of its containers and of its
  infrastructure container written into the cgroup tree, the directory that shows a container its
  CPUs filled, and an annotation set; a periodic reconciliation repairs containers that fell back to
  all CPUs of the machine.

  The state is the file system tree and the pods that were annotated. Parameters, for the
  operating system and the API server: which directories can be read, which writes and
  directory operations succeed, the unpacked archive, the pods that reads return, what \<^verbatim>\<open>find\<close>
  prints. Names of pods and containers are single path components.

  The lemmas show what is written where and that nothing else changes, that the writing succeeds
  when the container has a cgroup, how often the work is retried, when a pod is handled at all,
  what the reconciliation touches, and where a missing error is dereferenced.
\<close>

section \<open>State and environment\<close>

record world =
  w_fs :: node
  w_annotated :: "string list"

record 's set_env =
  se_choice :: "'s choice_env"
  se_cpusetRoot :: path
  se_cpuRoot :: path
  se_bad :: "path \<Rightarrow> bool"
  se_write_ok :: "path \<Rightarrow> string \<Rightarrow> bool"
  se_mkdir_ok :: "path \<Rightarrow> bool"
  se_remove_ok :: "path \<Rightarrow> bool"
  se_copy_ok :: "path \<Rightarrow> bool"
  se_archive :: "string \<Rightarrow> node option"
  se_annotate_ok :: "pod \<Rightarrow> bool"
  se_nodeName :: string
  se_refresh :: "nat \<Rightarrow> pod option"
  se_find :: "node \<Rightarrow> string option"
  se_kubelet_pods :: "(unit, pod list option) outcome"

definition MaxRetryCount :: nat where "MaxRetryCount = 5"

definition containerPrefixList :: "string list" where
  "containerPrefixList = [''docker://'', ''containerd://'']"

definition se_cs :: "'s set_env \<Rightarrow> 's cpuset_api" where
  "se_cs env = ch_cpuset (se_choice env)"

text \<open>\<^verbatim>\<open>os.WriteFile\<close>, when the kernel accepts the write.\<close>

definition os_write :: "'s set_env \<Rightarrow> node \<Rightarrow> path \<Rightarrow> string \<Rightarrow> node option" where
  "os_write env fs p c = (if se_write_ok env p c then write_file fs p c else None)"

section \<open>Container ids\<close>

fun trim_loop :: "string list \<Rightarrow> string \<Rightarrow> string" where
  "trim_loop [] contName = contName"
| "trim_loop (pre # ps) contName = (if HasPrefix contName pre then TrimPrefix contName pre else trim_loop ps contName)"

definition trimContainerPrefix :: "string \<Rightarrow> string" where
  "trimContainerPrefix contName = trim_loop containerPrefixList contName"

fun determineCid :: "container_status list \<Rightarrow> string \<Rightarrow> string" where
  "determineCid [] containerName = []"
| "determineCid (st # sts) containerName =
     (if st_Name st = containerName then trimContainerPrefix (st_ContainerID st) else determineCid sts containerName)"

fun containerIDInPodStatus :: "container_status list \<Rightarrow> string \<Rightarrow> bool" where
  "containerIDInPodStatus [] containerDirName = False"
| "containerIDInPodStatus (st # sts) containerDirName =
     (if Contains containerDirName (trimContainerPrefix (st_ContainerID st)) then True
      else containerIDInPodStatus sts containerDirName)"

section \<open>Writing cpusets\<close>

text \<open>\<^verbatim>\<open>applyCpusetToContainer\<close>: the directory of the container is the empty path when there is nothing
  to set.\<close>

definition applyCpusetToContainer ::
  "'s set_env \<Rightarrow> node \<Rightarrow> string \<Rightarrow> 's \<Rightarrow> node \<times> (set_error + path)" where
  "applyCpusetToContainer env fs containerID containerCpuset =
     (if cs_IsEmpty (se_cs env) containerCpuset then (fs, Inr [])
      else
        (case Walk (se_bad env) (find_fn (\<lambda>p. Contains (render p) containerID)) None fs (se_cpusetRoot env) of
           (found, True) \<Rightarrow> (fs, Inl (CpusetPathError containerID))
         | (None, False) \<Rightarrow> (fs, Inl (NoCpusetDir containerID))
         | (Some p, False) \<Rightarrow>
             (case Walk (se_bad env) last_fn p fs p of
                (q, True) \<Rightarrow> (fs, Inl (ChildPathError containerID))
              | (q, False) \<Rightarrow>
                  (case os_write env fs (q @ [''cpuset.cpus'']) (cs_String (se_cs env) containerCpuset) of
                     None \<Rightarrow> (fs, Inl (CannotWrite q))
                   | Some fs' \<Rightarrow> (fs', Inr p)))))"

text \<open>\<^verbatim>\<open>getInfraContainerPath\<close>: the last directory beside the container that is not one of the pod's.\<close>

fun infra_loop :: "container_status list \<Rightarrow> path \<Rightarrow> path option \<Rightarrow> (string \<times> node) list \<Rightarrow> path option" where
  "infra_loop sts dir pathToInfra [] = pathToInfra"
| "infra_loop sts dir pathToInfra ((n, t) # es) =
     infra_loop sts dir (if is_dir t \<and> \<not> containerIDInPodStatus sts n then Some (dir @ [n]) else pathToInfra) es"

definition getInfraContainerPath :: "node \<Rightarrow> container_status list \<Rightarrow> path \<Rightarrow> path option" where
  "getInfraContainerPath fs sts searchPath =
     (case lookup fs (butlast searchPath) of
        Some (Dir es) \<Rightarrow> infra_loop sts (butlast searchPath) None es
      | _ \<Rightarrow> None)"

definition applyCpusetToInfraContainer ::
  "'s set_env \<Rightarrow> node \<Rightarrow> pod \<Rightarrow> path \<Rightarrow> node \<times> set_error option" where
  "applyCpusetToInfraContainer env fs pod pathToSearch =
     (let dflt = CPUset (SelectPool (se_cs env) (ch_poolConfig (se_choice env)) DefaultPoolID)
      in if cs_IsEmpty (se_cs env) dflt then (fs, None)
         else if pathToSearch = [] then (fs, Some NoContainerDir)
         else
           (case getInfraContainerPath fs (p_ContainerStatuses pod) pathToSearch of
              None \<Rightarrow> (fs, Some NoInfraDir)
            | Some p \<Rightarrow>
                (case os_write env fs (p @ [''cpuset.cpus'']) (cs_String (se_cs env) dflt) of
                   None \<Rightarrow> (fs, Some (CannotWrite p))
                 | Some fs' \<Rightarrow> (fs', None))))"

section \<open>The CPU directory of a container\<close>

text \<open>\<^verbatim>\<open>CopyFile\<close> and \<^verbatim>\<open>CopyDir\<close> of \<^verbatim>\<open>pkg/utils/file.go\<close>, onto what is at the destination: \<open>None\<close> is an
  error, and an error below the top is only printed.\<close>

fun CopyNode :: "(path \<Rightarrow> bool) \<Rightarrow> path \<Rightarrow> node \<Rightarrow> node option \<Rightarrow> node option"
  and CopyEntries :: "(path \<Rightarrow> bool) \<Rightarrow> path \<Rightarrow> (string \<times> node) list \<Rightarrow> (string \<times> node) list \<Rightarrow> (string \<times> node) list" where
  "CopyNode ok p (File c) dst =
     (case dst of Some (Dir _) \<Rightarrow> None | _ \<Rightarrow> (if ok p then Some (File c) else None))"
| "CopyNode ok p (Dir es) dst =
     (case dst of
        Some (File _) \<Rightarrow> None
      | None \<Rightarrow> (if ok p then Some (Dir (CopyEntries ok p es [])) else None)
      | Some (Dir ds) \<Rightarrow> Some (Dir (CopyEntries ok p es ds)))"
| "CopyEntries ok p [] ds = ds"
| "CopyEntries ok p ((n, t) # es) ds =
     CopyEntries ok p es
       (case CopyNode ok (p @ [n]) t (map_of ds n) of None \<Rightarrow> ds | Some u \<Rightarrow> put_entry n u ds)"

definition CopyDir :: "(path \<Rightarrow> bool) \<Rightarrow> path \<Rightarrow> node option \<Rightarrow> node option \<Rightarrow> node option" where
  "CopyDir ok p src dst =
     (case src of Some (Dir es) \<Rightarrow> CopyNode ok p (Dir es) dst | _ \<Rightarrow> None)"

text \<open>\<^verbatim>\<open>IsEmpty\<close>: the result and whether the error is nil. \<^verbatim>\<open>os.ReadDir\<close> never returns \<^verbatim>\<open>io.EOF\<close>, so the first
  component is never true.\<close>

definition IsEmpty :: "node \<Rightarrow> path \<Rightarrow> bool \<times> bool" where
  "IsEmpty fs p = (False, case lookup fs p of Some (Dir _) \<Rightarrow> True | _ \<Rightarrow> False)"

definition PathExists :: "node \<Rightarrow> path \<Rightarrow> bool" where
  "PathExists fs p = (lookup fs p \<noteq> None)"

text \<open>\<^verbatim>\<open>IsDir\<close> and \<^verbatim>\<open>IsFile\<close>: a missing path counts as a file.\<close>

definition IsDir :: "node \<Rightarrow> path \<Rightarrow> bool" where
  "IsDir fs p = (case lookup fs p of Some (Dir _) \<Rightarrow> True | _ \<Rightarrow> False)"

definition IsFile :: "node \<Rightarrow> path \<Rightarrow> bool" where
  "IsFile fs p = (\<not> IsDir fs p)"

text \<open>The directories \<^verbatim>\<open>cpu1\<close> to \<^verbatim>\<open>cpu(n-1)\<close>, copies of \<^verbatim>\<open>cpu0\<close>, in the container's directory with the
  entries \<open>es\<close>. The result carries the error, if any, and what was done before it.\<close>

fun copy_cpus ::
  "'s set_env \<Rightarrow> path \<Rightarrow> nat \<Rightarrow> nat \<Rightarrow> (string \<times> node) list \<Rightarrow> (string \<times> node) list \<times> set_error option" where
  "copy_cpus env base i 0 es = (es, None)"
| "copy_cpus env base i (Suc n) es =
     (let cpuNumDir = ''cpu'' @ Itoa (int i + 1) in
      if \<not> se_mkdir_ok env (base @ [cpuNumDir]) then (es, Some (CpuDirError (base @ [cpuNumDir])))
      else
        (case map_of es cpuNumDir of
           Some (File _) \<Rightarrow> (es, Some (CpuDirError (base @ [cpuNumDir])))
         | d \<Rightarrow>
             (let dst = (case d of None \<Rightarrow> Dir [] | Some t \<Rightarrow> t);
                  es1 = put_entry cpuNumDir dst es
              in case CopyDir (se_copy_ok env) (base @ [cpuNumDir]) (map_of es1 ''cpu0'') (Some dst) of
                   None \<Rightarrow> (es1, Some (CpuDirError (base @ [cpuNumDir])))
                 | Some t \<Rightarrow> copy_cpus env base (Suc i) n (put_entry cpuNumDir t es1))))"

fun write_files :: "'s set_env \<Rightarrow> node \<Rightarrow> (path \<times> string) list \<Rightarrow> node \<times> set_error option" where
  "write_files env fs [] = (fs, None)"
| "write_files env fs ((p, c) # ws) =
     (case os_write env fs p c of None \<Rightarrow> (fs, Some (CannotWrite p)) | Some fs' \<Rightarrow> write_files env fs' ws)"

definition virtual_set :: "'s cpuset_api \<Rightarrow> nat \<Rightarrow> 's" where
  "virtual_set cs n = fold (\<lambda>i s. cs_Union cs s [cs_New cs [int i + 1]]) [0..<n] (cs_New cs [0])"

definition cpu_files :: "'s set_env \<Rightarrow> path \<Rightarrow> 's \<Rightarrow> (path \<times> string) list" where
  "cpu_files env base cpuSet =
     (let n = length (cs_List (se_cs env) cpuSet);
          v = cs_String (se_cs env) (virtual_set (se_cs env) (n - 1))
      in [(base @ [''kernel_max''], Itoa (int n - 1)), (base @ [''online''], v), (base @ [''possible''], v),
          (base @ [''present''], v)])"

definition applyCpusToContainer ::
  "'s set_env \<Rightarrow> node \<Rightarrow> pod \<Rightarrow> string \<Rightarrow> string \<Rightarrow> 's \<Rightarrow> node \<times> set_error option" where
  "applyCpusToContainer env fs pod containerName containerID cpuSet =
     (let base = se_cpuRoot env @ [p_Namespace pod, p_Name pod, containerName];
          made = (if PathExists fs base then Some fs else if se_mkdir_ok env base then mkdir_all fs base else None)
      in case made of
           None \<Rightarrow> (fs, Some (CpuDirError base))
         | Some fs1 \<Rightarrow>
             (case lookup fs1 base of
                Some (Dir es0) \<Rightarrow>
                  (let kept = (if fst (IsEmpty fs1 base) then es0
                               else filter (\<lambda>(n, t). \<not> se_remove_ok env (base @ [n])) es0);
                       fs2 = set_node fs1 base (Dir kept)
                   in case se_archive env containerID of
                        None \<Rightarrow> (fs2, Some ArchiveError)
                      | Some tmp \<Rightarrow>
                          (case CopyDir (se_copy_ok env) base (lookup tmp [''cpu'']) (Some (Dir kept)) of
                             Some (Dir es1) \<Rightarrow>
                               (case copy_cpus env base 0 (length (cs_List (se_cs env) cpuSet) - 1) es1 of
                                  (es2, Some e) \<Rightarrow> (set_node fs2 base (Dir es2), Some e)
                                | (es2, None) \<Rightarrow>
                                    write_files env (set_node fs2 base (Dir es2)) (cpu_files env base cpuSet))
                           | _ \<Rightarrow> (fs2, Some (CpuDirError base))))
              | _ \<Rightarrow> (fs1, Some (CpuDirError base))))"

section \<open>Pods\<close>

definition isPodReadyForProcessing :: "pod \<Rightarrow> bool" where
  "isPodReadyForProcessing pod =
     (if p_NodeName pod = [] \<or> length (p_ContainerStatuses pod) \<noteq> length (p_Containers pod) then False
      else \<forall>st \<in> set (p_ContainerStatuses pod). st_ContainerID st \<noteq> [])"

fun refresh_loop :: "'s set_env \<Rightarrow> nat \<Rightarrow> nat \<Rightarrow> pod \<Rightarrow> pod option" where
  "refresh_loop env i 0 pod = Some pod"
| "refresh_loop env i (Suc n) pod =
     (case se_refresh env i of
        None \<Rightarrow> None
      | Some newPod \<Rightarrow> (if isPodReadyForProcessing newPod then Some newPod else refresh_loop env (Suc i) n pod))"

definition shouldPodBeHandled :: "'s set_env \<Rightarrow> pod \<Rightarrow> bool \<times> pod" where
  "shouldPodBeHandled env pod =
     (if p_Phase pod = PodSucceeded \<or> p_Phase pod = PodFailed then (False, pod)
      else
        (case refresh_loop env 0 MaxRetryCount pod of
           None \<Rightarrow> (False, pod)
         | Some pod' \<Rightarrow> (if se_nodeName env \<noteq> p_NodeName pod' then (False, pod') else (True, pod'))))"

text \<open>\<^verbatim>\<open>gatherAllContainers\<close>: the keys of the map.\<close>

fun gather_loop :: "string list \<Rightarrow> container_status list \<Rightarrow> string list" where
  "gather_loop working [] = working"
| "gather_loop working (st # sts) =
     (if st_ContainerID st = [] then [] else gather_loop (List.insert (st_Name st) working) sts)"

definition gatherAllContainers :: "pod \<Rightarrow> string list" where
  "gatherAllContainers pod = gather_loop [] (p_ContainerStatuses pod)"

text \<open>The loop of \<^verbatim>\<open>adjustContainerSets\<close>: a container without an id is reported with the text of an error
  that is nil at this point.\<close>

fun adjust_loop ::
  "'s set_env \<Rightarrow> pod \<Rightarrow> string list \<Rightarrow> node \<Rightarrow> path \<Rightarrow> container list \<Rightarrow> node \<times> (set_error, path) outcome" where
  "adjust_loop env pod toBeSet fs path [] = (fs, Ok path)"
| "adjust_loop env pod toBeSet fs path (c # cs) =
     (if c_Name c \<notin> set toBeSet then adjust_loop env pod toBeSet fs path cs
      else
        (case determineCorrectCpuset (se_choice env) pod c of
           Panic p \<Rightarrow> (fs, Panic p)
         | Err e \<Rightarrow> (fs, Err e)
         | Ok (cfgSet, realSet) \<Rightarrow>
             (let containerID = determineCid (p_ContainerStatuses pod) (c_Name c)
              in if containerID = [] then (fs, Panic NilDereference)
                 else
                   (case applyCpusetToContainer env fs containerID realSet of
                      (fs1, Inl e) \<Rightarrow> (fs1, Err e)
                    | (fs1, Inr path') \<Rightarrow>
                        (case applyCpusToContainer env fs1 pod (c_Name c) containerID cfgSet of
                           (fs2, Some e) \<Rightarrow> (fs2, Err e)
                         | (fs2, None) \<Rightarrow> adjust_loop env pod toBeSet fs2 path' cs)))))"

definition adjustContainerSets ::
  "'s set_env \<Rightarrow> world \<Rightarrow> pod \<Rightarrow> string list \<Rightarrow> world \<times> (set_error, unit) outcome" where
  "adjustContainerSets env w pod toBeSet =
     (case adjust_loop env pod toBeSet (w_fs w) [] (p_Containers pod) of
        (fs1, Panic p) \<Rightarrow> (w\<lparr>w_fs := fs1\<rparr>, Panic p)
      | (fs1, Err e) \<Rightarrow> (w\<lparr>w_fs := fs1\<rparr>, Err e)
      | (fs1, Ok path) \<Rightarrow>
          (case applyCpusetToInfraContainer env fs1 pod path of
             (fs2, Some e) \<Rightarrow> (w\<lparr>w_fs := fs2\<rparr>, Err e)
           | (fs2, None) \<Rightarrow>
               (if se_annotate_ok env pod
                then (w\<lparr>w_fs := fs2, w_annotated := p_UID pod # w_annotated w\<rparr>, Ok ())
                else (w\<lparr>w_fs := fs2\<rparr>, Err AnnotationError))))"

datatype handled = NotMine | NoContainers | Adjusted | TimedOut set_error | HandlerPanic panic

fun retry_adjust :: "'s set_env \<Rightarrow> pod \<Rightarrow> string list \<Rightarrow> set_error option \<Rightarrow> nat \<Rightarrow> world \<Rightarrow> world \<times> handled" where
  "retry_adjust env pod toBeSet err 0 w =
     (w, case err of None \<Rightarrow> HandlerPanic NilDereference | Some e \<Rightarrow> TimedOut e)"
| "retry_adjust env pod toBeSet err (Suc n) w =
     (case adjustContainerSets env w pod toBeSet of
        (w', Ok _) \<Rightarrow> (w', Adjusted)
      | (w', Panic p) \<Rightarrow> (w', HandlerPanic p)
      | (w', Err e) \<Rightarrow> retry_adjust env pod toBeSet (Some e) n w')"

definition handlePods :: "'s set_env \<Rightarrow> world \<Rightarrow> pod \<Rightarrow> world \<times> handled" where
  "handlePods env w newPod =
     (case shouldPodBeHandled env newPod of
        (False, _) \<Rightarrow> (w, NotMine)
      | (True, pod) \<Rightarrow>
          (let toBeSet = gatherAllContainers pod
           in if toBeSet \<noteq> [] then retry_adjust env pod toBeSet None MaxRetryCount w else (w, NoContainers)))"

section \<open>Reconciliation\<close>

definition is_space :: "char \<Rightarrow> bool" where
  "is_space c = (c \<in> {CHR '' '', CHR 0x09, CHR 0x0A, CHR 0x0B, CHR 0x0C, CHR 0x0D})"

definition TrimSpace :: "string \<Rightarrow> string" where
  "TrimSpace s = rev (dropWhile is_space (rev (dropWhile is_space s)))"

text \<open>\<^verbatim>\<open>getLeafCpusets\<close>: the lines \<^verbatim>\<open>find\<close> prints, as paths.\<close>

definition TrimSuffix :: "string \<Rightarrow> string \<Rightarrow> string" where
  "TrimSuffix s suf = (if HasPrefix (rev s) (rev suf) then take (length s - length suf) s else s)"

definition path_of :: "string \<Rightarrow> path" where
  "path_of l = tl (Split l CHR ''/'')"

definition getLeafCpusets :: "'s set_env \<Rightarrow> node \<Rightarrow> path list option" where
  "getLeafCpusets env fs =
     map_option (\<lambda>stdOut. map path_of (Split (TrimSuffix stdOut [CHR 0x0A]) CHR 0x0A)) (se_find env fs)"

text \<open>A leaf that is reset: errors of filling the CPU directory are only logged.\<close>

definition reset_leaf :: "'s set_env \<Rightarrow> node \<Rightarrow> path \<Rightarrow> pod \<Rightarrow> container \<Rightarrow> string \<Rightarrow> node \<times> (set_error, unit) outcome" where
  "reset_leaf env fs l pod c containerID =
     (case determineCorrectCpuset (se_choice env) pod c of
        Panic p \<Rightarrow> (fs, Panic p)
      | Err e \<Rightarrow> (fs, Err e)
      | Ok (configSet, correctSet) \<Rightarrow>
          (let fs1 = fst (applyCpusToContainer env fs pod (c_Name c) containerID configSet)
           in case os_write env fs1 (l @ [''cpuset.cpus'']) (cs_String (se_cs env) correctSet) of
                None \<Rightarrow> (fs1, Err (CannotWrite l))
              | Some fs2 \<Rightarrow> (fs2, Ok ())))"

fun reconcile_leaves ::
  "'s set_env \<Rightarrow> node \<Rightarrow> pod \<Rightarrow> container \<Rightarrow> string \<Rightarrow> path list \<Rightarrow> node \<times> (set_error, unit) outcome" where
  "reconcile_leaves env fs pod c containerID [] = (fs, Ok ())"
| "reconcile_leaves env fs pod c containerID (l # ls) =
     (if Contains (render l) containerID then
        (let badCpuset = fst (cs_Parse (se_cs env) (''0-'' @ Itoa (wrap64 (ch_numOfCpus (se_choice env) - 1))));
             current = fst (cs_Parse (se_cs env)
               (TrimSpace (case read_file fs (l @ [''cpuset.cpus'']) of None \<Rightarrow> [] | Some s \<Rightarrow> s)))
         in if cs_Equals (se_cs env) badCpuset current then reset_leaf env fs l pod c containerID else (fs, Ok ()))
      else reconcile_leaves env fs pod c containerID ls)"

definition reconcileContainer ::
  "'s set_env \<Rightarrow> node \<Rightarrow> path list \<Rightarrow> pod \<Rightarrow> container \<Rightarrow> node \<times> (set_error, unit) outcome" where
  "reconcileContainer env fs leafCpusets pod c =
     (let containerID = determineCid (p_ContainerStatuses pod) (c_Name c)
      in if containerID = [] then (fs, Ok ()) else reconcile_leaves env fs pod c containerID leafCpusets)"

text \<open>The errors of single containers are logged; a panic ends the process.\<close>

fun reconcile_loop ::
  "'s set_env \<Rightarrow> path list \<Rightarrow> node \<Rightarrow> (pod \<times> container) list \<Rightarrow> node \<times> (unit, unit) outcome" where
  "reconcile_loop env leafCpusets fs [] = (fs, Ok ())"
| "reconcile_loop env leafCpusets fs ((pod, c) # pcs) =
     (case reconcileContainer env fs leafCpusets pod c of
        (fs', Panic p) \<Rightarrow> (fs', Panic p)
      | (fs', _) \<Rightarrow> reconcile_loop env leafCpusets fs' pcs)"

text \<open>\<^verbatim>\<open>reconcileCpusets\<close>: \<open>Err ()\<close> is a returned error. When the kubelet gives neither pods nor an error,
  the text of the nil error is asked for.\<close>

definition reconcileCpusets :: "'s set_env \<Rightarrow> node \<Rightarrow> node \<times> (unit, unit) outcome" where
  "reconcileCpusets env fs =
     (case se_kubelet_pods env of
        Panic p \<Rightarrow> (fs, Panic p)
      | Err _ \<Rightarrow> (fs, Err ())
      | Ok None \<Rightarrow> (fs, Panic NilDereference)
      | Ok (Some pods) \<Rightarrow>
          (case getLeafCpusets env fs of
             None \<Rightarrow> (fs, Err ())
           | Some leafCpusets \<Rightarrow>
               reconcile_loop env leafCpusets fs (concat (map (\<lambda>p. map (Pair p) (p_Containers p)) pods))))"

section \<open>The leaves\<close>

lemma render_Cons: "render (c # p) = CHR ''/'' # c @ render p"
  by (simp add: render_def)

lemma Split_render: "\<forall>c \<in> set p. CHR ''/'' \<notin> set c \<Longrightarrow> Split (render p) CHR ''/'' = [] # p"
proof (induction p)
  case (Cons c p)
  show ?case
  proof (cases p)
    case Nil
    with Cons.prems show ?thesis by (simp add: render_def Split_no_sep)
  next
    case (Cons d q)
    then have "Split (c @ CHR ''/'' # d @ render q) CHR ''/'' = c # Split (d @ render q) CHR ''/''"
      using Cons.prems by (intro Split_append_sep) simp
    moreover have "Split (d @ render q) CHR ''/'' = d # q"
      using Cons.IH Cons.prems Cons by (simp add: render_Cons)
    ultimately show ?thesis using Cons by (simp add: render_Cons)
  qed
qed (simp add: render_def)

lemma path_of_render: "\<forall>c \<in> set p. CHR ''/'' \<notin> set c \<Longrightarrow> path_of (render p) = p"
  by (simp add: path_of_def Split_render)

text \<open>When \<^verbatim>\<open>find\<close> prints paths one per line, these are the leaves.\<close>

lemma getLeafCpusets_lines:
  assumes "se_find env fs = Some (Join (map render ps) [CHR 0x0A] @ [CHR 0x0A])" "ps \<noteq> []"
    and "\<forall>p \<in> set ps. \<forall>c \<in> set p. CHR ''/'' \<notin> set c \<and> CHR 0x0A \<notin> set c"
  shows "getLeafCpusets env fs = Some ps"
proof -
  have "CHR 0x0A \<notin> set (render p)" if "p \<in> set ps" for p using assms(3) that by (auto simp: render_def)
  then have "Split (Join (map render ps) [CHR 0x0A]) CHR 0x0A = map render ps"
    using assms(2) by (intro Split_Join) auto
  moreover have "map (path_of \<circ> render) ps = ps" using assms(3) by (intro map_idI) (simp add: path_of_render)
  ultimately show ?thesis using assms(1) by (simp add: getLeafCpusets_def TrimSuffix_def)
qed

section \<open>Writing a cpuset\<close>

text \<open>Writing through the environment obeys the laws of the file store.\<close>

interpretation cgroup: file_store read_file "os_write env"
proof
  show "os_write env f p c = Some f' \<Longrightarrow> read_file f' p = Some c" for f p c f'
    by (auto simp: os_write_def tree.rd_wr_same split: if_splits)
  show "os_write env f p c = Some f' \<Longrightarrow> q \<noteq> p \<Longrightarrow> read_file f' q = read_file f q" for f p c f' q
    by (auto simp: os_write_def tree.rd_wr_other split: if_splits)
qed

abbreviation has_id :: "string \<Rightarrow> path \<Rightarrow> bool" where
  "has_id containerID p \<equiv> Contains (render p) containerID"

text \<open>The directory of a container: its path has the id, no path above it has.\<close>

definition container_dir :: "'s set_env \<Rightarrow> node \<Rightarrow> string \<Rightarrow> path \<Rightarrow> bool" where
  "container_dir env fs containerID p \<longleftrightarrow>
     (\<exists>t q. lookup fs (se_cpusetRoot env) = Some t \<and> p = se_cpusetRoot env @ q \<and>
        top_match (has_id containerID) (se_cpusetRoot env) t q)"

lemma applyCpusetToContainer_Inr:
  assumes "applyCpusetToContainer env fs cid s = (fs', Inr p)" "\<not> cs_IsEmpty (se_cs env) s" "names_once fs"
  obtains q where "container_dir env fs cid p" "Walk (se_bad env) last_fn p fs p = (q, False)"
    "os_write env fs (q @ [''cpuset.cpus'']) (cs_String (se_cs env) s) = Some fs'"
proof -
  let ?W = "Walk (se_bad env) (find_fn (has_id cid)) None fs (se_cpusetRoot env)"
  obtain p' where w: "?W = (Some p', False)"
    using assms(1,2) by (auto simp: applyCpusetToContainer_def split: prod.splits option.splits bool.splits)
  obtain q where l: "Walk (se_bad env) last_fn p' fs p' = (q, False)"
    using assms(1,2) w by (auto simp: applyCpusetToContainer_def split: prod.splits bool.splits)
  with assms(1,2) w have "os_write env fs (q @ [''cpuset.cpus'']) (cs_String (se_cs env) s) = Some fs'" "p' = p"
    by (auto simp: applyCpusetToContainer_def split: option.splits)
  with l w Walk_find_Some [OF assms(3) w] that show thesis by (auto simp: container_dir_def)
qed

lemma applyCpusetToContainer_frame:
  "applyCpusetToContainer env fs cid s = (fs', Inl e) \<Longrightarrow> fs' = fs"
  by (auto simp: applyCpusetToContainer_def split: if_splits prod.splits option.splits bool.splits)

text \<open>C7: Setting the cpuset of a container. When it succeeds, the written file is \<^verbatim>\<open>cpuset.cpus\<close> in a
  directory without subdirectories at or below the container's cgroup (a path that has the
  container id, with none above it that has), its content is the given set, and no other file
  changes; when it fails nothing changes.\<close>

theorem applyCpusetToContainer_correct:
  assumes "names_once fs" "\<forall>p. \<not> se_bad env p" "\<not> cs_IsEmpty (se_cs env) s"
    "applyCpusetToContainer env fs cid s = (fs', res)"
  shows "case res of
    Inl e \<Rightarrow> fs' = fs
  | Inr p \<Rightarrow> container_dir env fs cid p \<and>
      (\<exists>q es. lookup fs (p @ q) = Some (Dir es) \<and> leaf es \<and>
        read_file fs' (p @ q @ [''cpuset.cpus'']) = Some (cs_String (se_cs env) s) \<and>
        (\<forall>f. f \<noteq> p @ q @ [''cpuset.cpus''] \<longrightarrow> read_file fs' f = read_file fs f))"
proof (cases res)
  case (Inl e)
  with assms(4) show ?thesis by (auto dest: applyCpusetToContainer_frame)
next
  case (Inr p)
  with assms(4) have "applyCpusetToContainer env fs cid s = (fs', Inr p)" by simp
  then obtain d where d: "container_dir env fs cid p" "Walk (se_bad env) last_fn p fs p = (d, False)"
    "os_write env fs (d @ [''cpuset.cpus'']) (cs_String (se_cs env) s) = Some fs'"
    using assms(3,1) by (rule applyCpusetToContainer_Inr)
  then obtain t where t: "lookup fs p = Some t"
    by (auto simp: container_dir_def top_match_def lookup_append)
  show ?thesis
  proof (cases t)
    case (File c)
    with t have p: "lookup fs p = Some (File c)" by simp
    have "d = p" using Walk_last_file [OF p, of "se_bad env"] d(2) by simp
    moreover have "lookup fs (p @ [''cpuset.cpus'']) = None" by (simp add: lookup_append p)
    moreover have "write_file fs (p @ [n]) c' = None" for n c'
      using p by (induction fs p rule: lookup.induct) (auto simp: bind_eq_Some_conv split: option.splits)
    ultimately show ?thesis using d(3) by (simp add: os_write_def split: if_splits)
  next
    case (Dir es)
    with t have "lookup fs p = Some (Dir es)" by simp
    from Walk_last_dir [OF assms(1) this, of "se_bad env" p] assms(2) d(2)
    obtain q ds where q: "d = p @ q" "lookup fs (p @ q) = Some (Dir ds)" "leaf ds" by auto
    have "read_file fs' (d @ [''cpuset.cpus'']) = Some (cs_String (se_cs env) s)"
      "\<forall>f. f \<noteq> d @ [''cpuset.cpus''] \<longrightarrow> read_file fs' f = read_file fs f"
      using cgroup.rd_wr_same [OF d(3)] cgroup.rd_wr_other [OF d(3)] by auto
    with q d(1) Inr show ?thesis by (auto intro!: exI [of _ q])
  qed
qed

text \<open>A small cgroup tree: the container \<^verbatim>\<open>abc\<close> with the files of its cgroup, and the pod's infrastructure
  container \<^verbatim>\<open>pause\<close>.\<close>

definition demo_fs :: node where
  "demo_fs =
     Dir [(''cpu'', Dir []),
          (''sys'', Dir [(''pod1'', Dir
             [(''abc'', Dir [(''cpuset.cpus'', File ''0-8'')]), (''pause'', Dir [(''cpuset.cpus'', File ''0-8'')])])])]"

definition demo_status :: "string \<Rightarrow> container_status" where
  "demo_status i =
     \<lparr>st_Name = ''c'', st_ContainerID = i, st_Ready = True, st_RestartCount = 0, st_Started = None,
      st_State = \<lparr>s_Waiting = None, s_Running = True, s_Terminated = None\<rparr>, st_LastTermination = None\<rparr>"

definition demo_set_pod :: "string \<Rightarrow> pod" where
  "demo_set_pod i = (choice_pod [requesting [''bonc.k8s.io/exclusive'']])\<lparr>p_ContainerStatuses := [demo_status i]\<rparr>"

definition demo_set_env :: "pod \<Rightarrow> int list set_env" where
  "demo_set_env pod =
     \<lparr>se_choice = demo_choice, se_cpusetRoot = [''sys''], se_cpuRoot = [''cpu''], se_bad = (\<lambda>p. False),
      se_write_ok = (\<lambda>p c. True), se_mkdir_ok = (\<lambda>p. True), se_remove_ok = (\<lambda>p. True), se_copy_ok = (\<lambda>p. True),
      se_archive = (\<lambda>i. Some (Dir [(''cpu'', Dir [(''cpu0'', Dir [(''freq'', File ''1'')])])])),
      se_annotate_ok = (\<lambda>p. True), se_nodeName = ''node'', se_refresh = (\<lambda>i. Some pod),
      se_find = (\<lambda>fs. Some (''/sys/pod1/abc'' @ CHR 0x0A # ''/sys/pod1/pause'' @ [CHR 0x0A])),
      se_kubelet_pods = Ok (Some [pod])\<rparr>"

lemma demo_set_env_simps:
  "se_bad (demo_set_env pod) p = False" "se_write_ok (demo_set_env pod) p c" "se_cs (demo_set_env pod) = ref_cpuset"
  "se_cpusetRoot (demo_set_env pod) = [''sys'']" "se_choice (demo_set_env pod) = demo_choice"
  by (simp_all add: demo_set_env_def se_cs_def demo_choice_def)

theorem applyCpusetToContainer_correct_witness:
  "\<exists>fs' p q. applyCpusetToContainer (demo_set_env (demo_set_pod ''docker://abc'')) demo_fs ''abc'' [2, 3] = (fs', Inr p) \<and>
     read_file fs' (p @ q @ [''cpuset.cpus'']) = Some ''2-3''"
proof -
  let ?e = "demo_set_env (demo_set_pod ''docker://abc'')"
  have n: "names_once demo_fs" by code_simp
  have b: "\<forall>p. \<not> se_bad ?e p" by (simp add: demo_set_env_simps)
  have s: "\<not> cs_IsEmpty (se_cs ?e) [2, 3]" by code_simp
  have ok: "case applyCpusetToContainer ?e demo_fs ''abc'' [2, 3] of (_, Inr p) \<Rightarrow> True | _ \<Rightarrow> False" by code_simp
  then obtain fs' p where r: "applyCpusetToContainer ?e demo_fs ''abc'' [2, 3] = (fs', Inr p)"
    by (auto split: prod.splits sum.splits)
  have "cs_String (se_cs ?e) [2, 3] = ''2-3''" by code_simp
  with applyCpusetToContainer_correct [OF n b s r] r show ?thesis by auto
qed

text \<open>C8: A cpuset that is not empty is written whenever the cgroup tree can be read, the kernel accepts the
  write, some path below the root has the container id, and the topmost paths that have it are
  directories: the result is the directory of the container, \<^verbatim>\<open>cpuset.cpus\<close> in a directory without
  subdirectories at or below it reads as the set afterwards, and no other file changes.\<close>

theorem applyCpusetToContainer_succeeds:
  assumes "names_once fs" "\<forall>p. \<not> se_bad env p" "\<forall>p c. se_write_ok env p c"
    "lookup fs (se_cpusetRoot env) = Some t" "lookup t q \<noteq> None" "has_id cid (se_cpusetRoot env @ q)"
    "\<forall>p. container_dir env fs cid p \<longrightarrow> (\<exists>es. lookup fs p = Some (Dir es))" "\<not> cs_IsEmpty (se_cs env) s"
  shows "\<exists>fs' p r ds. applyCpusetToContainer env fs cid s = (fs', Inr p) \<and> container_dir env fs cid p \<and>
    lookup fs (p @ r) = Some (Dir ds) \<and> leaf ds \<and>
    read_file fs' (p @ r @ [''cpuset.cpus'']) = Some (cs_String (se_cs env) s) \<and>
    (\<forall>f. f \<noteq> p @ r @ [''cpuset.cpus''] \<longrightarrow> read_file fs' f = read_file fs f)"
proof -
  have nb: "\<forall>r. \<not> se_bad env (p @ r)" for p using assms(2) by simp
  obtain p where w: "Walk (se_bad env) (find_fn (has_id cid)) None fs (se_cpusetRoot env) = (Some p, False)"
    using Walk_find_total [OF assms(4) nb assms(5), of "has_id cid"] assms(6) by blast
  then have dir: "container_dir env fs cid p" using Walk_find_Some [OF assms(1) w] by (auto simp: container_dir_def)
  with assms(7) obtain es where es: "lookup fs p = Some (Dir es)" by blast
  obtain r ds where r: "Walk (se_bad env) last_fn p fs p = (p @ r, False)" "lookup fs (p @ r) = Some (Dir ds)" "leaf ds"
    using Walk_last_dir [OF assms(1) es nb] by blast
  obtain fs' where "write_file fs ((p @ r) @ [''cpuset.cpus'']) (cs_String (se_cs env) s) = Some fs'"
    using write_file_leaf [OF r(2,3)] by blast
  then have wr: "os_write env fs ((p @ r) @ [''cpuset.cpus'']) (cs_String (se_cs env) s) = Some fs'"
    using assms(3) by (simp add: os_write_def)
  with assms(8) w r(1) have "applyCpusetToContainer env fs cid s = (fs', Inr p)" by (simp add: applyCpusetToContainer_def)
  with dir r(2,3) cgroup.rd_wr_same [OF wr] cgroup.rd_wr_other [OF wr] show ?thesis
    by (intro exI [of _ fs'] exI [of _ p] exI [of _ r] exI [of _ ds]) simp
qed

lemma demo_cgroup_paths:
  "lookup (Dir [(''pod1'', Dir
       [(''abc'', Dir [(''cpuset.cpus'', File ''0-8'')]), (''pause'', Dir [(''cpuset.cpus'', File ''0-8'')])])]) r \<noteq> None \<Longrightarrow>
     r \<in> {[], [''pod1''], [''pod1'', ''abc''], [''pod1'', ''abc'', ''cpuset.cpus''], [''pod1'', ''pause''],
       [''pod1'', ''pause'', ''cpuset.cpus'']}"
  by (cases r; cases "tl r"; cases "tl (tl r)"; cases "tl (tl (tl r))") (auto split: if_splits)

theorem applyCpusetToContainer_succeeds_witness:
  "\<exists>fs' p r. applyCpusetToContainer (demo_set_env (demo_set_pod ''docker://abc'')) demo_fs ''abc'' [2, 3] = (fs', Inr p) \<and>
     read_file fs' (p @ r @ [''cpuset.cpus'']) = Some ''2-3''"
proof -
  let ?e = "demo_set_env (demo_set_pod ''docker://abc'')"
  let ?t = "Dir [(''pod1'', Dir
             [(''abc'', Dir [(''cpuset.cpus'', File ''0-8'')]), (''pause'', Dir [(''cpuset.cpus'', File ''0-8'')])])]"
  have n: "names_once demo_fs" and l: "lookup demo_fs (se_cpusetRoot ?e) = Some ?t"
    and q: "lookup ?t [''pod1'', ''abc''] \<noteq> None" and i: "has_id ''abc'' (se_cpusetRoot ?e @ [''pod1'', ''abc''])"
    by code_simp+
  have b: "\<forall>p. \<not> se_bad ?e p" "\<forall>p c. se_write_ok ?e p c" by (simp_all add: demo_set_env_simps)
  have "\<exists>es. lookup demo_fs p = Some (Dir es)" if "container_dir ?e demo_fs ''abc'' p" for p
  proof -
    from that l obtain r where r: "p = [''sys''] @ r" "top_match (has_id ''abc'') [''sys''] ?t r"
      by (auto simp: container_dir_def demo_set_env_simps)
    have m: "\<not> has_id ''abc'' [''sys'']" "\<not> has_id ''abc'' [''sys'', ''pod1'']" "\<not> has_id ''abc'' [''sys'', ''pod1'', ''pause'']"
      "\<not> has_id ''abc'' [''sys'', ''pod1'', ''pause'', ''cpuset.cpus'']" "has_id ''abc'' [''sys'', ''pod1'', ''abc'']" by code_simp+
    from r(2) have top: "has_id ''abc'' ([''sys''] @ r)" "lookup ?t r \<noteq> None" "\<forall>k < length r. \<not> has_id ''abc'' ([''sys''] @ take k r)"
      by (simp_all add: top_match_def)
    from demo_cgroup_paths [OF top(2)] top(1,3) m have "r = [''pod1'', ''abc'']" by auto
    with r(1) show ?thesis by (simp add: demo_fs_def)
  qed
  moreover have s: "\<not> cs_IsEmpty (se_cs ?e) [2, 3]" "cs_String (se_cs ?e) [2, 3] = ''2-3''" by code_simp+
  ultimately show ?thesis using applyCpusetToContainer_succeeds [OF n b l q i _ s(1)] unfolding s(2) by blast
qed

section \<open>Handling a pod\<close>

lemma adjustContainerSets_annotated:
  "adjustContainerSets env w pod cs = (w', r) \<Longrightarrow>
     w_annotated w' = (if r = Ok () then p_UID pod # w_annotated w else w_annotated w)"
  by (auto simp: adjustContainerSets_def split: prod.splits outcome.splits option.splits if_splits)

lemma retry_adjust_annotated:
  "retry_adjust env pod cs err n w = (w', r) \<Longrightarrow>
     r \<notin> {NotMine, NoContainers} \<and>
     w_annotated w' = (if r = Adjusted then p_UID pod # w_annotated w else w_annotated w)"
proof (induction n arbitrary: err w)
  case 0
  then show ?case by (auto split: option.splits)
next
  case (Suc n)
  obtain w1 a where a: "adjustContainerSets env w pod cs = (w1, a)" by fastforce
  note ann = adjustContainerSets_annotated [OF a]
  show ?case
  proof (cases a)
    case (Ok u)
    with a ann Suc.prems show ?thesis by auto
  next
    case (Err e)
    with a Suc.prems have "retry_adjust env pod cs (Some e) n w1 = (w', r)" by simp
    from Suc.IH [OF this] ann Err show ?thesis by simp
  next
    case (Panic p)
    with a ann Suc.prems show ?thesis by auto
  qed
qed

lemma refresh_loop_node: "refresh_loop env i n pod = Some pod' \<Longrightarrow> pod' = pod \<or> isPodReadyForProcessing pod'"
  by (induction n arbitrary: i) (auto split: option.splits if_splits)

lemma handlePods_annotated:
  assumes "handlePods env w newPod = (w', r)"
  shows "w_annotated w' = w_annotated w \<or>
    (\<exists>pod. shouldPodBeHandled env newPod = (True, pod) \<and> p_NodeName pod = se_nodeName env \<and>
      w_annotated w' = p_UID pod # w_annotated w)"
proof -
  obtain mine pod where s: "shouldPodBeHandled env newPod = (mine, pod)" by fastforce
  have node: "mine \<Longrightarrow> p_NodeName pod = se_nodeName env"
    using s by (auto simp: shouldPodBeHandled_def split: if_splits option.splits)
  have "w' = w \<or> mine \<and> retry_adjust env pod (gatherAllContainers pod) None MaxRetryCount w = (w', r)"
    using s assms by (cases mine) (auto simp: handlePods_def Let_def split: if_splits)
  then show ?thesis using s node retry_adjust_annotated by (metis (full_types))
qed

text \<open>C17: Handling a pod marks exactly the pods it adjusted: the annotation is set when and only when the
  handling succeeded. A pod that finished, cannot be read again, or is on another node is not
  handled, and neither is one without containers, both without any effect.\<close>

theorem handlePods_outcome:
  assumes "handlePods env w newPod = (w', r)"
  shows "(r = Adjusted \<longrightarrow> (\<exists>pod. shouldPodBeHandled env newPod = (True, pod) \<and> p_NodeName pod = se_nodeName env \<and>
      w_annotated w' = p_UID pod # w_annotated w)) \<and>
    (r \<noteq> Adjusted \<longrightarrow> w_annotated w' = w_annotated w) \<and>
    (r \<in> {NotMine, NoContainers} \<longrightarrow> w' = w) \<and>
    (r = NotMine \<longleftrightarrow> p_Phase newPod \<in> {PodSucceeded, PodFailed} \<or>
       (case refresh_loop env 0 MaxRetryCount newPod of None \<Rightarrow> True | Some pod \<Rightarrow> p_NodeName pod \<noteq> se_nodeName env))"
proof -
  obtain mine pod where s: "shouldPodBeHandled env newPod = (mine, pod)" by fastforce
  have iff: "mine \<longleftrightarrow> \<not> (p_Phase newPod \<in> {PodSucceeded, PodFailed} \<or>
       (case refresh_loop env 0 MaxRetryCount newPod of None \<Rightarrow> True | Some pod \<Rightarrow> p_NodeName pod \<noteq> se_nodeName env))"
    and node: "mine \<Longrightarrow> p_NodeName pod = se_nodeName env"
    using s by (auto simp: shouldPodBeHandled_def split: if_splits option.splits)
  show ?thesis
  proof (cases "mine \<and> gatherAllContainers pod \<noteq> []")
    case True
    with s assms have h: "retry_adjust env pod (gatherAllContainers pod) None MaxRetryCount w = (w', r)"
      by (simp add: handlePods_def Let_def)
    from retry_adjust_annotated [OF h] s True iff node show ?thesis by auto
  next
    case False
    then have "w' = w" "r = (if mine then NoContainers else NotMine)"
      using s assms by (auto simp: handlePods_def Let_def split: if_splits bool.splits)
    with iff show ?thesis by (auto split: if_splits)
  qed
qed

theorem handlePods_outcome_witness:
  "\<exists>w'. handlePods (demo_set_env (demo_set_pod ''docker://abc'')) \<lparr>w_fs = demo_fs, w_annotated = []\<rparr> (demo_set_pod ''docker://abc'') =
     (w', Adjusted) \<and> w_annotated w' = [''uid'']"
proof -
  let ?pod = "demo_set_pod ''docker://abc''" and ?w = "\<lparr>w_fs = demo_fs, w_annotated = []\<rparr>"
  have "snd (handlePods (demo_set_env ?pod) ?w ?pod) = Adjusted" by code_simp
  then obtain w' where h: "handlePods (demo_set_env ?pod) ?w ?pod = (w', Adjusted)"
    by (cases "handlePods (demo_set_env ?pod) ?w ?pod") simp
  obtain pod where pod: "shouldPodBeHandled (demo_set_env ?pod) ?pod = (True, pod)" "w_annotated w' = [p_UID pod]"
    using handlePods_outcome [OF h] by auto
  have "p_UID (snd (shouldPodBeHandled (demo_set_env ?pod) ?pod)) = ''uid''" by code_simp
  with pod h show ?thesis by simp
qed

text \<open>A container whose id is only the runtime's prefix, as in \<^verbatim>\<open>docker://\<close>, makes the handler panic: it
  reports the missing id with the text of an error that is nil.\<close>

theorem missing_id_panics:
  assumes "shouldPodBeHandled env newPod = (True, pod)" "p_Containers pod = c # cs"
    "c_Name c \<in> set (gatherAllContainers pod)" "determineCorrectCpuset (se_choice env) pod c = Ok sets"
    "determineCid (p_ContainerStatuses pod) (c_Name c) = []"
  shows "handlePods env w newPod = (w, HandlerPanic NilDereference)"
proof -
  have "adjust_loop env pod (gatherAllContainers pod) (w_fs w) [] (c # cs) = (w_fs w, Panic NilDereference)"
    using assms(3-5) by (cases sets) simp
  then have "adjustContainerSets env w pod (gatherAllContainers pod) = (w, Panic NilDereference)"
    using assms(2) by (simp add: adjustContainerSets_def)
  moreover have "gatherAllContainers pod \<noteq> []" using assms(3) by auto
  ultimately show ?thesis using assms(1) by (simp add: handlePods_def Let_def MaxRetryCount_def eval_nat_numeral)
qed

theorem missing_id_panics_witness:
  "handlePods (demo_set_env (demo_set_pod ''docker://'')) \<lparr>w_fs = demo_fs, w_annotated = []\<rparr> (demo_set_pod ''docker://'') =
     (\<lparr>w_fs = demo_fs, w_annotated = []\<rparr>, HandlerPanic NilDereference)"
proof -
  let ?pod = "demo_set_pod ''docker://''" and ?c = "requesting [''bonc.k8s.io/exclusive'']"
  have h: "shouldPodBeHandled (demo_set_env ?pod) ?pod = (True, ?pod)" "p_Containers ?pod = ?c # []"
    "c_Name ?c \<in> set (gatherAllContainers ?pod)" "determineCid (p_ContainerStatuses ?pod) (c_Name ?c) = []" by code_simp+
  have "case determineCorrectCpuset (se_choice (demo_set_env ?pod)) ?pod ?c of Ok _ \<Rightarrow> True | _ \<Rightarrow> False" by code_simp
  then obtain sets where "determineCorrectCpuset (se_choice (demo_set_env ?pod)) ?pod ?c = Ok sets"
    by (auto split: outcome.splits)
  then show ?thesis by (rule missing_id_panics [OF h(1-3) _ h(4)])
qed

section \<open>Reconciliation\<close>

lemma reconcile_leaves_find:
  "reconcile_leaves env fs pod c cid ls =
     (case find (has_id cid) ls of None \<Rightarrow> (fs, Ok ()) | Some l \<Rightarrow> reconcile_leaves env fs pod c cid [l])"
  by (induction ls) (simp_all add: Let_def)

lemma reset_leaf_Ok:
  assumes "reset_leaf env fs l pod c cid = (fs', Ok ())"
  shows "\<exists>cfg real. determineCorrectCpuset (se_choice env) pod c = Ok (cfg, real) \<and>
    read_file fs' (l @ [''cpuset.cpus'']) = Some (cs_String (se_cs env) real)"
proof -
  obtain cfg real where d: "determineCorrectCpuset (se_choice env) pod c = Ok (cfg, real)"
    using assms by (auto simp: reset_leaf_def split: outcome.splits)
  with assms have "os_write env (fst (applyCpusToContainer env fs pod (c_Name c) cid cfg)) (l @ [''cpuset.cpus''])
      (cs_String (se_cs env) real) = Some fs'"
    by (auto simp: reset_leaf_def Let_def split: option.splits)
  with d show ?thesis using cgroup.rd_wr_same by blast
qed

text \<open>The CPUs a container is running on, and all CPUs of the machine.\<close>

definition current_cpuset :: "'s set_env \<Rightarrow> node \<Rightarrow> path \<Rightarrow> 's" where
  "current_cpuset env fs l = fst (cs_Parse (se_cs env)
     (TrimSpace (case read_file fs (l @ [''cpuset.cpus'']) of None \<Rightarrow> [] | Some s \<Rightarrow> s)))"

definition all_cpus :: "'s set_env \<Rightarrow> 's" where
  "all_cpus env = fst (cs_Parse (se_cs env) (''0-'' @ Itoa (wrap64 (ch_numOfCpus (se_choice env) - 1))))"

text \<open>C18: The reconciliation of a container, as the code does it, looks at the first leaf cgroup that has its
  id: when the container runs on anything but all CPUs of the machine nothing is changed, and when it runs
  on all of them and the repair reports no error, the leaf has the set chosen for the container. The
  comment on \<^verbatim>\<open>StartReconciliation\<close> promises more, that any set other than the expected one is reset: a
  container on a wrong set that is not the set of all CPUs is not repaired.\<close>

theorem reconcileContainer_correct:
  assumes "cpuset_lib (se_cs env)" "determineCid (p_ContainerStatuses pod) (c_Name c) = cid" "cid \<noteq> []"
    "find (has_id cid) leaves = Some l" "reconcileContainer env fs leaves pod c = (fs', res)"
  shows "if cs_elems (se_cs env) (current_cpuset env fs l) \<noteq> cs_elems (se_cs env) (all_cpus env)
    then fs' = fs \<and> res = Ok ()
    else res = Ok () \<longrightarrow> (\<exists>cfg real. determineCorrectCpuset (se_choice env) pod c = Ok (cfg, real) \<and>
      read_file fs' (l @ [''cpuset.cpus'']) = Some (cs_String (se_cs env) real))"
proof -
  have "has_id cid l" using assms(4) by (auto simp: find_Some_iff)
  then have "reconcileContainer env fs leaves pod c =
      (if cs_elems (se_cs env) (all_cpus env) = cs_elems (se_cs env) (current_cpuset env fs l)
       then reset_leaf env fs l pod c cid else (fs, Ok ()))"
    using assms(2-4) reconcile_leaves_find [of env fs pod c cid leaves] cpuset_lib.Equals_iff [OF assms(1)]
    by (simp add: reconcileContainer_def Let_def all_cpus_def current_cpuset_def)
  with assms(5) reset_leaf_Ok [of env fs l pod c cid fs'] show ?thesis by (auto split: if_splits)
qed

theorem reconcileContainer_correct_witness:
  "\<exists>fs' cfg real. reconcileContainer (demo_set_env (demo_set_pod ''docker://abc'')) demo_fs [[''sys'', ''pod1'', ''abc'']]
       (demo_set_pod ''docker://abc'') (requesting [''bonc.k8s.io/exclusive'']) = (fs', Ok ()) \<and>
     determineCorrectCpuset demo_choice (demo_set_pod ''docker://abc'') (requesting [''bonc.k8s.io/exclusive'']) = Ok (cfg, real) \<and>
     read_file fs' [''sys'', ''pod1'', ''abc'', ''cpuset.cpus''] = Some (cs_String ref_cpuset real)"
proof -
  let ?pod = "demo_set_pod ''docker://abc''" and ?c = "requesting [''bonc.k8s.io/exclusive'']"
  let ?e = "demo_set_env ?pod" and ?l = "[''sys'', ''pod1'', ''abc'']"
  have cid: "determineCid (p_ContainerStatuses ?pod) (c_Name ?c) = ''abc''" "''abc'' \<noteq> []"
    "find (has_id ''abc'') [?l] = Some ?l" by code_simp+
  have lib: "cpuset_lib (se_cs ?e)" using ref.cpuset_lib_axioms by (simp add: demo_set_env_simps)
  have "snd (reconcileContainer ?e demo_fs [?l] ?pod ?c) = Ok ()" by code_simp
  then obtain fs' where r: "reconcileContainer ?e demo_fs [?l] ?pod ?c = (fs', Ok ())"
    by (cases "reconcileContainer ?e demo_fs [?l] ?pod ?c") simp
  have "current_cpuset ?e demo_fs ?l = all_cpus ?e" by code_simp
  then show ?thesis
    using reconcileContainer_correct [OF lib cid r] r by (simp add: demo_set_env_simps)
qed

section \<open>Filling the CPU directory\<close>

lemma lookup_set_node: "lookup fs p \<noteq> None \<Longrightarrow> lookup (set_node fs p u) p = Some u"
  by (induction fs p u rule: set_node.induct) (auto simp: bind_eq_Some_conv split: option.splits)

lemma set_node_twice: "lookup fs p \<noteq> None \<Longrightarrow> lookup (set_node fs p u) (p @ q) = lookup u q"
  by (simp add: lookup_append lookup_set_node)

lemma mkdir_all_lookup: "mkdir_all fs p = Some fs' \<Longrightarrow> \<exists>es. lookup fs' p = Some (Dir es)"
  by (induction fs p arbitrary: fs' rule: mkdir_all.induct) auto

text \<open>Copies agree with their source, as far as files can be read.\<close>

definition same_tree :: "node \<Rightarrow> node \<Rightarrow> bool" where
  "same_tree t u \<longleftrightarrow> is_dir t = is_dir u \<and> (\<forall>q. read_file u q = read_file t q)"

lemma same_tree_refl [simp]: "same_tree t t"
  by (simp add: same_tree_def)

lemma same_tree_trans: "same_tree t u \<Longrightarrow> same_tree u v \<Longrightarrow> same_tree t v"
  by (simp add: same_tree_def)

definition same_option :: "node option \<Rightarrow> node option \<Rightarrow> bool" where
  "same_option a b \<longleftrightarrow> (case (a, b) of (None, None) \<Rightarrow> True | (Some t, Some u) \<Rightarrow> same_tree t u | _ \<Rightarrow> False)"

lemma same_option_simps [simp]:
  "same_option None b \<longleftrightarrow> b = None" "same_option (Some t) (Some u) \<longleftrightarrow> same_tree t u"
  by (auto simp: same_option_def split: option.splits)

lemma same_tree_Dir: "(\<And>n. same_option (map_of es n) (map_of ds n)) \<Longrightarrow> same_tree (Dir es) (Dir ds)"
proof -
  assume h: "\<And>n. same_option (map_of es n) (map_of ds n)"
  have "read_file (Dir ds) q = read_file (Dir es) q" for q
  proof (cases q)
    case (Cons n p)
    with h [of n] show ?thesis by (auto simp: same_option_def same_tree_def split: option.splits)
  qed simp
  then show ?thesis by (simp add: same_tree_def)
qed

lemma copy_fresh:
  "\<forall>p. ok p \<Longrightarrow> names_once t \<Longrightarrow> dst = None \<or> (is_dir t \<and> dst = Some (Dir [])) \<Longrightarrow>
     \<exists>u. CopyNode ok p t dst = Some u \<and> same_tree t u"
  "\<forall>p. ok p \<Longrightarrow> distinct (map fst es) \<Longrightarrow> \<forall>e \<in> set es. names_once (snd e) \<Longrightarrow> \<forall>e \<in> set es. map_of ds (fst e) = None \<Longrightarrow>
     \<forall>n. same_option (case map_of es n of None \<Rightarrow> map_of ds n | Some t \<Rightarrow> Some t) (map_of (CopyEntries ok p es ds) n)"
proof (induction ok p t dst and ok p es ds rule: CopyNode_CopyEntries.induct)
  case (1 ok p c dst)
  then show ?case by auto
next
  case (2 ok p es dst)
  have h: "distinct (map fst es)" "\<forall>e \<in> set es. names_once (snd e)" using 2(4) by simp_all
  have nil: "\<forall>e \<in> set es. map_of [] (fst e) = (None :: node option)" by simp
  have id: "(case x of None \<Rightarrow> map_of [] n | Some t \<Rightarrow> Some t) = x" for x :: "node option" and n by (cases x) simp_all
  have "\<forall>n. same_option (map_of es n) (map_of (CopyEntries ok p es []) n)"
  proof (cases dst)
    case None
    from 2(1) [OF this spec [OF 2(3)] 2(3) h nil] show ?thesis by (simp only: id simp_thms)
  next
    case (Some d)
    with 2(5) have d: "dst = Some (Dir [])" by simp
    from 2(2) [OF this refl 2(3) h nil] show ?thesis by (simp only: id simp_thms)
  qed
  then have "same_tree (Dir es) (Dir (CopyEntries ok p es []))" by (intro same_tree_Dir) simp
  moreover have "ok p" using 2(3) by (rule spec)
  ultimately show ?case using 2(5) by auto
next
  case (3 ok p ds)
  have "same_option x x" for x by (auto simp: same_option_def split: option.splits)
  then show ?case by simp
next
  case (4 ok p n t es ds)
  have none: "map_of ds n = None" "map_of es n = None" using 4(4,6) by (auto simp: map_of_eq_None_iff)
  then obtain u where u: "CopyNode ok (p @ [n]) t (map_of ds n) = Some u" "same_tree t u"
    using 4(1) [OF 4(3)] 4(5) by auto
  have fresh: "\<forall>e \<in> set es. map_of (put_entry n u ds) (fst e) = None"
    using 4(4,6) by (auto simp: rev_image_eqI)
  have IH: "same_option (case map_of es m of None \<Rightarrow> map_of (put_entry n u ds) m | Some t \<Rightarrow> Some t)
      (map_of (CopyEntries ok p es (put_entry n u ds)) m)" for m
    by (rule spec [OF 4(2) [unfolded u(1) option.case, OF 4(3) _ _ fresh]]) (use 4(4,5) in simp_all)
  show ?case
  proof
    fix m
    show "same_option (case map_of ((n, t) # es) m of None \<Rightarrow> map_of ds m | Some t \<Rightarrow> Some t)
        (map_of (CopyEntries ok p ((n, t) # es) ds) m)"
      using IH [of m] u none same_tree_trans by (cases "m = n") (auto simp: same_option_def split: option.splits)
  qed
qed

definition cpu_name :: "nat \<Rightarrow> string" where
  "cpu_name k = ''cpu'' @ Itoa (int k)"

lemma cpu_name_inj [simp]: "cpu_name j = cpu_name k \<longleftrightarrow> j = k"
  using Itoa_inj_nonneg [of "int j" "int k"] by (auto simp: cpu_name_def)

lemma cpu_name_0: "cpu_name 0 = ''cpu0''"
  by code_simp

lemma copy_cpus_copies:
  assumes "\<forall>p. se_mkdir_ok env p" "\<forall>p. se_copy_ok env p" "names_once (Dir zs)"
    "map_of es ''cpu0'' = Some (Dir zs)" "\<forall>k. i < k \<and> k \<le> i + n \<longrightarrow> map_of es (cpu_name k) = None"
  shows "\<exists>es2. copy_cpus env base i n es = (es2, None) \<and>
    (\<forall>k. i < k \<and> k \<le> i + n \<longrightarrow> (\<exists>u. map_of es2 (cpu_name k) = Some u \<and> same_tree (Dir zs) u)) \<and>
    (\<forall>m. (\<forall>k. i < k \<and> k \<le> i + n \<longrightarrow> m \<noteq> cpu_name k) \<longrightarrow> map_of es2 m = map_of es m)"
  using assms(4,5)
proof (induction n arbitrary: i es)
  case (Suc n)
  let ?d = "cpu_name (Suc i)"
  have name: "''cpu'' @ Itoa (int i + 1) = ?d" by (simp add: cpu_name_def add.commute)
  have none: "map_of es ?d = None" using Suc.prems(2) by simp
  have ne: "''cpu0'' \<noteq> ?d" using cpu_name_inj [of 0 "Suc i"] by (simp add: cpu_name_0)
  obtain u where u: "CopyNode (se_copy_ok env) (base @ [?d]) (Dir zs) (Some (Dir [])) = Some u" "same_tree (Dir zs) u"
    using copy_fresh(1) [OF assms(2,3), of "Some (Dir [])" "base @ [?d]"] by auto
  let ?es = "put_entry ?d u (put_entry ?d (Dir []) es)"
  have "copy_cpus env base i (Suc n) es = copy_cpus env base (Suc i) n ?es"
    unfolding copy_cpus.simps Let_def name using assms(1) none ne Suc.prems(1) u(1) by (simp add: CopyDir_def)
  moreover have "map_of ?es ''cpu0'' = Some (Dir zs)" using ne Suc.prems(1) by simp
  moreover have "\<forall>k. Suc i < k \<and> k \<le> Suc i + n \<longrightarrow> map_of ?es (cpu_name k) = None" using Suc.prems(2) by auto
  ultimately obtain es2 where es2: "copy_cpus env base i (Suc n) es = (es2, None)"
    "\<forall>k. Suc i < k \<and> k \<le> Suc i + n \<longrightarrow> (\<exists>u. map_of es2 (cpu_name k) = Some u \<and> same_tree (Dir zs) u)"
    "\<forall>m. (\<forall>k. Suc i < k \<and> k \<le> Suc i + n \<longrightarrow> m \<noteq> cpu_name k) \<longrightarrow> map_of es2 m = map_of ?es m"
    using Suc.IH [of ?es "Suc i"] by auto
  have d: "map_of es2 ?d = Some u" using es2(3) by simp
  have "\<exists>u. map_of es2 (cpu_name k) = Some u \<and> same_tree (Dir zs) u" if "i < k" "k \<le> i + Suc n" for k
    using that es2(2) d u(2) by (cases "k = Suc i") auto
  moreover have "map_of es2 m = map_of es m" if "\<forall>k. i < k \<and> k \<le> i + Suc n \<longrightarrow> m \<noteq> cpu_name k" for m
  proof -
    have "m \<noteq> ?d" "\<forall>k. Suc i < k \<and> k \<le> Suc i + n \<longrightarrow> m \<noteq> cpu_name k" using that by auto
    then show ?thesis using es2(3) by simp
  qed
  ultimately show ?case using es2(1) by blast
qed simp

lemma write_in_dir:
  "lookup fs p = Some (Dir es) \<Longrightarrow> \<not> (\<exists>ds. map_of es n = Some (Dir ds)) \<Longrightarrow>
     \<exists>fs' es'. write_file fs (p @ [n]) c = Some fs' \<and> lookup fs' p = Some (Dir es') \<and> map_of es' = (map_of es)(n \<mapsto> File c)"
proof (induction fs p rule: lookup.induct)
  case (1 t)
  show ?case
  proof (cases "map_of es n")
    case None
    with 1 show ?thesis by (auto intro!: exI [of _ "put_entry n (File c) es"])
  next
    case (Some u)
    with 1 obtain x where "u = File x" by (cases u) auto
    with 1 Some show ?thesis by (auto intro!: exI [of _ "put_entry n (File c) es"])
  qed
next
  case (3 ds k p)
  then show ?case by (fastforce simp: bind_eq_Some_conv)
qed simp

lemma write_files_ok:
  assumes "\<forall>p c. se_write_ok env p c" "lookup fs base = Some (Dir es)"
    "\<forall>(p, c) \<in> set ws. \<exists>n. p = base @ [n] \<and> \<not> (\<exists>ds. map_of es n = Some (Dir ds))"
  shows "\<exists>fs'. write_files env fs ws = (fs', None) \<and> file_store.wr_list (os_write env) fs ws = Some fs'"
  using assms(2,3)
proof (induction ws arbitrary: fs es)
  case (Cons w ws)
  obtain n c where w: "w = (base @ [n], c)" "\<not> (\<exists>ds. map_of es n = Some (Dir ds))"
    using Cons.prems(2) by (cases w) auto
  obtain fs1 es1 where f: "write_file fs (base @ [n]) c = Some fs1" "lookup fs1 base = Some (Dir es1)"
    "map_of es1 = (map_of es)(n \<mapsto> File c)"
    using write_in_dir [OF Cons.prems(1) w(2), of c] by blast
  have keep: "\<not> (\<exists>ds. map_of es m = Some (Dir ds)) \<Longrightarrow> \<not> (\<exists>ds. map_of es1 m = Some (Dir ds))" for m
    by (simp add: f(3))
  have "\<forall>(p, c) \<in> set ws. \<exists>n. p = base @ [n] \<and> \<not> (\<exists>ds. map_of es1 n = Some (Dir ds))"
  proof (clarify)
    fix p c assume "(p, c) \<in> set ws"
    then obtain m where "p = base @ [m]" "\<not> (\<exists>ds. map_of es m = Some (Dir ds))"
      using Cons.prems(2) by auto
    with keep [of m] show "\<exists>n. p = base @ [n] \<and> \<not> (\<exists>ds. map_of es1 n = Some (Dir ds))" by blast
  qed
  from Cons.IH [OF f(2) this] f(1) w(1) assms(1) show ?case by (auto simp: os_write_def)
qed simp

lemma virtual_set_elems: "cpuset_lib cs \<Longrightarrow> cs_elems cs (virtual_set cs n) = {0..int n}"
proof -
  assume lib: "cpuset_lib cs"
  have "{0..int n + 1} = insert (int n + 1) {0..int n}" for n by auto
  then have "cs_elems cs (fold (\<lambda>i s. cs_Union cs s [cs_New cs [int i + 1]]) [0..<n] (cs_New cs [0])) = {0..int n}"
    by (induction n) (auto simp: cpuset_lib.elems_Union [OF lib] cpuset_lib.elems_New [OF lib])
  then show ?thesis by (simp add: virtual_set_def)
qed

text \<open>Copying keeps directories in order.\<close>

lemma ordered_copy:
  "CopyNode ok p t dst = Some u \<Longrightarrow> (\<And>d. dst = Some d \<Longrightarrow> ordered d) \<Longrightarrow> ordered u"
  "ordered (Dir ds) \<Longrightarrow> ordered (Dir (CopyEntries ok p es ds))"
proof (induction ok p t dst and ok p es ds arbitrary: u rule: CopyNode_CopyEntries.induct)
  case (1 ok p c dst)
  then show ?case by (auto split: option.splits node.splits if_splits)
next
  case (2 ok p es dst)
  show ?case
  proof (cases dst)
    case None
    with 2 show ?thesis by (auto split: if_splits)
  next
    case (Some d)
    with 2 show ?thesis by (cases d) auto
  qed
next
  case (3 ok p ds)
  then show ?case by simp
next
  case (4 ok p n t es ds)
  show ?case
  proof (cases "CopyNode ok (p @ [n]) t (map_of ds n)")
    case None
    with 4 show ?thesis by simp
  next
    case (Some u)
    have "ordered u" using 4(1) [OF Some] ordered_map_of [OF 4(3)] by blast
    with 4(3) have "ordered (Dir (put_entry n u ds))" by (rule ordered_put_entry)
    with 4(2) Some show ?thesis by simp
  qed
qed

definition cpu_file_names :: "string list" where
  "cpu_file_names = [''kernel_max'', ''online'', ''possible'', ''present'']"

text \<open>An archive that fits: a directory \<^verbatim>\<open>cpu\<close> with a \<^verbatim>\<open>cpu0\<close> and no further CPU, and no directory where the
  four files go.\<close>

definition archive_fits :: "node \<Rightarrow> (string \<times> node) list \<Rightarrow> bool" where
  "archive_fits tmp zs \<longleftrightarrow>
     (\<exists>as. lookup tmp [''cpu''] = Some (Dir as) \<and> names_once (Dir as) \<and> map_of as ''cpu0'' = Some (Dir zs) \<and>
        (\<forall>k > 0. map_of as (cpu_name k) = None) \<and>
        (\<forall>f \<in> set cpu_file_names. \<not> (\<exists>ds. map_of as f = Some (Dir ds))))"

definition no_faults :: "'s set_env \<Rightarrow> bool" where
  "no_faults env \<longleftrightarrow> (\<forall>p. se_mkdir_ok env p) \<and> (\<forall>p. se_remove_ok env p) \<and> (\<forall>p. se_copy_ok env p) \<and>
     (\<forall>p c. se_write_ok env p c)"

lemma cpu_name_not_file: "cpu_name k \<notin> set cpu_file_names"
  by (simp add: cpu_name_def cpu_file_names_def)

text \<open>The directory after the copies, before the files are written.\<close>

lemma cpu_dir_copies:
  assumes "no_faults env" "archive_fits tmp zs"
  shows "\<exists>es1 es2. CopyDir (se_copy_ok env) base (lookup tmp [''cpu'']) (Some (Dir [])) = Some (Dir es1) \<and>
    copy_cpus env base 0 n es1 = (es2, None) \<and>
    (\<forall>k \<le> n. \<exists>u. map_of es2 (cpu_name k) = Some u \<and> same_tree (Dir zs) u) \<and>
    (\<forall>f \<in> set cpu_file_names. \<not> (\<exists>ds. map_of es2 f = Some (Dir ds)))"
proof -
  have ok: "\<forall>p. se_copy_ok env p" "\<forall>p. se_mkdir_ok env p" using assms(1) unfolding no_faults_def by blast+
  obtain as where as: "lookup tmp [''cpu''] = Some (Dir as)" "names_once (Dir as)" "map_of as ''cpu0'' = Some (Dir zs)"
    "\<forall>k > 0. map_of as (cpu_name k) = None" "\<forall>f \<in> set cpu_file_names. \<not> (\<exists>ds. map_of as f = Some (Dir ds))"
    using assms(2) by (auto simp: archive_fits_def)
  define es1 where "es1 = CopyEntries (se_copy_ok env) base as []"
  have c1: "CopyDir (se_copy_ok env) base (lookup tmp [''cpu'']) (Some (Dir [])) = Some (Dir es1)"
    by (simp add: as(1) CopyDir_def es1_def)
  have nil: "\<forall>e \<in> set as. map_of [] (fst e) = (None :: node option)" by simp
  have once: "distinct (map fst as)" "\<forall>e \<in> set as. names_once (snd e)" using as(2) by simp_all
  have same: "same_option (map_of as m) (map_of es1 m)" for m
    using spec [OF copy_fresh(2) [OF ok(1) once nil, of base], of m] unfolding es1_def
    by (cases "map_of as m") simp_all
  obtain zs1 where zs1: "map_of es1 ''cpu0'' = Some (Dir zs1)" "same_tree (Dir zs) (Dir zs1)"
    using same [of "''cpu0''"] as(3)
    by (auto simp: same_option_def same_tree_def is_dir_def split: option.splits node.splits)
  have "ordered (Dir es1)" unfolding es1_def by (rule ordered_copy(2)) simp
  then have "names_once (Dir zs1)" using ordered_map_of [OF _ zs1(1)] ordered_names_once by blast
  moreover have "\<forall>k. 0 < k \<and> k \<le> 0 + n \<longrightarrow> map_of es1 (cpu_name k) = None"
  proof (intro allI impI)
    fix k assume "0 < k \<and> k \<le> 0 + n"
    with as(4) same [of "cpu_name k"] show "map_of es1 (cpu_name k) = None" by simp
  qed
  ultimately obtain es2 where es2: "copy_cpus env base 0 n es1 = (es2, None)"
    "\<forall>k. 0 < k \<and> k \<le> 0 + n \<longrightarrow> (\<exists>u. map_of es2 (cpu_name k) = Some u \<and> same_tree (Dir zs1) u)"
    "\<forall>m. (\<forall>k. 0 < k \<and> k \<le> 0 + n \<longrightarrow> m \<noteq> cpu_name k) \<longrightarrow> map_of es2 m = map_of es1 m"
    using copy_cpus_copies [OF ok(2,1) _ zs1(1), of 0 n base] by blast
  have "\<exists>u. map_of es2 (cpu_name k) = Some u \<and> same_tree (Dir zs) u" if "k \<le> n" for k
  proof (cases "k = 0")
    case True
    have "map_of es2 (cpu_name 0) = map_of es1 (cpu_name 0)" using es2(3) by simp
    with True zs1 show ?thesis by (simp add: cpu_name_0)
  next
    case False
    with that es2(2) obtain u where "map_of es2 (cpu_name k) = Some u" "same_tree (Dir zs1) u" by auto
    with zs1(2) same_tree_trans show ?thesis by blast
  qed
  moreover have "\<not> (\<exists>ds. map_of es2 f = Some (Dir ds))" if "f \<in> set cpu_file_names" for f
  proof -
    have "map_of es2 f = map_of es1 f" using es2(3) that cpu_name_not_file by metis
    with same [of f] as(5) that show ?thesis
      by (auto simp: same_option_def same_tree_def is_dir_def split: option.splits node.splits)
  qed
  ultimately show ?thesis using c1 es2(1) by blast
qed

text \<open>The base directory exists or can be made.\<close>

definition dir_available :: "node \<Rightarrow> path \<Rightarrow> bool" where
  "dir_available fs p \<longleftrightarrow>
     (case lookup fs p of Some (Dir es) \<Rightarrow> True | Some (File c) \<Rightarrow> False | None \<Rightarrow> mkdir_all fs p \<noteq> None)"

lemma filter_none: "\<forall>x. P x \<Longrightarrow> filter (\<lambda>(n, t). \<not> P (base @ [n])) es = []"
  by (auto simp: filter_empty_conv)

lemma applyCpusToContainer_writes:
  assumes "no_faults env" "se_archive env cid = Some tmp" "archive_fits tmp zs"
    and base: "base = se_cpuRoot env @ [p_Namespace pod, p_Name pod, name]" "dir_available fs base"
  shows "\<exists>fs1 fs2 es2. applyCpusToContainer env fs pod name cid s = (fs2, None) \<and> lookup fs1 base = Some (Dir es2) \<and>
    (\<forall>k \<le> length (cs_List (se_cs env) s) - 1. \<exists>u. map_of es2 (cpu_name k) = Some u \<and> same_tree (Dir zs) u) \<and>
    file_store.wr_list (os_write env) fs1 (cpu_files env base s) = Some fs2"
proof -
  let ?n = "length (cs_List (se_cs env) s) - 1"
  have ok: "\<forall>p. se_mkdir_ok env p" "\<forall>p. se_remove_ok env p" "\<forall>p c. se_write_ok env p c"
    using assms(1) unfolding no_faults_def by blast+
  define made where "made = (if PathExists fs base then Some fs else if se_mkdir_ok env base then mkdir_all fs base else None)"
  obtain fs0 es0 where m: "made = Some fs0" "lookup fs0 base = Some (Dir es0)"
    using base(2) ok(1) mkdir_all_lookup [of fs base]
    by (auto simp: made_def dir_available_def PathExists_def split: option.splits node.splits)
  obtain es1 es2 where c: "CopyDir (se_copy_ok env) base (lookup tmp [''cpu'']) (Some (Dir [])) = Some (Dir es1)"
    "copy_cpus env base 0 ?n es1 = (es2, None)"
    "\<forall>k \<le> ?n. \<exists>u. map_of es2 (cpu_name k) = Some u \<and> same_tree (Dir zs) u"
    "\<forall>f \<in> set cpu_file_names. \<not> (\<exists>ds. map_of es2 f = Some (Dir ds))"
    using cpu_dir_copies [OF assms(1,3)] by blast
  define fs1 where "fs1 = set_node (set_node fs0 base (Dir [])) base (Dir es2)"
  have l: "lookup fs1 base = Some (Dir es2)" unfolding fs1_def using m(2) by (simp add: lookup_set_node)
  have "\<forall>(p, c) \<in> set (cpu_files env base s). \<exists>n. p = base @ [n] \<and> \<not> (\<exists>ds. map_of es2 n = Some (Dir ds))"
    using c(4) by (simp add: cpu_files_def Let_def cpu_file_names_def)
  from write_files_ok [OF ok(3) l this] obtain fs2 where w: "write_files env fs1 (cpu_files env base s) = (fs2, None)"
    "file_store.wr_list (os_write env) fs1 (cpu_files env base s) = Some fs2" by blast
  have "applyCpusToContainer env fs pod name cid s = (fs2, None)"
    unfolding applyCpusToContainer_def base(1) [symmetric] Let_def made_def [symmetric]
    using m c(1,2) w(1) assms(2) filter_none [OF ok(2), of base es0] by (simp add: IsEmpty_def fs1_def)
  with l c(3) w(2) show ?thesis by blast
qed

lemma cpu_dir_layout:
  assumes "cpuset_lib (se_cs env)" "no_faults env" "se_archive env cid = Some tmp" "archive_fits tmp zs"
    "base = se_cpuRoot env @ [p_Namespace pod, p_Name pod, name]" "dir_available fs base"
    "n = length (cs_List (se_cs env) s)" "0 < n"
  shows "\<exists>fs'. applyCpusToContainer env fs pod name cid s = (fs', None) \<and>
    read_file fs' (base @ [''kernel_max'']) = Some (Itoa (int n - 1)) \<and>
    (\<forall>f \<in> {''online'', ''possible'', ''present''}.
       read_file fs' (base @ [f]) = Some (cs_String (se_cs env) (cs_New (se_cs env) [0..int n - 1]))) \<and>
    (\<forall>k < n. \<forall>q. read_file fs' (base @ cpu_name k # q) = read_file (Dir zs) q)"
proof -
  obtain fs1 fs' es2 where r: "applyCpusToContainer env fs pod name cid s = (fs', None)" "lookup fs1 base = Some (Dir es2)"
    "\<forall>k \<le> n - 1. \<exists>u. map_of es2 (cpu_name k) = Some u \<and> same_tree (Dir zs) u"
    "file_store.wr_list (os_write env) fs1 (cpu_files env base s) = Some fs'"
    using applyCpusToContainer_writes [OF assms(2-6), of s] assms(7) by blast
  have d: "distinct (map fst (cpu_files env base s))" by (simp add: cpu_files_def Let_def)
  have "cs_elems (se_cs env) (virtual_set (se_cs env) (n - 1)) = cs_elems (se_cs env) (cs_New (se_cs env) [0..int n - 1])"
    using assms(8) by (auto simp: virtual_set_elems [OF assms(1)] cpuset_lib.elems_New [OF assms(1)])
  then have v: "cs_String (se_cs env) (virtual_set (se_cs env) (n - 1)) = cs_String (se_cs env) (cs_New (se_cs env) [0..int n - 1])"
    by (rule cpuset_lib.String_canonical [OF assms(1)])
  have "read_file fs' (base @ cpu_name k # q) = read_file (Dir zs) q" if "k < n" for k q
  proof -
    have "base @ cpu_name k # q \<notin> fst ` set (cpu_files env base s)"
      using cpu_name_not_file [of k] by (auto simp: cpu_files_def Let_def cpu_file_names_def)
    then have "read_file fs' (base @ cpu_name k # q) = read_file fs1 (base @ cpu_name k # q)"
      using cgroup.wr_list_frame [OF r(4)] by simp
    moreover have "k \<le> n - 1" using that by simp
    with r(3) obtain u where u: "map_of es2 (cpu_name k) = Some u" "same_tree (Dir zs) u" by blast
    moreover have "read_file fs1 (base @ cpu_name k # q) = read_file u q"
      using r(2) u(1) by (simp add: read_file_def lookup_append)
    moreover have "read_file u q = read_file (Dir zs) q" using u(2) by (simp add: same_tree_def)
    ultimately show ?thesis by simp
  qed
  moreover have "read_file fs' p = Some c" if "(p, c) \<in> set (cpu_files env base s)" for p c
    using cgroup.wr_list_read [OF r(4) d that] .
  ultimately show ?thesis using r(1) v assms(7) by (intro exI [of _ fs']) (auto simp: cpu_files_def Let_def)
qed

text \<open>C15: The directory that shows a container its CPUs. Without faults, and for a set of \<open>n\<close> CPUs, the
  container sees the CPUs 0 to \<open>n - 1\<close>: \<^verbatim>\<open>kernel_max\<close> is \<open>n - 1\<close>, the three lists are those CPUs, and for
  each of them there is a copy of the directory of CPU 0 of the archive, whatever was there before.\<close>

theorem applyCpusToContainer_layout:
  assumes "cpuset_lib (se_cs env)" "no_faults env" "se_archive env cid = Some tmp" "archive_fits tmp zs"
    "base = se_cpuRoot env @ [p_Namespace pod, p_Name pod, name]" "dir_available fs base"
    "n = length (cs_List (se_cs env) s)" "0 < n"
  shows "\<exists>fs'. applyCpusToContainer env fs pod name cid s = (fs', None) \<and>
    read_file fs' (base @ [''kernel_max'']) = Some (Itoa (int n - 1)) \<and>
    (\<forall>f \<in> {''online'', ''possible'', ''present''}.
       read_file fs' (base @ [f]) = Some (cs_String (se_cs env) (cs_New (se_cs env) [0..int n - 1]))) \<and>
    (\<forall>k < n. \<forall>q. read_file fs' (base @ cpu_name k # q) = read_file (Dir zs) q)"
  using assms by (rule cpu_dir_layout)

theorem applyCpusToContainer_layout_witness:
  "\<exists>fs'. applyCpusToContainer (demo_set_env (demo_set_pod ''docker://abc'')) demo_fs (demo_set_pod ''docker://abc'') ''c'' ''abc'' [2, 3] =
       (fs', None) \<and>
     read_file fs' [''cpu'', ''ns'', ''pod'', ''c'', ''kernel_max''] = Some ''1'' \<and>
     read_file fs' [''cpu'', ''ns'', ''pod'', ''c'', ''cpu1'', ''freq''] = Some ''1''"
proof -
  let ?pod = "demo_set_pod ''docker://abc''"
  let ?e = "demo_set_env ?pod"
  let ?zs = "[(''freq'', File ''1'')]"
  let ?base = "[''cpu'', ''ns'', ''pod'', ''c'']"
  have lib: "cpuset_lib (se_cs ?e)" using ref.cpuset_lib_axioms by (simp add: demo_set_env_simps)
  have nf: "no_faults ?e" by (simp add: no_faults_def demo_set_env_def)
  let ?tmp = "Dir [(''cpu'', Dir [(''cpu0'', Dir ?zs)])]"
  have ar: "se_archive ?e ''abc'' = Some ?tmp" by code_simp
  have "cpu_name k \<noteq> ''cpu0''" if "0 < k" for k using cpu_name_inj [of k 0] that by (simp add: cpu_name_0)
  then have fits: "archive_fits ?tmp ?zs"
    unfolding archive_fits_def by (auto simp: cpu_file_names_def intro!: exI [of _ "[(''cpu0'', Dir ?zs)]"])
  have base: "?base = se_cpuRoot ?e @ [p_Namespace ?pod, p_Name ?pod, ''c'']" "dir_available demo_fs ?base"
    "2 = length (cs_List (se_cs ?e) [2, 3])" by code_simp+
  obtain fs' where f: "applyCpusToContainer ?e demo_fs ?pod ''c'' ''abc'' [2, 3] = (fs', None)"
    "read_file fs' (?base @ [''kernel_max'']) = Some (Itoa (int 2 - 1))"
    "\<forall>k < 2. \<forall>q. read_file fs' (?base @ cpu_name k # q) = read_file (Dir ?zs) q"
    using applyCpusToContainer_layout [OF lib nf ar fits base] by auto
  have "Itoa (int 2 - 1) = ''1''" "cpu_name 1 = ''cpu1''" by code_simp+
  with f(1,2) f(3) [rule_format, of 1 "[''freq'']"] show ?thesis
    by simp
qed

section \<open>The tree stays in order\<close>

lemma ordered_os_write: "ordered fs \<Longrightarrow> os_write env fs p c = Some fs' \<Longrightarrow> ordered fs'"
  by (auto simp: os_write_def ordered_write_file split: if_splits)

lemma ordered_applyCpuset:
  "ordered fs \<Longrightarrow> applyCpusetToContainer env fs cid s = (fs', r) \<Longrightarrow> ordered fs'"
  by (auto simp: applyCpusetToContainer_def ordered_os_write split: if_splits prod.splits option.splits bool.splits)

lemma ordered_applyInfra:
  "ordered fs \<Longrightarrow> applyCpusetToInfraContainer env fs pod p = (fs', r) \<Longrightarrow> ordered fs'"
  by (auto simp: applyCpusetToInfraContainer_def Let_def ordered_os_write split: if_splits option.splits)

lemma ordered_CopyDir:
  assumes "CopyDir ok p src dst = Some u" "\<And>d. dst = Some d \<Longrightarrow> ordered d"
  shows "ordered u"
proof -
  obtain es where "CopyNode ok p (Dir es) dst = Some u"
    using assms(1) by (auto simp: CopyDir_def simp del: CopyNode.simps split: option.splits node.splits)
  then show ?thesis using assms(2) by (rule ordered_copy(1))
qed

lemma ordered_copy_cpus: "ordered (Dir es) \<Longrightarrow> copy_cpus env base i n es = (es', e) \<Longrightarrow> ordered (Dir es')"
proof (induction n arbitrary: i es)
  case (Suc n)
  define d where "d = ''cpu'' @ Itoa (int i + 1)"
  note eq = Suc.prems(2) [unfolded copy_cpus.simps Let_def, folded d_def]
  define dst where "dst = (case map_of es d of None \<Rightarrow> Dir [] | Some t \<Rightarrow> t)"
  have dst: "ordered dst" using ordered_map_of [OF Suc.prems(1)] by (auto simp: dst_def split: option.splits)
  with Suc.prems(1) have es1: "ordered (Dir (put_entry d dst es))" by (rule ordered_put_entry)
  show ?case
  proof (cases "\<not> se_mkdir_ok env (base @ [d]) \<or> (\<exists>c. map_of es d = Some (File c))")
    case True
    with eq Suc.prems(1) show ?thesis by (auto split: if_splits)
  next
    case False
    then have eq2: "(case CopyDir (se_copy_ok env) (base @ [d]) (map_of (put_entry d dst es) ''cpu0'') (Some dst) of
        None \<Rightarrow> (put_entry d dst es, Some (CpuDirError (base @ [d])))
      | Some t \<Rightarrow> copy_cpus env base (Suc i) n (put_entry d t (put_entry d dst es))) = (es', e)"
    proof (cases "map_of es d")
      case None
      then have d: "dst = Dir []" by (simp add: dst_def)
      show ?thesis unfolding d using eq [unfolded None option.case] False by (simp del: map_of_put_entry)
    next
      case (Some t)
      with False obtain ds where ds: "t = Dir ds" by (cases t) auto
      with Some have d: "dst = Dir ds" by (simp add: dst_def)
      show ?thesis unfolding d using eq [unfolded Some ds option.case node.case] False by (simp del: map_of_put_entry)
    qed
    show ?thesis
    proof (cases "CopyDir (se_copy_ok env) (base @ [d]) (map_of (put_entry d dst es) ''cpu0'') (Some dst)")
      case None
      with eq2 es1 show ?thesis by simp
    next
      case (Some t)
      then have "ordered t" using dst by (auto intro: ordered_CopyDir)
      with es1 have "ordered (Dir (put_entry d t (put_entry d dst es)))" by (rule ordered_put_entry)
      with Suc.IH eq2 Some show ?thesis by simp
    qed
  qed
qed simp

lemma ordered_write_files: "ordered fs \<Longrightarrow> write_files env fs ws = (fs', e) \<Longrightarrow> ordered fs'"
  by (induction env fs ws rule: write_files.induct) (auto simp: ordered_os_write split: option.splits)

lemma ordered_filter: "ordered (Dir es) \<Longrightarrow> ordered (Dir (filter P es))"
  by (auto simp: sorted_wrt_map sorted_wrt_filter)

text \<open>The part that fills the emptied directory.\<close>

lemma ordered_fill:
  assumes o: "ordered fs2" "ordered (Dir kept)"
    and eq: "(case CopyDir (se_copy_ok env) base src (Some (Dir kept)) of
      Some (Dir es1) \<Rightarrow>
        (case copy_cpus env base 0 m es1 of
           (es2, Some e) \<Rightarrow> (set_node fs2 base (Dir es2), Some e)
         | (es2, None) \<Rightarrow> write_files env (set_node fs2 base (Dir es2)) ws)
    | _ \<Rightarrow> (fs2, Some err)) = (fs', e)"
  shows "ordered fs'"
proof (cases "\<exists>es1. CopyDir (se_copy_ok env) base src (Some (Dir kept)) = Some (Dir es1)")
  case False
  with eq o(1) show ?thesis by (auto split: option.splits node.splits)
next
  case True
  then obtain es1 where es1: "CopyDir (se_copy_ok env) base src (Some (Dir kept)) = Some (Dir es1)" by blast
  then have "ordered (Dir es1)" by (rule ordered_CopyDir) (use o(2) in blast)
  then have "ordered (Dir es2)" if "copy_cpus env base 0 m es1 = (es2, x)" for es2 x
    using that by (rule ordered_copy_cpus)
  then have "ordered (set_node fs2 base (Dir es2))" if "copy_cpus env base 0 m es1 = (es2, x)" for es2 x
    using that o(1) ordered_set_node by blast
  with eq es1 show ?thesis by (auto split: prod.splits option.splits intro: ordered_write_files)
qed

lemma ordered_applyCpus:
  assumes "ordered fs" "applyCpusToContainer env fs pod n cid s = (fs', e)"
  shows "ordered fs'"
proof -
  define base where "base = se_cpuRoot env @ [p_Namespace pod, p_Name pod, n]"
  define made where "made = (if PathExists fs base then Some fs else if se_mkdir_ok env base then mkdir_all fs base else None)"
  note eq = assms(2) [unfolded applyCpusToContainer_def Let_def, folded base_def, folded made_def]
  show ?thesis
  proof (cases made)
    case None
    with eq assms(1) show ?thesis by simp
  next
    case (Some fs1)
    then have o1: "ordered fs1" using assms(1) ordered_mkdir_all by (auto simp: made_def split: if_splits)
    show ?thesis
    proof (cases "\<exists>es0. lookup fs1 base = Some (Dir es0)")
      case False
      with eq Some o1 show ?thesis by (auto split: option.splits node.splits)
    next
      case True
      then obtain es0 where es0: "lookup fs1 base = Some (Dir es0)" by blast
      define kept where "kept = (if fst (IsEmpty fs1 base) then es0
        else filter (\<lambda>(n, t). \<not> se_remove_ok env (base @ [n])) es0)"
      have k: "ordered (Dir kept)"
        using ordered_lookup [OF o1 es0] ordered_filter [OF ordered_lookup [OF o1 es0]] unfolding kept_def
        by (cases "fst (IsEmpty fs1 base)") (simp_all only: if_True if_False)
      then have o2: "ordered (set_node fs1 base (Dir kept))" using o1 by (simp only: ordered_set_node)
      note eq2 = eq [unfolded Some es0 option.case node.case, folded kept_def]
      show ?thesis
      proof (cases "se_archive env cid")
        case None
        with eq2 o2 show ?thesis by simp
      next
        case (Some tmp)
        from ordered_fill [OF o2 k eq2 [unfolded Some option.case]] show ?thesis .
      qed
    qed
  qed
qed

lemma ordered_adjust_loop: "ordered fs \<Longrightarrow> adjust_loop env pod names fs path cs = (fs', r) \<Longrightarrow> ordered fs'"
proof (induction cs arbitrary: fs path)
  case (Cons c cs)
  show ?case
  proof (cases "c_Name c \<in> set names")
    case False
    with Cons show ?thesis by simp
  next
    case True
    define cid where "cid = determineCid (p_ContainerStatuses pod) (c_Name c)"
    show ?thesis
    proof (cases "\<exists>a b. determineCorrectCpuset (se_choice env) pod c = Ok (a, b) \<and> cid \<noteq> []")
      case False
      with True Cons.prems show ?thesis by (auto simp: cid_def split: outcome.splits if_splits)
    next
      case ok: True
      then obtain a b where ab: "determineCorrectCpuset (se_choice env) pod c = Ok (a, b)" "cid \<noteq> []" by blast
      obtain fs1 r1 where a1: "applyCpusetToContainer env fs cid b = (fs1, r1)" by fastforce
      have o1: "ordered fs1" using ordered_applyCpuset [OF Cons.prems(1) a1] .
      show ?thesis
      proof (cases r1)
        case (Inl e)
        with True ab a1 o1 Cons.prems(2) show ?thesis by (simp add: cid_def Let_def)
      next
        case (Inr path')
        obtain fs2 e where a2: "applyCpusToContainer env fs1 pod (c_Name c) cid a = (fs2, e)" by fastforce
        have o2: "ordered fs2" using ordered_applyCpus [OF o1 a2] .
        show ?thesis
        proof (cases e)
          case (Some x)
          with True ab a1 Inr a2 o2 Cons.prems(2) show ?thesis by (simp add: cid_def Let_def)
        next
          case None
          with True ab a1 Inr a2 Cons.prems(2) have "adjust_loop env pod names fs2 path' cs = (fs', r)" by (simp add: cid_def Let_def)
          with o2 show ?thesis by (rule Cons.IH)
        qed
      qed
    qed
  qed
qed simp

lemma ordered_adjust:
  assumes "ordered (w_fs w)" "adjustContainerSets env w pod names = (w', r)"
  shows "ordered (w_fs w')"
proof -
  obtain fs1 r1 where a: "adjust_loop env pod names (w_fs w) [] (p_Containers pod) = (fs1, r1)" by fastforce
  have o1: "ordered fs1" using ordered_adjust_loop [OF assms(1) a] .
  show ?thesis
  proof (cases r1)
    case (Ok path)
    obtain fs2 e where i: "applyCpusetToInfraContainer env fs1 pod path = (fs2, e)" by fastforce
    have "ordered fs2" using ordered_applyInfra [OF o1 i] .
    with a Ok i assms(2) show ?thesis by (cases e) (auto simp: adjustContainerSets_def split: if_splits)
  qed (use a o1 assms(2) in \<open>auto simp: adjustContainerSets_def\<close>)
qed

lemma ordered_retry: "ordered (w_fs w) \<Longrightarrow> retry_adjust env pod names err n w = (w', r) \<Longrightarrow> ordered (w_fs w')"
proof (induction n arbitrary: err w)
  case (Suc n)
  obtain w1 a where a: "adjustContainerSets env w pod names = (w1, a)" by fastforce
  have "ordered (w_fs w1)" using ordered_adjust [OF Suc.prems(1) a] .
  with Suc a show ?case by (cases a) auto
qed simp

lemma ordered_reconcileContainer:
  assumes "ordered fs" "reconcileContainer env fs ls pod c = (fs', r)"
  shows "ordered fs'"
proof -
  have reset: "ordered f'" if "reset_leaf env fs l pod c cid = (f', x)" for l cid f' x
  proof (cases "determineCorrectCpuset (se_choice env) pod c")
    case (Ok ab)
    obtain a b where "ab = (a, b)" by (cases ab)
    moreover obtain f1 e where a1: "applyCpusToContainer env fs pod (c_Name c) cid a = (f1, e)" by fastforce
    moreover have "ordered f1" using ordered_applyCpus [OF assms(1) a1] .
    ultimately show ?thesis using that Ok
      by (auto simp: reset_leaf_def Let_def split: option.splits intro: ordered_os_write)
  qed (use that assms(1) in \<open>auto simp: reset_leaf_def\<close>)
  have "ordered f'" if "reconcile_leaves env fs pod c cid ls = (f', x)" for cid f' x
    using that assms(1) reset by (induction ls) (auto simp: Let_def split: if_splits)
  then show ?thesis using assms by (auto simp: reconcileContainer_def Let_def split: if_splits)
qed

lemma ordered_reconcile_loop: "ordered fs \<Longrightarrow> reconcile_loop env ls fs pcs = (fs', r) \<Longrightarrow> ordered fs'"
proof (induction pcs arbitrary: fs)
  case (Cons pc pcs)
  obtain pod c where pc: "pc = (pod, c)" by (cases pc)
  obtain f1 x where f1: "reconcileContainer env fs ls pod c = (f1, x)" by fastforce
  have "ordered f1" using ordered_reconcileContainer [OF Cons.prems(1) f1] .
  with Cons pc f1 show ?case by (cases x) auto
qed simp

lemma ordered_handlePods:
  assumes "ordered (w_fs w)"
  shows "ordered (w_fs (fst (handlePods env w pod)))"
proof -
  have "ordered (w_fs (fst (retry_adjust env p names e n w)))" for p names e n
    using ordered_retry [OF assms] by (cases "retry_adjust env p names e n w") simp
  then show ?thesis using assms by (auto simp: handlePods_def Let_def split: prod.splits bool.splits)
qed

lemma ordered_reconcileCpusets:
  assumes "ordered fs"
  shows "ordered (fst (reconcileCpusets env fs))"
proof -
  have "ordered (fst (reconcile_loop env ls fs pcs))" for ls pcs
    using ordered_reconcile_loop [OF assms] by (cases "reconcile_loop env ls fs pcs") simp
  then show ?thesis using assms by (auto simp: reconcileCpusets_def split: outcome.splits option.splits)
qed

end
