(* ===== verification/Pod_Status.thy ===== *)
theory Pod_Status
  imports Kube_Types
begin

text \<open>
  The state of a pod as \<^verbatim>\<open>kubectl\<close> shows it, \<^verbatim>\<open>PodStatus\<close> of \<^verbatim>\<open>pkg/k8sclient/pod.go\<close>, and waiting for a pod
  to run with given annotations, \<^verbatim>\<open>WaitPod\<close>, \<^verbatim>\<open>waitPodRunning\<close> and \<^verbatim>\<open>waitPodDeleted\<close>.

  Points in time are integers with 0 for the zero time. The rendering of the time elapsed since a
  restart (\<^verbatim>\<open>HumanDuration\<close> of \<^verbatim>\<open>time.Since\<close>) is a parameter. Restart counts are 32-bit, their sums are
  taken in 64 bits and stay far from its bounds, so they are plain integers. The counters
  \<^verbatim>\<open>totalContainers\<close> and \<^verbatim>\<open>readyContainers\<close> are written and never read, and are left out.

  The lemmas give the closed form of the two loops: the reason is the one of the first container
  that has one, restarts are summed and the date is the latest one. Waiting returns at the first
  event that satisfies the condition, and never for an empty set of annotations.
\<close>

section \<open>Conditions and init containers\<close>

definition isRestartableInitContainer :: "container option \<Rightarrow> bool" where
  "isRestartableInitContainer initContainer =
     (case initContainer of
        None \<Rightarrow> False
      | Some c \<Rightarrow> (case c_RestartPolicy c of None \<Rightarrow> False | Some pol \<Rightarrow> pol = ''Always''))"

fun isPodInitializedConditionTrue :: "pod_condition list \<Rightarrow> bool" where
  "isPodInitializedConditionTrue [] = False"
| "isPodInitializedConditionTrue (cond # cs) =
     (if pc_Type cond \<noteq> ''Initialized'' then isPodInitializedConditionTrue cs else pc_Status cond = ''True'')"

fun hasPodReadyCondition :: "pod_condition list \<Rightarrow> bool" where
  "hasPodReadyCondition [] = False"
| "hasPodReadyCondition (cond # cs) =
     (if pc_Type cond = ''Ready'' \<and> pc_Status cond = ''True'' then True else hasPodReadyCondition cs)"

definition translateTimestampSince :: "(int \<Rightarrow> string) \<Rightarrow> int \<Rightarrow> string" where
  "translateTimestampSince since timestamp = (if timestamp = 0 then ''<unknown>'' else since timestamp)"

text \<open>The reason before any container is looked at.\<close>

fun gated_loop :: "string \<Rightarrow> pod_condition list \<Rightarrow> string" where
  "gated_loop reason [] = reason"
| "gated_loop reason (cond # cs) =
     gated_loop (if pc_Type cond = ''PodScheduled'' \<and> pc_Reason cond = ''SchedulingGated'' then ''SchedulingGated'' else reason) cs"

definition base_reason :: "pod \<Rightarrow> string" where
  "base_reason pod = gated_loop (if p_Reason pod \<noteq> [] then p_Reason pod else p_Phase pod) (p_Conditions pod)"

fun init_containers :: "(string \<times> container) list \<Rightarrow> container list \<Rightarrow> (string \<times> container) list" where
  "init_containers m [] = m"
| "init_containers m (c # cs) = init_containers (AList.update (c_Name c) c m) cs"

section \<open>The two loops\<close>

definition later :: "int \<Rightarrow> terminated option \<Rightarrow> int" where
  "later date t = (case t of None \<Rightarrow> date | Some x \<Rightarrow> (if date < t_FinishedAt x then t_FinishedAt x else date))"

definition exit_reason :: "string \<Rightarrow> terminated \<Rightarrow> string" where
  "exit_reason pre t =
     (if t_Reason t = [] then
        (if t_Signal t \<noteq> 0 then pre @ ''Signal:'' @ Itoa (t_Signal t) else pre @ ''ExitCode:'' @ Itoa (t_ExitCode t))
      else pre @ t_Reason t)"

record init_acc =
  i_restarts :: int
  i_lastRestart :: int
  i_restartableRestarts :: int
  i_lastRestartable :: int
  i_reason :: string
  i_initializing :: bool

definition init_counts :: "(string \<times> container) list \<Rightarrow> init_acc \<Rightarrow> container_status \<Rightarrow> init_acc" where
  "init_counts inits a st =
     (let a1 = a\<lparr>i_restarts := i_restarts a + st_RestartCount st,
                 i_lastRestart := later (i_lastRestart a) (st_LastTermination st)\<rparr>
      in if isRestartableInitContainer (map_of inits (st_Name st))
         then a1\<lparr>i_restartableRestarts := i_restartableRestarts a1 + st_RestartCount st,
                 i_lastRestartable := later (i_lastRestartable a1) (st_LastTermination st)\<rparr>
         else a1)"

fun init_loop :: "(string \<times> container) list \<Rightarrow> nat \<Rightarrow> nat \<Rightarrow> init_acc \<Rightarrow> container_status list \<Rightarrow> init_acc" where
  "init_loop inits of_n i a [] = a"
| "init_loop inits of_n i a (st # sts) =
     (let a2 = init_counts inits a st
      in if (case s_Terminated (st_State st) of None \<Rightarrow> False | Some t \<Rightarrow> t_ExitCode t = 0)
         then init_loop inits of_n (Suc i) a2 sts
         else if isRestartableInitContainer (map_of inits (st_Name st)) \<and> st_Started st = Some True
              then init_loop inits of_n (Suc i) a2 sts
         else
           (case s_Terminated (st_State st) of
              Some t \<Rightarrow> a2\<lparr>i_reason := exit_reason ''Init:'' t, i_initializing := True\<rparr>
            | None \<Rightarrow>
                (case s_Waiting (st_State st) of
                   Some w \<Rightarrow>
                     (if w \<noteq> [] \<and> w \<noteq> ''PodInitializing''
                      then a2\<lparr>i_reason := ''Init:'' @ w, i_initializing := True\<rparr>
                      else a2\<lparr>i_reason := ''Init:'' @ Itoa (int i) @ ''/'' @ Itoa (int of_n), i_initializing := True\<rparr>)
                 | None \<Rightarrow> a2\<lparr>i_reason := ''Init:'' @ Itoa (int i) @ ''/'' @ Itoa (int of_n), i_initializing := True\<rparr>)))"

record main_acc =
  m_restarts :: int
  m_lastRestart :: int
  m_reason :: string
  m_hasRunning :: bool

definition container_step :: "main_acc \<Rightarrow> container_status \<Rightarrow> main_acc" where
  "container_step a st =
     (let a1 = a\<lparr>m_restarts := m_restarts a + st_RestartCount st,
                 m_lastRestart := later (m_lastRestart a) (st_LastTermination st)\<rparr>
      in if (case s_Waiting (st_State st) of None \<Rightarrow> False | Some w \<Rightarrow> w \<noteq> [])
         then a1\<lparr>m_reason := the (s_Waiting (st_State st))\<rparr>
         else case s_Terminated (st_State st) of
                Some t \<Rightarrow> a1\<lparr>m_reason := exit_reason [] t\<rparr>
              | None \<Rightarrow> (if st_Ready st \<and> s_Running (st_State st) then a1\<lparr>m_hasRunning := True\<rparr> else a1))"

text \<open>The loop counts down from the last container status.\<close>

fun main_loop :: "main_acc \<Rightarrow> container_status list \<Rightarrow> main_acc" where
  "main_loop a [] = a"
| "main_loop a (st # sts) = container_step (main_loop a sts) st"

record pod_state =
  ps_restarts :: int
  ps_lastRestartDate :: int
  ps_restartsStr :: string
  ps_reason :: string

definition PodStatus :: "(int \<Rightarrow> string) \<Rightarrow> pod \<Rightarrow> pod_state" where
  "PodStatus since pod =
     (let inits = init_containers [] (p_InitContainers pod);
          a = init_loop inits (length (p_InitContainers pod)) 0
                \<lparr>i_restarts = 0, i_lastRestart = 0, i_restartableRestarts = 0, i_lastRestartable = 0,
                  i_reason = base_reason pod, i_initializing = False\<rparr>
                (p_InitContainerStatuses pod);
          (restarts, date, reason) =
            (if \<not> i_initializing a \<or> isPodInitializedConditionTrue (p_Conditions pod)
             then
               (let m = main_loop \<lparr>m_restarts = i_restartableRestarts a, m_lastRestart = i_lastRestartable a,
                                    m_reason = i_reason a, m_hasRunning = False\<rparr>
                          (p_ContainerStatuses pod)
                in (m_restarts m, m_lastRestart m,
                    if m_reason m = ''Completed'' \<and> m_hasRunning m
                    then (if hasPodReadyCondition (p_Conditions pod) then ''Running'' else ''NotReady'')
                    else m_reason m))
             else (i_restarts a, i_lastRestart a, i_reason a));
          reason' =
            (if p_DeletionTimestamp pod \<noteq> None \<and> p_Reason pod = ''NodeLost'' then ''Unknown''
             else if p_DeletionTimestamp pod \<noteq> None then ''Terminating''
             else reason)
      in \<lparr>ps_restarts = restarts, ps_lastRestartDate = date,
          ps_restartsStr =
            (if restarts \<noteq> 0 \<and> date \<noteq> 0
             then Itoa restarts @ '' ('' @ translateTimestampSince since date @ '' ago)''
             else Itoa restarts),
          ps_reason = reason'\<rparr>)"

section \<open>Waiting for a pod\<close>

text \<open>What one \<^verbatim>\<open>select\<close> receives: an event of the watch, with the pod it carries if it carries one, or the
  end of the context. A closed watch delivers events without an object.\<close>

datatype received = Event (event_type: string) (event_pod: "pod option") | ContextDone

datatype wait_error = NoWatcher | ContextErr

fun identity_loop :: "(string \<times> string) list \<Rightarrow> bool \<Rightarrow> (string \<times> string) list \<Rightarrow> bool" where
  "identity_loop current ident [] = ident"
| "identity_loop current ident ((k, v) # as) =
     (case map_of current k of
        Some cv \<Rightarrow> (if cv = v then identity_loop current True as else False)
      | None \<Rightarrow> False)"

text \<open>The loops return \<open>None\<close> when the given events do not end them.\<close>

fun waitPodDeleted_loop :: "received list \<Rightarrow> (wait_error, unit) outcome option" where
  "waitPodDeleted_loop [] = None"
| "waitPodDeleted_loop (ContextDone # rs) = Some (Err ContextErr)"
| "waitPodDeleted_loop (Event ty obj # rs) = (if ty = ''DELETED'' then Some (Ok ()) else waitPodDeleted_loop rs)"

definition waitPodDeleted :: "bool \<Rightarrow> received list \<Rightarrow> (wait_error, unit) outcome option" where
  "waitPodDeleted watcher rs = (if watcher then waitPodDeleted_loop rs else Some (Err NoWatcher))"

fun waitPodRunning_loop :: "received list \<Rightarrow> (wait_error, unit) outcome option" where
  "waitPodRunning_loop [] = None"
| "waitPodRunning_loop (ContextDone # rs) = Some (Err ContextErr)"
| "waitPodRunning_loop (Event ty None # rs) = Some (Panic TypeAssertion)"
| "waitPodRunning_loop (Event ty (Some pod) # rs) =
     (if p_Phase pod = PodRunning then Some (Ok ()) else waitPodRunning_loop rs)"

definition waitPodRunning :: "bool \<Rightarrow> received list \<Rightarrow> (wait_error, unit) outcome option" where
  "waitPodRunning watcher rs = (if watcher then waitPodRunning_loop rs else Some (Err NoWatcher))"

fun WaitPod_loop :: "(string \<times> string) list \<Rightarrow> received list \<Rightarrow> (wait_error, pod) outcome option" where
  "WaitPod_loop annotations [] = None"
| "WaitPod_loop annotations (ContextDone # rs) = Some (Err ContextErr)"
| "WaitPod_loop annotations (Event ty None # rs) = Some (Panic TypeAssertion)"
| "WaitPod_loop annotations (Event ty (Some pod) # rs) =
     (if p_Phase pod = PodRunning then
        (if identity_loop (p_Annotations pod) False annotations then Some (Ok pod) else WaitPod_loop annotations rs)
      else WaitPod_loop annotations rs)"

definition WaitPod :: "bool \<Rightarrow> (string \<times> string) list \<Rightarrow> received list \<Rightarrow> (wait_error, pod) outcome option" where
  "WaitPod watcher annotations rs = (if watcher then WaitPod_loop annotations rs else Some (Err NoWatcher))"

section \<open>What the loops compute\<close>

definition dates :: "container_status list \<Rightarrow> int set" where
  "dates sts = {t_FinishedAt t |t st. st \<in> set sts \<and> st_LastTermination st = Some t}"

lemma dates_Nil [simp]: "dates [] = {}"
  by (simp add: dates_def)

lemma dates_Cons: "dates (st # sts) = (case st_LastTermination st of None \<Rightarrow> {} | Some t \<Rightarrow> {t_FinishedAt t}) \<union> dates sts"
  by (auto simp: dates_def split: option.splits)

lemma finite_dates [simp]: "finite (dates sts)"
  by (induction sts) (auto simp: dates_Cons split: option.splits)

lemma Max_insert_max:
  assumes "finite D"
  shows "Max (insert (max d x) D) = Max (insert d (insert (x :: int) D))"
    "max (Max (insert d D)) x = Max (insert d (insert x D))"
  using assms by (cases "D = {}"; simp add: ac_simps)+

lemma later_simps [simp]: "later d None = d" "later d (Some t) = max d (t_FinishedAt t)"
  by (simp_all add: later_def max_def)

lemma later_Max: "later (Max (insert d (dates sts))) (st_LastTermination st) = Max (insert d (dates (st # sts)))"
  by (cases "st_LastTermination st") (simp_all only: later_simps Max_insert_max finite_dates dates_Cons, simp_all)

lemma Max_later: "Max (insert (later d (st_LastTermination st)) (dates sts)) = Max (insert d (dates (st # sts)))"
  by (cases "st_LastTermination st") (simp_all only: later_simps Max_insert_max finite_dates dates_Cons, simp_all)

text \<open>The reason a container gives, and whether it counts as running.\<close>

definition reason_of :: "container_status \<Rightarrow> string option" where
  "reason_of st =
     (case s_Waiting (st_State st) of
        Some (c # w) \<Rightarrow> Some (c # w)
      | _ \<Rightarrow> map_option (exit_reason []) (s_Terminated (st_State st)))"

definition running_ready :: "container_status \<Rightarrow> bool" where
  "running_ready st \<longleftrightarrow> reason_of st = None \<and> st_Ready st \<and> s_Running (st_State st)"

definition first_reason :: "container_status list \<Rightarrow> string option" where
  "first_reason sts = (case List.map_filter reason_of sts of [] \<Rightarrow> None | r # _ \<Rightarrow> Some r)"

lemma first_reason_simps [simp]:
  "first_reason [] = None"
  "first_reason (st # sts) = (case reason_of st of None \<Rightarrow> first_reason sts | Some r \<Rightarrow> Some r)"
  by (auto simp: first_reason_def map_filter_simps split: option.splits)

lemma container_step_fields:
  "m_restarts (container_step a st) = m_restarts a + st_RestartCount st"
  "m_lastRestart (container_step a st) = later (m_lastRestart a) (st_LastTermination st)"
  "m_reason (container_step a st) = (case reason_of st of None \<Rightarrow> m_reason a | Some r \<Rightarrow> r)"
  "m_hasRunning (container_step a st) = (running_ready st \<or> m_hasRunning a)"
  by (auto simp: container_step_def Let_def reason_of_def running_ready_def split: option.splits list.splits)

lemma main_loop_fields:
  "m_restarts (main_loop a sts) = m_restarts a + sum_list (map st_RestartCount sts)"
  "m_lastRestart (main_loop a sts) = Max (insert (m_lastRestart a) (dates sts))"
  "m_reason (main_loop a sts) = (case first_reason sts of None \<Rightarrow> m_reason a | Some r \<Rightarrow> r)"
  "m_hasRunning (main_loop a sts) = ((\<exists>st \<in> set sts. running_ready st) \<or> m_hasRunning a)"
proof (induction sts)
  case (Cons st sts)
  { case 1 from Cons(1) show ?case by (simp add: container_step_fields) }
  { case 2 from Cons(2) show ?case by (simp add: container_step_fields later_Max) }
  { case 3 from Cons(3) show ?case by (simp add: container_step_fields split: option.split) }
  { case 4 from Cons(4) show ?case by (auto simp: container_step_fields) }
qed simp_all

text \<open>Init containers that are done, or are restartable and have started, do not stop the pod.\<close>

definition past_init :: "(string \<times> container) list \<Rightarrow> container_status \<Rightarrow> bool" where
  "past_init inits st \<longleftrightarrow>
     (\<exists>t. s_Terminated (st_State st) = Some t \<and> t_ExitCode t = 0) \<or>
     isRestartableInitContainer (map_of inits (st_Name st)) \<and> st_Started st = Some True"

definition restartable :: "(string \<times> container) list \<Rightarrow> container_status \<Rightarrow> bool" where
  "restartable inits st = isRestartableInitContainer (map_of inits (st_Name st))"

lemma past_init_iff:
  "past_init inits st \<longleftrightarrow>
     (case s_Terminated (st_State st) of None \<Rightarrow> False | Some t \<Rightarrow> t_ExitCode t = 0) \<or>
     (isRestartableInitContainer (map_of inits (st_Name st)) \<and> st_Started st = Some True)"
  by (auto simp: past_init_def split: option.splits)

lemma init_loop_step: "past_init inits st \<Longrightarrow>
    init_loop inits n i a (st # sts) = init_loop inits n (Suc i) (init_counts inits a st) sts"
  by (auto simp: past_init_iff Let_def)

lemma init_counts_fields [simp]:
  "i_reason (init_counts inits a st) = i_reason a"
  "i_initializing (init_counts inits a st) = i_initializing a"
  "i_restartableRestarts (init_counts inits a st) =
     i_restartableRestarts a + (if restartable inits st then st_RestartCount st else 0)"
  "i_lastRestartable (init_counts inits a st) =
     (if restartable inits st then later (i_lastRestartable a) (st_LastTermination st) else i_lastRestartable a)"
  by (simp_all add: init_counts_def restartable_def Let_def)

lemma init_loop_past:
  assumes "\<forall>st \<in> set sts. past_init inits st"
  shows "i_reason (init_loop inits n i a sts) = i_reason a \<and>
    i_initializing (init_loop inits n i a sts) = i_initializing a \<and>
    i_restartableRestarts (init_loop inits n i a sts) =
      i_restartableRestarts a + sum_list (map st_RestartCount (filter (restartable inits) sts)) \<and>
    i_lastRestartable (init_loop inits n i a sts) =
      Max (insert (i_lastRestartable a) (dates (filter (restartable inits) sts)))"
  using assms
proof (induction sts arbitrary: i a)
  case (Cons st sts)
  then have "past_init inits st" by simp
  then show ?case using Cons.IH [of "Suc i" "init_counts inits a st"] Cons.prems
    by (simp add: init_loop_step Max_later del: init_loop.simps)
qed simp

lemma init_loop_stuck:
  assumes "\<not> past_init inits st" "\<forall>s \<in> set pre. past_init inits s"
  shows "i_initializing (init_loop inits n i a (pre @ st # post))"
  using assms(2)
proof (induction pre arbitrary: i a)
  case Nil
  with assms(1) show ?case by (auto simp: past_init_iff Let_def split: option.splits)
next
  case (Cons s pre)
  then show ?case by (simp add: init_loop_step del: init_loop.simps)
qed

section \<open>Correctness of the pod state\<close>

abbreviation pod_inits :: "pod \<Rightarrow> (string \<times> container) list" where
  "pod_inits pod \<equiv> init_containers [] (p_InitContainers pod)"

definition initialized :: "pod \<Rightarrow> bool" where
  "initialized pod \<longleftrightarrow> (\<forall>st \<in> set (p_InitContainerStatuses pod). past_init (pod_inits pod) st)"

text \<open>The reason of an initialised pod that is not being deleted.\<close>

definition live_reason :: "pod \<Rightarrow> string" where
  "live_reason pod =
     (let r = (case first_reason (p_ContainerStatuses pod) of None \<Rightarrow> base_reason pod | Some r \<Rightarrow> r)
      in if r = ''Completed'' \<and> (\<exists>st \<in> set (p_ContainerStatuses pod). running_ready st)
         then (if hasPodReadyCondition (p_Conditions pod) then ''Running'' else ''NotReady'') else r)"

lemma PodStatus_live:
  assumes "initialized pod"
  shows "ps_restarts (PodStatus since pod) =
      sum_list (map st_RestartCount (p_ContainerStatuses pod)) +
      sum_list (map st_RestartCount (filter (restartable (pod_inits pod)) (p_InitContainerStatuses pod))) \<and>
    ps_lastRestartDate (PodStatus since pod) =
      Max ({0} \<union> dates (filter (restartable (pod_inits pod)) (p_InitContainerStatuses pod)) \<union> dates (p_ContainerStatuses pod)) \<and>
    ps_reason (PodStatus since pod) =
      (if p_DeletionTimestamp pod = None then live_reason pod
       else if p_Reason pod = ''NodeLost'' then ''Unknown'' else ''Terminating'')"
proof -
  define a where "a = init_loop (pod_inits pod) (length (p_InitContainers pod)) 0
    \<lparr>i_restarts = 0, i_lastRestart = 0, i_restartableRestarts = 0, i_lastRestartable = 0,
      i_reason = base_reason pod, i_initializing = False\<rparr> (p_InitContainerStatuses pod)"
  have a: "\<not> i_initializing a" "i_reason a = base_reason pod"
    "i_restartableRestarts a =
      sum_list (map st_RestartCount (filter (restartable (pod_inits pod)) (p_InitContainerStatuses pod)))"
    "i_lastRestartable a = Max (insert 0 (dates (filter (restartable (pod_inits pod)) (p_InitContainerStatuses pod))))"
    using init_loop_past [OF assms [unfolded initialized_def]] by (simp_all add: a_def)
  have max: "Max (insert (Max (insert 0 A)) B) = Max ({0} \<union> A \<union> B)" if "finite A" "finite B" for A B :: "int set"
    using that by (cases "B = {}"; cases "A = {}") (simp_all add: Max.union ac_simps)
  show ?thesis
    unfolding PodStatus_def Let_def a_def [symmetric]
    by (simp add: a main_loop_fields max live_reason_def Let_def split: option.split) blast
qed

text \<open>C36: The state of an initialised pod: its restarts are those of all its containers and of its
  restartable init containers, its date the latest termination of one of them, and its reason the
  one of its first container that waits or has terminated, where a completed container does not
  hide another one that runs; a pod that is being deleted is terminating or unknown.\<close>

theorem PodStatus_initialized:
  assumes "initialized pod"
  shows "ps_restarts (PodStatus since pod) =
      sum_list (map st_RestartCount (p_ContainerStatuses pod)) +
      sum_list (map st_RestartCount (filter (restartable (pod_inits pod)) (p_InitContainerStatuses pod))) \<and>
    ps_lastRestartDate (PodStatus since pod) =
      Max ({0} \<union> dates (filter (restartable (pod_inits pod)) (p_InitContainerStatuses pod)) \<union> dates (p_ContainerStatuses pod)) \<and>
    ps_reason (PodStatus since pod) =
      (if p_DeletionTimestamp pod = None then live_reason pod
       else if p_Reason pod = ''NodeLost'' then ''Unknown'' else ''Terminating'')"
  using assms by (rule PodStatus_live)

definition carries :: "(string \<times> string) list \<Rightarrow> pod \<Rightarrow> bool" where
  "carries annotations pod \<longleftrightarrow> annotations \<noteq> [] \<and> (\<forall>(k, v) \<in> set annotations. map_of (p_Annotations pod) k = Some v)"

definition ends_wait :: "(string \<times> string) list \<Rightarrow> received \<Rightarrow> bool" where
  "ends_wait annotations r \<longleftrightarrow>
     (case r of ContextDone \<Rightarrow> True | Event ty None \<Rightarrow> True
      | Event ty (Some pod) \<Rightarrow> p_Phase pod = PodRunning \<and> carries annotations pod)"

lemma identity_loop_iff:
  "identity_loop current ident as \<longleftrightarrow>
     (if as = [] then ident else \<forall>(k, v) \<in> set as. map_of current k = Some v)"
  by (induction current ident as rule: identity_loop.induct) (auto split: option.splits)

lemma identity_carries: "identity_loop (p_Annotations pod) False annotations \<longleftrightarrow> carries annotations pod"
  by (simp add: identity_loop_iff carries_def)

text \<open>C37: Waiting for a pod returns at the first event whose pod runs with all the given annotations,
  unless the context ends or the watch breaks before it. For an empty set of annotations no event
  ends the wait.\<close>

theorem WaitPod_correct:
  "WaitPod True annotations rs =
     (case find (ends_wait annotations) rs of
        None \<Rightarrow> None
      | Some ContextDone \<Rightarrow> Some (Err ContextErr)
      | Some (Event ty None) \<Rightarrow> Some (Panic TypeAssertion)
      | Some (Event ty (Some pod)) \<Rightarrow> Some (Ok pod)) \<and>
   WaitPod True [] rs \<noteq> Some (Ok pod)"
proof
  have loop: "WaitPod_loop as rs =
     (case find (ends_wait as) rs of
        None \<Rightarrow> None
      | Some ContextDone \<Rightarrow> Some (Err ContextErr)
      | Some (Event ty None) \<Rightarrow> Some (Panic TypeAssertion)
      | Some (Event ty (Some pod)) \<Rightarrow> Some (Ok pod))" for as
    by (induction as rs rule: WaitPod_loop.induct) (simp_all add: ends_wait_def identity_carries)
  then show "WaitPod True annotations rs =
     (case find (ends_wait annotations) rs of
        None \<Rightarrow> None
      | Some ContextDone \<Rightarrow> Some (Err ContextErr)
      | Some (Event ty None) \<Rightarrow> Some (Panic TypeAssertion)
      | Some (Event ty (Some pod)) \<Rightarrow> Some (Ok pod))" by (simp add: WaitPod_def)
  show "WaitPod True [] rs \<noteq> Some (Ok pod)"
    unfolding WaitPod_def by (induction "[] :: (string \<times> string) list" rs rule: WaitPod_loop.induct) auto
qed

section \<open>An example\<close>

definition demo_state :: "string option \<Rightarrow> int option \<Rightarrow> container_state" where
  "demo_state wait exit = \<lparr>s_Waiting = wait, s_Running = (wait = None \<and> exit = None),
     s_Terminated = map_option (\<lambda>e. \<lparr>t_Reason = ''Completed'', t_Signal = 0, t_ExitCode = e, t_FinishedAt = 7\<rparr>) exit\<rparr>"

definition demo_container_status :: "string \<Rightarrow> int \<Rightarrow> container_state \<Rightarrow> container_status" where
  "demo_container_status name restarts s = \<lparr>st_Name = name, st_ContainerID = ''docker://'' @ name, st_Ready = True,
     st_RestartCount = restarts, st_Started = Some True, st_State = s,
     st_LastTermination = (if restarts = 0 then None
       else Some \<lparr>t_Reason = ''Error'', t_Signal = 0, t_ExitCode = 1, t_FinishedAt = 5\<rparr>)\<rparr>"

definition demo_status_pod :: "container_status list \<Rightarrow> container_status list \<Rightarrow> pod" where
  "demo_status_pod inits sts = \<lparr>p_Name = ''p'', p_Namespace = ''ns'', p_UID = ''u1'', p_Annotations = [(''a'', ''1'')],
     p_DeletionTimestamp = None, p_NodeName = ''n1'', p_Containers = [], p_InitContainers = [], p_Volumes = [],
     p_Phase = ''Running'', p_Reason = [],
     p_Conditions = [\<lparr>pc_Type = ''Ready'', pc_Reason = [], pc_Status = ''True''\<rparr>],
     p_InitContainerStatuses = inits, p_ContainerStatuses = sts\<rparr>"

theorem PodStatus_initialized_witness:
  "ps_restarts (PodStatus Itoa (demo_status_pod [demo_container_status ''i'' 4 (demo_state None (Some 0))]
      [demo_container_status ''a'' 2 (demo_state None (Some 3)), demo_container_status ''b'' 1 (demo_state None None)])) = 3 \<and>
   ps_reason (PodStatus Itoa (demo_status_pod [demo_container_status ''i'' 4 (demo_state None (Some 0))]
      [demo_container_status ''a'' 2 (demo_state None (Some 3)), demo_container_status ''b'' 1 (demo_state None None)])) = ''Running''"
  (is "ps_restarts (PodStatus _ ?p) = _ \<and> _")
proof -
  have "initialized ?p" by (simp add: initialized_def past_init_def demo_status_pod_def demo_container_status_def demo_state_def)
  from PodStatus_initialized [OF this, of Itoa] show ?thesis
    by (simp add: live_reason_def running_ready_def reason_of_def exit_reason_def restartable_def isRestartableInitContainer_def
      demo_status_pod_def demo_container_status_def demo_state_def)
qed

end
