(* ===== verification/Controller.thy ===== *)
theory Controller
  imports Set_Handler Pod_Status Command_Line
begin

text \<open>
  The event side of cpusetter, \<^verbatim>\<open>PodChanged\<close>, \<^verbatim>\<open>WatchErrorHandler\<close>, \<^verbatim>\<open>Stop\<close> and the workers of
  \<^verbatim>\<open>pkg/sethandler/controller.go\<close>, and the main function of \<^verbatim>\<open>cmd/cpusetter\<close>: updates of pods are filtered
  into a work queue, workers take items from it and adjust the pods, a timer triggers the
  reconciliation, and a broken watch or a signal shuts the process down.

  The work queue of client-go is a parameter with the laws of the locale \<open>work_queue\<close>. The process is a
  step relation on the file system, the queue and the flags of the threads; one step is one
  handled event, and what the API server and the file system answer may differ from step to step.

  The lemmas show which updates are queued, and by rule induction over all runs that a pod is
  annotated only after an update of it was queued and it was found to be on this node, and that
  the file system stays well formed.
\<close>

section \<open>Work queue\<close>

record work_item =
  wi_oldPod :: "pod option"
  wi_newPod :: pod

datatype queued = Queued work_item | OtherObject

text \<open>\<open>q_Get\<close> is \<open>None\<close> while it blocks and has no item when the queue is shut down.\<close>

record 'q queue_api =
  q_Add :: "queued \<Rightarrow> 'q \<Rightarrow> 'q"
  q_Get :: "'q \<Rightarrow> (queued option \<times> 'q) option"
  q_Done :: "queued \<Rightarrow> 'q \<Rightarrow> 'q"
  q_ShutDown :: "'q \<Rightarrow> 'q"
  q_items :: "'q \<Rightarrow> queued set"
  q_shuttingDown :: "'q \<Rightarrow> bool"

locale work_queue =
  fixes Q :: "'q queue_api"
  assumes items_Add: "q_items Q (q_Add Q x q) = (if q_shuttingDown Q q then q_items Q q else insert x (q_items Q q))"
    and items_Get: "q_Get Q q = Some (Some x, q') \<Longrightarrow> x \<in> q_items Q q \<and> q_items Q q' \<subseteq> q_items Q q"
    and items_Get_none: "q_Get Q q = Some (None, q') \<Longrightarrow> q_shuttingDown Q q \<and> q_items Q q' \<subseteq> q_items Q q"
    and items_Done: "q_items Q (q_Done Q x q) \<subseteq> q_items Q q"
    and items_ShutDown: "q_items Q (q_ShutDown Q q) \<subseteq> q_items Q q" "q_shuttingDown Q (q_ShutDown Q q)"
begin

lemma items_Get_Done:
  assumes "q_Get Q q = Some (Some x, q')"
  shows "q_items Q (q_Done Q x q') \<subseteq> q_items Q q"
  using items_Get [OF assms] items_Done [of x q'] by blast

lemma Add_after_ShutDown: "q_items Q (q_Add Q x (q_ShutDown Q q)) \<subseteq> q_items Q q"
  using items_ShutDown [of q] by (simp add: items_Add)

end

section \<open>State\<close>

record 'q ctl =
  ct_world :: world
  ct_queue :: 'q
  ct_workers :: nat
  ct_reconciling :: bool
  ct_exiting :: bool
  ct_down :: bool

section \<open>Events\<close>

text \<open>\<^verbatim>\<open>PodAdded\<close> is not registered with the informer.\<close>

definition PodAdded :: "'q queue_api \<Rightarrow> 'q ctl \<Rightarrow> pod \<Rightarrow> 'q ctl" where
  "PodAdded Q s pod = s\<lparr>ct_queue := q_Add Q (Queued \<lparr>wi_oldPod = None, wi_newPod = pod\<rparr>) (ct_queue s)\<rparr>"

definition PodChanged :: "'q queue_api \<Rightarrow> (int \<Rightarrow> string) \<Rightarrow> 'q ctl \<Rightarrow> pod \<Rightarrow> pod \<Rightarrow> 'q ctl" where
  "PodChanged Q since s oldPod newPod =
     (let item = Queued \<lparr>wi_oldPod = Some oldPod, wi_newPod = newPod\<rparr>;
          ost = PodStatus since oldPod;
          nst = PodStatus since newPod;
          added = s\<lparr>ct_queue := q_Add Q item (ct_queue s)\<rparr>
      in if p_Phase oldPod \<noteq> p_Phase newPod \<and> p_Phase newPod = PodRunning then added
         else if (ps_reason ost \<noteq> ps_reason nst \<and> ps_reason nst = PodRunning) \<or>
                 (ps_reason ost = ps_reason nst \<and> ps_reason nst = PodRunning \<and> ps_restarts nst > ps_restarts ost)
         then added
         else s)"

text \<open>\<^verbatim>\<open>Stop\<close> sends one value on the channel all threads listen on; only the thread that receives it ends.\<close>

datatype receiver = Reconciler | AWorker | Informer

definition Stop_handler :: "'q queue_api \<Rightarrow> receiver \<Rightarrow> 'q ctl \<Rightarrow> 'q ctl" where
  "Stop_handler Q r s =
     s\<lparr>ct_reconciling := (ct_reconciling s \<and> r \<noteq> Reconciler),
       ct_workers := (if r = AWorker then ct_workers s - 1 else ct_workers s),
       ct_queue := q_ShutDown Q (ct_queue s)\<rparr>"

datatype watch_error = ResourceExpired | Gone | EOF | OtherError

definition WatchErrorHandler :: "'q queue_api \<Rightarrow> watch_error \<Rightarrow> receiver \<Rightarrow> 'q ctl \<Rightarrow> 'q ctl" where
  "WatchErrorHandler Q err r s =
     (if err = ResourceExpired \<or> err = Gone \<or> err = EOF then s
      else (Stop_handler Q r s)\<lparr>ct_exiting := True\<rparr>)"

section \<open>Workers\<close>

definition processItemInQueue :: "'q queue_api \<Rightarrow> 's set_env \<Rightarrow> 'q ctl \<Rightarrow> queued \<Rightarrow> 'q ctl" where
  "processItemInQueue Q env s obj =
     (case obj of
        OtherObject \<Rightarrow> s\<lparr>ct_queue := q_Done Q obj (ct_queue s)\<rparr>
      | Queued item \<Rightarrow>
          (case handlePods env (ct_world s) (wi_newPod item) of
             (w, r) \<Rightarrow> s\<lparr>ct_world := w, ct_queue := q_Done Q obj (ct_queue s),
                         ct_down := (case r of HandlerPanic p \<Rightarrow> True | _ \<Rightarrow> ct_down s)\<rparr>))"

text \<open>One round of \<^verbatim>\<open>runWorker\<close>: \<open>None\<close> while it blocks, else the new state and whether the worker goes on.\<close>

definition processNextWorkItem :: "'q queue_api \<Rightarrow> 's set_env \<Rightarrow> 'q ctl \<Rightarrow> ('q ctl \<times> bool) option" where
  "processNextWorkItem Q env s =
     (case q_Get Q (ct_queue s) of
        None \<Rightarrow> None
      | Some (None, q) \<Rightarrow> Some (s\<lparr>ct_queue := q\<rparr>, False)
      | Some (Some obj, q) \<Rightarrow> Some (processItemInQueue Q env (s\<lparr>ct_queue := q\<rparr>) obj, True))"

text \<open>One tick of \<^verbatim>\<open>startReconciliationLoop\<close>: a returned error is only logged, a panic ends the process.\<close>

definition reconcile_tick :: "'s set_env \<Rightarrow> 'q ctl \<Rightarrow> 'q ctl" where
  "reconcile_tick env s =
     (case reconcileCpusets env (w_fs (ct_world s)) of
        (fs, r) \<Rightarrow> s\<lparr>ct_world := (ct_world s)\<lparr>w_fs := fs\<rparr>,
                     ct_down := (case r of Panic p \<Rightarrow> True | _ \<Rightarrow> ct_down s)\<rparr>)"

section \<open>The process\<close>

datatype 's ctl_event =
    Updated pod pod
  | Worker "'s set_env"
  | Tick "'s set_env"
  | WatchBroken watch_error receiver
  | Signalled receiver
  | Exited

inductive ctl_step :: "'q queue_api \<Rightarrow> (int \<Rightarrow> string) \<Rightarrow> 'q ctl \<Rightarrow> 's ctl_event \<Rightarrow> 'q ctl \<Rightarrow> bool"
  for Q since where
  updated: "\<not> ct_down s \<Longrightarrow> ctl_step Q since s (Updated oldPod newPod) (PodChanged Q since s oldPod newPod)"
| worker: "\<not> ct_down s \<Longrightarrow> 0 < ct_workers s \<Longrightarrow> processNextWorkItem Q env s = Some (s', go) \<Longrightarrow> ctl_step Q since s (Worker env) s'"
| tick: "\<not> ct_down s \<Longrightarrow> ct_reconciling s \<Longrightarrow> ctl_step Q since s (Tick env) (reconcile_tick env s)"
| watch: "\<not> ct_down s \<Longrightarrow> ctl_step Q since s (WatchBroken err r) (WatchErrorHandler Q err r s)"
| signalled: "\<not> ct_down s \<Longrightarrow> ctl_step Q since s (Signalled r) ((Stop_handler Q r s)\<lparr>ct_exiting := True\<rparr>)"
| exited: "\<not> ct_down s \<Longrightarrow> ct_exiting s \<Longrightarrow> ctl_step Q since s Exited (s\<lparr>ct_down := True\<rparr>)"

inductive_cases ctl_step_elims:
  "ctl_step Q since s (Updated oldPod newPod) s'"
  "ctl_step Q since s (Worker env) s'"
  "ctl_step Q since s (Tick env) s'"
  "ctl_step Q since s (WatchBroken err r) s'"
  "ctl_step Q since s (Signalled r) s'"
  "ctl_step Q since s Exited s'"

inductive ctl_run :: "'q queue_api \<Rightarrow> (int \<Rightarrow> string) \<Rightarrow> 'q ctl \<Rightarrow> 's ctl_event list \<Rightarrow> 'q ctl \<Rightarrow> bool"
  for Q since s0 where
  start: "ctl_run Q since s0 [] s0"
| step: "ctl_run Q since s0 evs s \<Longrightarrow> ctl_step Q since s e s' \<Longrightarrow> ctl_run Q since s0 (evs @ [e]) s'"

section \<open>Start of the process\<close>

text \<open>The configuration of a handler is part of the environment its operations run in. \<^verbatim>\<open>New\<close> sets it, when
  the client configuration and the client can be built.\<close>

definition configure :: "'s pool_config \<Rightarrow> path \<Rightarrow> path \<Rightarrow> 's set_env \<Rightarrow> 's set_env" where
  "configure poolConfig cpusetRoot cpuRoot env =
     env\<lparr>se_choice := (se_choice env)\<lparr>ch_poolConfig := poolConfig\<rparr>, se_cpusetRoot := cpusetRoot, se_cpuRoot := cpuRoot\<rparr>"

definition New_handler ::
  "(string \<Rightarrow> 'c option) \<Rightarrow> ('c \<Rightarrow> bool) \<Rightarrow> string \<Rightarrow> 's pool_config \<Rightarrow> path \<Rightarrow> path \<Rightarrow> 'q \<Rightarrow> 's set_env \<Rightarrow> world
    \<Rightarrow> ('s set_env \<times> 'q ctl) option" where
  "New_handler buildConfig newClient kubeConf poolConfig cpusetRoot cpuRoot queue env w =
     (case buildConfig kubeConf of
        None \<Rightarrow> None
      | Some cfg \<Rightarrow>
          (if \<not> newClient cfg then None
           else Some (configure poolConfig cpusetRoot cpuRoot env,
             \<lparr>ct_world = w, ct_queue = queue, ct_workers = 0, ct_reconciling = False, ct_exiting = False, ct_down = False\<rparr>)))"

text \<open>The getter and the setter of a handler; the setter keeps the CPU directory and starts a new queue.\<close>

definition SetHandler :: "'s set_env \<times> 'q ctl \<Rightarrow> 's set_env \<times> 'q ctl" where
  "SetHandler h = h"

definition SetSetHandler :: "'q \<Rightarrow> 's pool_config \<Rightarrow> path \<Rightarrow> 's set_env \<times> 'q ctl \<Rightarrow> 's set_env \<times> 'q ctl" where
  "SetSetHandler newQueue poolconf cpusetRoot h =
     (configure poolconf cpusetRoot (se_cpuRoot (fst h)) (fst h), (snd h)\<lparr>ct_queue := newQueue\<rparr>)"

text \<open>\<^verbatim>\<open>Run\<close>: the state and whether the returned error is nil.\<close>

definition Run_handler :: "nat \<Rightarrow> bool \<Rightarrow> 'q ctl \<Rightarrow> 'q ctl \<times> bool" where
  "Run_handler threadiness synced s =
     (if \<not> synced then (s, False) else (s\<lparr>ct_workers := threadiness, ct_reconciling := True\<rparr>, True))"

definition NumberOfWorkers :: nat where "NumberOfWorkers = 100"

text \<open>\<^verbatim>\<open>main\<close> of \<^verbatim>\<open>cmd/cpusetter\<close> up to its wait for a signal: \<open>None\<close> is an exit on the flags or a fatal error.
  The pool configuration is determined only when the mandatory flags are there. The two roots are
  read as absolute paths, and an empty one has no components.\<close>

definition cpusetter_flags :: "string list" where
  "cpusetter_flags = [''poolconfigs'', ''cpusetroot'', ''cpuroot'', ''kubeconfig'']"

definition cpusetter_main ::
  "(string \<Rightarrow> flag_def option) \<Rightarrow> (pool_error, 's pool_config) outcome \<Rightarrow> (string \<Rightarrow> 'c option) \<Rightarrow> ('c \<Rightarrow> bool) \<Rightarrow> bool
    \<Rightarrow> 'q \<Rightarrow> 's set_env \<Rightarrow> world \<Rightarrow> string list \<Rightarrow> ('s set_env \<times> 'q ctl) option" where
  "cpusetter_main foreign poolConf buildConfig newClient synced queue env w args =
     (case flag_Parse (program_flags cpusetter_flags foreign) args of
        ExitStatus _ \<Rightarrow> None
      | Flags vs \<Rightarrow>
          (let poolConfigPath = flag_value vs ''poolconfigs'' [];
               cpusetRoot = flag_value vs ''cpusetroot'' [];
               cpuRoot = flag_value vs ''cpuroot'' [];
               kubeConfig = flag_value vs ''kubeconfig'' []
           in if poolConfigPath = [] \<or> cpusetRoot = [] then None
              else
                (case poolConf of
                   Ok pc \<Rightarrow>
                     (case New_handler buildConfig newClient kubeConfig pc (path_of cpusetRoot) (path_of cpuRoot) queue env w of
                        None \<Rightarrow> None
                      | Some (env', s) \<Rightarrow> Some (env', fst (Run_handler NumberOfWorkers synced s)))
                 | _ \<Rightarrow> None)))"

section \<open>Which updates are queued\<close>

text \<open>An update needs work when the pod comes to run, or when it runs and a container was restarted.\<close>

definition needs_work :: "(int \<Rightarrow> string) \<Rightarrow> pod \<Rightarrow> pod \<Rightarrow> bool" where
  "needs_work since oldPod newPod \<longleftrightarrow>
     p_Phase newPod = PodRunning \<and> p_Phase oldPod \<noteq> PodRunning \<or>
     ps_reason (PodStatus since newPod) = PodRunning \<and>
       (ps_reason (PodStatus since oldPod) = PodRunning \<longrightarrow>
         ps_restarts (PodStatus since oldPod) < ps_restarts (PodStatus since newPod))"

abbreviation update_item :: "pod \<Rightarrow> pod \<Rightarrow> queued" where
  "update_item oldPod newPod \<equiv> Queued \<lparr>wi_oldPod = Some oldPod, wi_newPod = newPod\<rparr>"

lemma PodChanged_queue:
  "PodChanged Q since s oldPod newPod =
     (if needs_work since oldPod newPod
      then s\<lparr>ct_queue := q_Add Q (update_item oldPod newPod) (ct_queue s)\<rparr> else s)"
  by (auto simp: PodChanged_def needs_work_def Let_def)

lemma sum_list_less:
  assumes "list_all2 (\<lambda>x y. f x \<le> (f y :: int)) xs ys" "\<exists>i < length xs. f (xs ! i) < f (ys ! i)"
  shows "sum_list (map f xs) < sum_list (map f ys)"
  using assms
proof (induction rule: list_all2_induct)
  case (Cons x xs y ys)
  have le: "sum_list (map f xs) \<le> sum_list (map f ys)"
    using Cons.hyps(2) by (induction rule: list_all2_induct) auto
  show ?case
  proof (cases "f x < f y")
    case True
    with le show ?thesis by simp
  next
    case False
    with Cons.prems have "\<exists>i < length xs. f (xs ! i) < f (ys ! i)" by (auto simp: less_Suc_eq_0_disj)
    with Cons show ?thesis by simp
  qed
qed simp

text \<open>A container restart is noticed: when the pod runs before and after the update, no restart
  count went down and the one of some container went up, the update is queued, unless the queue is
  shut down. An update that changes neither phase nor state nor restarts of a pod leaves the
  controller as it is.\<close>

theorem PodChanged_notices_restart:
  assumes "work_queue Q" "initialized oldPod" "initialized newPod"
    and "p_DeletionTimestamp oldPod = None" "p_DeletionTimestamp newPod = None"
    and "live_reason oldPod = PodRunning" "live_reason newPod = PodRunning"
    and "p_InitContainers newPod = p_InitContainers oldPod" "p_InitContainerStatuses newPod = p_InitContainerStatuses oldPod"
    and "list_all2 (\<lambda>x y. st_RestartCount x \<le> st_RestartCount y) (p_ContainerStatuses oldPod) (p_ContainerStatuses newPod)"
    and "\<not> q_shuttingDown Q (ct_queue s)"
  shows "if \<exists>i < length (p_ContainerStatuses oldPod).
           st_RestartCount (p_ContainerStatuses oldPod ! i) < st_RestartCount (p_ContainerStatuses newPod ! i)
    then update_item oldPod newPod \<in> q_items Q (ct_queue (PodChanged Q since s oldPod newPod))
    else p_Phase newPod = p_Phase oldPod \<longrightarrow> PodChanged Q since s oldPod newPod = s"
proof -
  let ?r = "\<lambda>p. sum_list (map st_RestartCount (p_ContainerStatuses p))"
  have st: "ps_reason (PodStatus since oldPod) = PodRunning" "ps_reason (PodStatus since newPod) = PodRunning"
    using assms PodStatus_live by simp_all
  have "ps_restarts (PodStatus since oldPod) < ps_restarts (PodStatus since newPod) \<longleftrightarrow> ?r oldPod < ?r newPod"
    using assms PodStatus_live by simp
  with st have needs: "needs_work since oldPod newPod \<longleftrightarrow>
      (p_Phase newPod = PodRunning \<and> p_Phase oldPod \<noteq> PodRunning) \<or> ?r oldPod < ?r newPod"
    by (simp add: needs_work_def)
  show ?thesis
  proof (split if_split, intro conjI impI)
    assume "\<exists>i < length (p_ContainerStatuses oldPod).
      st_RestartCount (p_ContainerStatuses oldPod ! i) < st_RestartCount (p_ContainerStatuses newPod ! i)"
    from sum_list_less [OF assms(10) this] needs
    show "update_item oldPod newPod \<in> q_items Q (ct_queue (PodChanged Q since s oldPod newPod))"
      using assms(11) by (simp add: PodChanged_queue work_queue.items_Add [OF assms(1)])
  next
    assume none: "\<not> (\<exists>i < length (p_ContainerStatuses oldPod).
      st_RestartCount (p_ContainerStatuses oldPod ! i) < st_RestartCount (p_ContainerStatuses newPod ! i))"
      and "p_Phase newPod = p_Phase oldPod"
    have "map st_RestartCount (p_ContainerStatuses oldPod) = map st_RestartCount (p_ContainerStatuses newPod)"
      using assms(10) none by (intro nth_equalityI) (auto simp: list_all2_conv_all_nth order_less_le)
    with needs \<open>p_Phase newPod = p_Phase oldPod\<close> have "\<not> needs_work since oldPod newPod" by simp
    then show "PodChanged Q since s oldPod newPod = s" by (simp add: PodChanged_queue)
  qed
qed

section \<open>All runs\<close>

text \<open>An update in the run before the item is handled, and the handling that annotated the pod.\<close>

definition annotated_by :: "(int \<Rightarrow> string) \<Rightarrow> 's ctl_event list \<Rightarrow> string \<Rightarrow> bool" where
  "annotated_by since evs uid \<longleftrightarrow>
     (\<exists>pre oldPod newPod mid env post pod.
        evs = pre @ Updated oldPod newPod # mid @ Worker env # post \<and> needs_work since oldPod newPod \<and>
        shouldPodBeHandled env newPod = (True, pod) \<and> p_NodeName pod = se_nodeName env \<and> p_UID pod = uid)"

definition pending_from :: "(int \<Rightarrow> string) \<Rightarrow> 's ctl_event list \<Rightarrow> queued set" where
  "pending_from since evs = {update_item oldPod newPod |oldPod newPod. Updated oldPod newPod \<in> set evs \<and> needs_work since oldPod newPod}"

definition ctl_inv :: "'q queue_api \<Rightarrow> (int \<Rightarrow> string) \<Rightarrow> 's ctl_event list \<Rightarrow> 'q ctl \<Rightarrow> bool" where
  "ctl_inv Q since evs s \<longleftrightarrow>
     ordered (w_fs (ct_world s)) \<and> q_items Q (ct_queue s) \<subseteq> pending_from since evs \<and>
     (\<forall>uid \<in> set (w_annotated (ct_world s)). annotated_by since evs uid)"

lemma annotated_by_snoc: "annotated_by since evs uid \<Longrightarrow> annotated_by since (evs @ [e]) uid"
  unfolding annotated_by_def by (metis append.assoc append_Cons)

lemma pending_from_snoc: "pending_from since evs \<subseteq> pending_from since (evs @ [e])"
  by (auto simp: pending_from_def)

lemma ctl_inv_snoc: "ctl_inv Q since evs s \<Longrightarrow> ctl_inv Q since (evs @ [e]) s"
  using pending_from_snoc annotated_by_snoc unfolding ctl_inv_def by blast

lemma pending_annotates:
  assumes "update_item oldPod newPod \<in> pending_from since evs" "shouldPodBeHandled env newPod = (True, pod)"
    "p_NodeName pod = se_nodeName env"
  shows "annotated_by since (evs @ [Worker env]) (p_UID pod)"
proof -
  have "Updated oldPod newPod \<in> set evs" "needs_work since oldPod newPod"
    using assms(1) by (auto simp: pending_from_def)
  moreover obtain pre mid where "evs = pre @ Updated oldPod newPod # mid"
    using \<open>Updated oldPod newPod \<in> set evs\<close> by (metis split_list)
  ultimately show ?thesis
    unfolding annotated_by_def using assms(2,3)
    by (intro exI [of _ pre] exI [of _ oldPod] exI [of _ newPod] exI [of _ mid] exI [of _ env] exI [of _ "[]"] exI [of _ pod]) simp
qed

lemma ctl_inv_world: "ctl_inv Q since evs s \<Longrightarrow> ct_queue s' = ct_queue s \<Longrightarrow> ct_world s' = ct_world s \<Longrightarrow> ctl_inv Q since evs s'"
  by (simp add: ctl_inv_def)

lemma ctl_inv_shrinks:
  "ctl_inv Q since evs s \<Longrightarrow> q_items Q (ct_queue s') \<subseteq> q_items Q (ct_queue s) \<Longrightarrow> ct_world s' = ct_world s \<Longrightarrow>
     ctl_inv Q since evs s'"
  by (auto simp: ctl_inv_def)

lemma ctl_inv_PodChanged:
  assumes "work_queue Q" "ctl_inv Q since evs s"
  shows "ctl_inv Q since (evs @ [Updated oldPod newPod]) (PodChanged Q since s oldPod newPod)"
proof (cases "needs_work since oldPod newPod")
  case True
  then have "update_item oldPod newPod \<in> pending_from since (evs @ [Updated oldPod newPod])"
    by (auto simp: pending_from_def)
  moreover have "ctl_inv Q since (evs @ [Updated oldPod newPod]) s" using assms(2) by (rule ctl_inv_snoc)
  ultimately show ?thesis using True
    by (auto simp: PodChanged_queue ctl_inv_def work_queue.items_Add [OF assms(1)])
next
  case False
  then show ?thesis using assms(2) by (simp add: PodChanged_queue ctl_inv_snoc)
qed

lemma ctl_inv_worker:
  assumes "work_queue Q" "ctl_inv Q since evs s" "processNextWorkItem Q env s = Some (s', go)"
  shows "ctl_inv Q since (evs @ [Worker env]) s'"
proof -
  obtain x q where get: "q_Get Q (ct_queue s) = Some (x, q)"
    using assms(3) by (auto simp: processNextWorkItem_def split: option.splits)
  have inv: "ctl_inv Q since (evs @ [Worker env]) s" using assms(2) by (rule ctl_inv_snoc)
  show ?thesis
  proof (cases x)
    case None
    with get assms(3) have "s' = s\<lparr>ct_queue := q\<rparr>" by (simp add: processNextWorkItem_def)
    then show ?thesis
      using ctl_inv_shrinks [OF inv] work_queue.items_Get_none [OF assms(1) get [unfolded None]] by simp
  next
    case (Some obj)
    note items = work_queue.items_Get_Done [OF assms(1) get [unfolded Some]]
    have s': "s' = processItemInQueue Q env (s\<lparr>ct_queue := q\<rparr>) obj"
      using get assms(3) Some by (simp add: processNextWorkItem_def)
    show ?thesis
    proof (cases obj)
      case OtherObject
      then show ?thesis using s' items ctl_inv_shrinks [OF inv] by (simp add: processItemInQueue_def)
    next
      case (Queued item)
      obtain w r where h: "handlePods env (ct_world s) (wi_newPod item) = (w, r)" by fastforce
      have "obj \<in> pending_from since evs"
        using work_queue.items_Get [OF assms(1) get [unfolded Some]] assms(2) by (auto simp: ctl_inv_def)
      with Queued obtain oldPod where "update_item oldPod (wi_newPod item) \<in> pending_from since evs"
        by (auto simp: pending_from_def)
      then have "annotated_by since (evs @ [Worker env]) (p_UID pod)"
        if "shouldPodBeHandled env (wi_newPod item) = (True, pod)" "p_NodeName pod = se_nodeName env" for pod
        using that by (rule pending_annotates)
      then have ann: "\<forall>uid \<in> set (w_annotated w). annotated_by since (evs @ [Worker env]) uid"
        using handlePods_annotated [OF h] inv by (auto simp: ctl_inv_def)
      have "ordered (w_fs w)"
        using ordered_handlePods [of "ct_world s" env "wi_newPod item"] h assms(2) by (simp add: ctl_inv_def)
      moreover have "ct_world s' = w" "ct_queue s' = q_Done Q obj q"
        using s' Queued h by (simp_all add: processItemInQueue_def)
      ultimately show ?thesis using inv items ann by (auto simp: ctl_inv_def)
    qed
  qed
qed

lemma ctl_inv_tick:
  assumes "ctl_inv Q since evs s"
  shows "ctl_inv Q since evs (reconcile_tick env s)"
  using assms ordered_reconcileCpusets [of "w_fs (ct_world s)" env]
  by (cases "reconcileCpusets env (w_fs (ct_world s))") (simp add: reconcile_tick_def ctl_inv_def)

lemma ctl_inv_stop:
  assumes "work_queue Q" "ctl_inv Q since evs s"
  shows "ctl_inv Q since evs (Stop_handler Q r s)"
  using ctl_inv_shrinks [OF assms(2)] work_queue.items_ShutDown(1) [OF assms(1)] by (simp add: Stop_handler_def)

lemma ctl_inv_step:
  assumes "work_queue Q" "ctl_inv Q since evs s" "ctl_step Q since s e s'"
  shows "ctl_inv Q since (evs @ [e]) s'"
  using assms(3)
proof cases
  case (updated oldPod newPod)
  then show ?thesis using ctl_inv_PodChanged [OF assms(1,2)] by simp
next
  case (worker env go)
  then show ?thesis using ctl_inv_worker [OF assms(1,2)] by simp
next
  case (tick env)
  then show ?thesis using ctl_inv_tick [OF ctl_inv_snoc [OF assms(2)]] by simp
next
  case (watch err r)
  have "ctl_inv Q since (evs @ [e]) (Stop_handler Q r s)" by (rule ctl_inv_stop [OF assms(1) ctl_inv_snoc [OF assms(2)]])
  then have "ctl_inv Q since (evs @ [e]) ((Stop_handler Q r s)\<lparr>ct_exiting := True\<rparr>)" by (rule ctl_inv_world) simp_all
  then show ?thesis using watch ctl_inv_snoc [OF assms(2)] by (simp add: WatchErrorHandler_def)
next
  case (signalled r)
  have "ctl_inv Q since (evs @ [e]) (Stop_handler Q r s)" by (rule ctl_inv_stop [OF assms(1) ctl_inv_snoc [OF assms(2)]])
  then show ?thesis unfolding signalled by (rule ctl_inv_world) simp_all
next
  case exited
  show ?thesis using ctl_inv_snoc [OF assms(2)] unfolding exited by (rule ctl_inv_world) simp_all
qed

text \<open>C9: Over all runs of cpusetter, whatever the API server, the kubelet and the file system answer: a
  pod is annotated as configured only after an update of it that needed work, followed by a
  worker that read it again and found it on its own node; and the file system keeps every
  directory's names unique and in order.\<close>

theorem ctl_run_annotates:
  assumes "work_queue Q" "ctl_run Q since s0 evs s"
    and "q_items Q (ct_queue s0) = {}" "w_annotated (ct_world s0) = []" "ordered (w_fs (ct_world s0))"
  shows "ordered (w_fs (ct_world s)) \<and> (\<forall>uid \<in> set (w_annotated (ct_world s)). annotated_by since evs uid)"
proof -
  have "ctl_inv Q since evs s"
    using assms(2)
  proof induction
    case start
    then show ?case using assms(3-5) by (simp add: ctl_inv_def)
  next
    case (step evs s e s')
    then show ?case using ctl_inv_step [OF assms(1)] by blast
  qed
  then show ?thesis by (simp add: ctl_inv_def)
qed

section \<open>A queue that satisfies the laws\<close>

text \<open>First in, first out, with the items still pending handed out after a shutdown.\<close>

record fifo =
  f_items :: "queued list"
  f_shutdown :: bool

definition fifo_queue :: "fifo queue_api" where
  "fifo_queue = \<lparr>
     q_Add = (\<lambda>x q. if f_shutdown q then q else q\<lparr>f_items := f_items q @ [x]\<rparr>),
     q_Get = (\<lambda>q. case f_items q of x # xs \<Rightarrow> Some (Some x, q\<lparr>f_items := xs\<rparr>) | [] \<Rightarrow> if f_shutdown q then Some (None, q) else None),
     q_Done = (\<lambda>x q. q),
     q_ShutDown = (\<lambda>q. q\<lparr>f_shutdown := True\<rparr>),
     q_items = (\<lambda>q. set (f_items q)),
     q_shuttingDown = f_shutdown\<rparr>"

interpretation fifo: work_queue fifo_queue
  by unfold_locales (auto simp: fifo_queue_def split: list.splits if_splits)

definition demo_ctl :: "fifo ctl" where
  "demo_ctl = \<lparr>ct_world = \<lparr>w_fs = demo_fs, w_annotated = []\<rparr>, ct_queue = \<lparr>f_items = [], f_shutdown = False\<rparr>,
     ct_workers = 1, ct_reconciling = True, ct_exiting = False, ct_down = False\<rparr>"

theorem PodChanged_notices_restart_witness:
  "update_item (demo_status_pod [] [demo_container_status ''a'' 1 (demo_state None None)])
      (demo_status_pod [] [demo_container_status ''a'' 2 (demo_state None None)]) \<in>
    q_items fifo_queue (ct_queue (PodChanged fifo_queue Itoa demo_ctl
      (demo_status_pod [] [demo_container_status ''a'' 1 (demo_state None None)])
      (demo_status_pod [] [demo_container_status ''a'' 2 (demo_state None None)])))"
  (is "update_item ?o ?n \<in> _")
proof -
  have i: "initialized ?o" "initialized ?n" by (simp_all add: initialized_def demo_status_pod_def)
  have r: "live_reason ?o = PodRunning" "live_reason ?n = PodRunning" by code_simp+
  have d: "p_DeletionTimestamp ?o = None" "p_DeletionTimestamp ?n = None"
    "p_InitContainers ?n = p_InitContainers ?o" "p_InitContainerStatuses ?n = p_InitContainerStatuses ?o"
    "list_all2 (\<lambda>x y. st_RestartCount x \<le> st_RestartCount y) (p_ContainerStatuses ?o) (p_ContainerStatuses ?n)"
    "\<not> q_shuttingDown fifo_queue (ct_queue demo_ctl)"
    "\<exists>i < length (p_ContainerStatuses ?o). st_RestartCount (p_ContainerStatuses ?o ! i) < st_RestartCount (p_ContainerStatuses ?n ! i)"
    by (simp_all add: demo_status_pod_def demo_container_status_def fifo_queue_def demo_ctl_def)
  show ?thesis
    using PodChanged_notices_restart [OF fifo.work_queue_axioms i d(1,2) r d(3-6), of Itoa] d(7) by simp
qed

theorem ctl_run_annotates_witness:
  "\<exists>s. ctl_run fifo_queue Itoa demo_ctl
     [Updated ((demo_set_pod ''docker://abc'')\<lparr>p_Phase := ''Pending''\<rparr>) (demo_set_pod ''docker://abc''),
      Worker (demo_set_env (demo_set_pod ''docker://abc''))] s \<and>
   ordered (w_fs (ct_world s)) \<and>
   (\<forall>uid \<in> set (w_annotated (ct_world s)). annotated_by Itoa
     [Updated ((demo_set_pod ''docker://abc'')\<lparr>p_Phase := ''Pending''\<rparr>) (demo_set_pod ''docker://abc''),
      Worker (demo_set_env (demo_set_pod ''docker://abc''))] uid)"
  (is "\<exists>s. ctl_run _ _ _ [?u, ?w] s \<and> _")
proof -
  let ?pod = "demo_set_pod ''docker://abc''"
  let ?s1 = "PodChanged fifo_queue Itoa demo_ctl (?pod\<lparr>p_Phase := ''Pending''\<rparr>) ?pod"
  have first: "ctl_run fifo_queue Itoa demo_ctl [?u] ?s1"
    using ctl_run.step [OF ctl_run.start ctl_step.updated, of demo_ctl fifo_queue Itoa] by (simp add: demo_ctl_def)
  have up: "\<not> ct_down ?s1" "0 < ct_workers ?s1"
    by (simp_all add: PodChanged_queue demo_ctl_def)
  have "processNextWorkItem fifo_queue (demo_set_env ?pod) ?s1 \<noteq> None"
    by (simp add: PodChanged_queue needs_work_def demo_set_pod_def choice_pod_def processNextWorkItem_def fifo_queue_def demo_ctl_def)
  then obtain s go where p: "processNextWorkItem fifo_queue (demo_set_env ?pod) ?s1 = Some (s, go)" by auto
  have run: "ctl_run fifo_queue Itoa demo_ctl ([?u] @ [?w]) s"
    by (rule ctl_run.step [OF first ctl_step.worker [OF up p]])
  have "q_items fifo_queue (ct_queue demo_ctl) = {}" "w_annotated (ct_world demo_ctl) = []" "ordered (w_fs (ct_world demo_ctl))"
    by (simp_all add: fifo_queue_def demo_ctl_def demo_fs_def)
  from ctl_run_annotates [OF fifo.work_queue_axioms run this] run show ?thesis by auto
qed

section \<open>The command line of cpusetter\<close>

text \<open>The handler that \<^verbatim>\<open>New\<close> and the handler that the setter makes of a handler with the same CPU directory
  have the same configuration.\<close>

lemma SetSetHandler_New:
  assumes "New_handler buildConfig newClient kubeConf pc root cpuRoot queue env w = Some h" "se_cpuRoot (fst h') = cpuRoot"
    "fst h' = configure pc' root' cpuRoot env"
  shows "fst (SetSetHandler queue pc root h') = fst h"
  using assms by (auto simp: New_handler_def SetSetHandler_def configure_def split: option.splits if_splits)

text \<open>What \<^verbatim>\<open>main\<close> does with flags that were read.\<close>

lemma cpusetter_main_run:
  assumes "flag_Parse (program_flags cpusetter_flags foreign) args = Flags vs"
    "flag_value vs ''poolconfigs'' [] \<noteq> []" "flag_value vs ''cpusetroot'' [] \<noteq> []"
    "buildConfig (flag_value vs ''kubeconfig'' []) = Some cfg" "newClient cfg"
  shows "\<exists>s. cpusetter_main foreign (Ok pc) buildConfig newClient synced queue env w args =
      Some (configure pc (path_of (flag_value vs ''cpusetroot'' [])) (path_of (flag_value vs ''cpuroot'' [])) env, s) \<and>
    \<not> ct_down s \<and> ct_workers s = (if synced then NumberOfWorkers else 0) \<and> ct_reconciling s = synced \<and> ct_world s = w"
  using assms by (simp add: cpusetter_main_def New_handler_def Run_handler_def)

text \<open>Without one of the two checked flags the process ends, whatever else is given.\<close>

lemma cpusetter_main_mandatory:
  assumes "flag_Parse (program_flags cpusetter_flags foreign) args = Flags vs"
    "flag_value vs ''poolconfigs'' [] = [] \<or> flag_value vs ''cpusetroot'' [] = []"
  shows "cpusetter_main foreign poolConf buildConfig newClient synced queue env w args = None"
  using assms by (auto simp: cpusetter_main_def Let_def)

text \<open>The flag for the CPU directory is documented as mandatory and is not checked: without it the paths of the
  CPU files start with the namespace of the pod, relative to wherever the process runs.\<close>

theorem cpuroot_not_checked:
  assumes "poolconfigs \<noteq> []" "cpusetroot \<noteq> []" "buildConfig [] = Some cfg" "newClient cfg"
  shows "\<exists>s. cpusetter_main foreign (Ok pc) buildConfig newClient synced queue env w
      [''--poolconfigs'', poolconfigs, ''--cpusetroot'', cpusetroot] = Some (configure pc (path_of cpusetroot) [] env, s)"
proof -
  let ?fs = "[(TwoWords, ''poolconfigs'', poolconfigs), (TwoWords, ''cpusetroot'', cpusetroot)]"
  have "\<forall>(style, n, v) \<in> set ?fs. flag_ident n \<and> program_flags cpusetter_flags foreign n = Some StringVar"
    by (simp add: flag_ident_def program_flags_def cpusetter_flags_def)
  from parse_flags_rendered [OF this, of "[]" "[]"]
  have "flag_Parse (program_flags cpusetter_flags foreign) [''--poolconfigs'', poolconfigs, ''--cpusetroot'', cpusetroot] =
      Flags [(''cpusetroot'', cpusetroot), (''poolconfigs'', poolconfigs)]"
    by (simp add: flag_Parse_def)
  from cpusetter_main_run [OF this, of buildConfig cfg newClient pc synced queue env w] assms show ?thesis
    by (auto simp: flag_value_def path_of_def)
qed

section \<open>A cache that does not sync\<close>

text \<open>When the pod cache does not sync, the error is dropped: the process stays up without any worker and
  without reconciliation, waiting for a signal.\<close>

theorem unsynced_does_nothing:
  assumes "flag_Parse (program_flags cpusetter_flags foreign) args = Flags vs"
    "flag_value vs ''poolconfigs'' [] \<noteq> []" "flag_value vs ''cpusetroot'' [] \<noteq> []"
    "buildConfig (flag_value vs ''kubeconfig'' []) = Some cfg" "newClient cfg"
  shows "\<exists>env' s. cpusetter_main foreign (Ok pc) buildConfig newClient False queue env w args = Some (env', s) \<and> \<not> ct_down s \<and>
    \<not> ctl_step Q since s (Worker env'') s' \<and> \<not> ctl_step Q since s (Tick env'') s'"
proof -
  from cpusetter_main_run [where newClient = newClient and buildConfig = buildConfig, OF assms, of pc False queue env w] obtain s where
    "cpusetter_main foreign (Ok pc) buildConfig newClient False queue env w args =
      Some (configure pc (path_of (flag_value vs ''cpusetroot'' [])) (path_of (flag_value vs ''cpuroot'' [])) env, s)"
    "\<not> ct_down s" "ct_workers s = 0" "\<not> ct_reconciling s" by auto
  then show ?thesis by (auto elim: ctl_step_elims)
qed

end
