(* ===== verification/K8s_Client.thy ===== *)
theory K8s_Client
  imports Controller Json_Syntax
begin

text \<open>
  The client of the API server and of the kubelet, \<^verbatim>\<open>pkg/k8sclient/k8sclient.go\<close>. The client libraries are
  parameters: building configurations and client sets, the requests to the API server, the
  request to the kubelet and the decoding of its answers. The state is the node object that is
  looked up once and then kept.

  The lemmas show from where the configuration is taken, which kubelet is asked, that the patch
  of an annotation is well-formed JSON exactly for values that need no escaping, and that a failed
  first lookup of the node is never repeated, which makes the next reconciliation end cpusetter.
\<close>

section \<open>Configuration and client\<close>

datatype tls = TlsError | NoTls | TlsConfig

record rest_config =
  rc_BearerToken :: string
  rc_hasToken :: bool
  rc_transport_ok :: bool
  rc_tls :: tls

datatype built = Built rest_config | NotExist | BuildError

record node_object =
  n_Labels :: "(string \<times> string) list"
  n_Addresses :: "(string \<times> string) list"
  n_KubeletPort :: int

datatype kube_error = ConfigError | InClusterError | ClientError | RequestError | MarshalError | TransportError | TlsFailed
  | DecodeError

text \<open>Requests return the object and whether the error is nil; the client library returns an object in
  both cases.\<close>

record kube_env =
  ke_HomeDir :: string
  ke_BuildConfig :: "string \<Rightarrow> built"
  ke_InCluster :: "rest_config option"
  ke_NewForConfig :: "rest_config \<Rightarrow> bool"
  ke_NODE_NAME :: string
  ke_Hostname :: "string option"
  ke_get_node :: "string \<Rightarrow> node_object \<times> bool"
  ke_get_pod :: "string \<Rightarrow> string \<Rightarrow> pod \<times> bool"
  ke_list_pods :: "string \<Rightarrow> pod list \<times> bool"
  ke_patch_pod :: "string \<Rightarrow> string \<Rightarrow> string \<Rightarrow> bool"
  ke_patch_pv :: "string \<Rightarrow> string \<Rightarrow> bool"
  ke_watch_pod :: "pod \<Rightarrow> pod option list option"
  ke_kubelet_get :: "string \<Rightarrow> string option \<Rightarrow> string option"
  ke_decode_pods :: "string \<Rightarrow> pod list option"

definition createRestConfig :: "kube_env \<Rightarrow> (kube_error, rest_config) outcome" where
  "createRestConfig env =
     (let kubeConfigFilePath = (if ke_HomeDir env \<noteq> [] then ke_HomeDir env @ ''/.kube/config'' else [])
      in case ke_BuildConfig env kubeConfigFilePath of
           Built config \<Rightarrow> Ok config
         | NotExist \<Rightarrow> (case ke_InCluster env of None \<Rightarrow> Err InClusterError | Some config \<Rightarrow> Ok config)
         | BuildError \<Rightarrow> Err ConfigError)"

definition createClientSet :: "kube_env \<Rightarrow> (kube_error, unit) outcome" where
  "createClientSet env =
     and_then (createRestConfig env) (\<lambda>config. if ke_NewForConfig env config then Ok () else Err ClientError)"

definition ClientSet :: "kube_env \<Rightarrow> (kube_error, unit) outcome" where
  "ClientSet env = createClientSet env"

definition RestConfig :: "kube_env \<Rightarrow> (kube_error, rest_config) outcome" where
  "RestConfig env = createRestConfig env"

definition request :: "'a \<times> bool \<Rightarrow> (kube_error, 'a) outcome" where
  "request r = (if snd r then Ok (fst r) else Err RequestError)"

section \<open>Requests to the API server\<close>

text \<open>\<^verbatim>\<open>GetNodeLabels\<close>: no labels when the node is not named.\<close>

definition GetNodeLabels :: "kube_env \<Rightarrow> (kube_error, (string \<times> string) list) outcome" where
  "GetNodeLabels env =
     and_then (createClientSet env)
       (\<lambda>_. if ke_NODE_NAME env = [] then Ok []
            else and_then (request (ke_get_node env (ke_NODE_NAME env))) (\<lambda>nodes. Ok (n_Labels nodes)))"

text \<open>The document \<^verbatim>\<open>SetPodAnnotation\<close> sends, for keys and values that JSON writes without escapes: the value
  is put between quotes as it is, and marshalling it checks its syntax.\<close>

definition annotation_patch :: "string \<Rightarrow> string \<Rightarrow> string option" where
  \<open>annotation_patch key v =
     (if json_valid (quote # v @ [quote])
      then Some (''{'' @ [quote] @ ''metadata'' @ [quote] @ '':{'' @ [quote] @ ''annotations'' @ [quote] @ '':{'' @
        [quote] @ key @ [quote] @ '':'' @ [quote] @ v @ [quote] @ ''}}}'')
      else None)\<close>

definition SetPodAnnotation :: "kube_env \<Rightarrow> pod \<Rightarrow> string \<Rightarrow> string \<Rightarrow> (kube_error, unit) outcome" where
  "SetPodAnnotation env pod key v =
     and_then (createClientSet env)
       (\<lambda>_. case annotation_patch key v of
              None \<Rightarrow> Err MarshalError
            | Some jsonData \<Rightarrow>
                (if ke_patch_pod env (p_Namespace pod) (p_Name pod) jsonData then Ok () else Err RequestError))"

definition RefreshPod :: "kube_env \<Rightarrow> pod \<Rightarrow> (kube_error, pod) outcome" where
  "RefreshPod env pod =
     and_then (createClientSet env) (\<lambda>_. request (ke_get_pod env (p_Namespace pod) (p_Name pod)))"

definition GetPod :: "kube_env \<Rightarrow> string \<Rightarrow> string \<Rightarrow> (kube_error, pod) outcome" where
  "GetPod env namespace podName = and_then (createClientSet env) (\<lambda>_. request (ke_get_pod env namespace podName))"

text \<open>Volumes and claims are objects of any type here; \<open>get\<close> is the request for them.\<close>

definition GetPVC :: "(string \<Rightarrow> string \<Rightarrow> 'v \<times> bool) \<Rightarrow> kube_env \<Rightarrow> string \<Rightarrow> string \<Rightarrow> (kube_error, 'v) outcome" where
  "GetPVC get env namespace pvcName = and_then (createClientSet env) (\<lambda>_. request (get namespace pvcName))"

definition GetPV :: "(string \<Rightarrow> 'v \<times> bool) \<Rightarrow> kube_env \<Rightarrow> string \<Rightarrow> (kube_error, 'v) outcome" where
  "GetPV get env pvName = and_then (createClientSet env) (\<lambda>_. request (get pvName))"

definition PatchPVReclaimPolicy :: "kube_env \<Rightarrow> string \<Rightarrow> string \<Rightarrow> (kube_error, unit) outcome" where
  \<open>PatchPVReclaimPolicy env pvName policy =
     and_then (createClientSet env)
       (\<lambda>_. request ((), ke_patch_pv env pvName
          (''{'' @ [quote] @ ''spec'' @ [quote] @ '':{'' @ [quote] @ ''persistentVolumeReclaimPolicy'' @ [quote] @ '':'' @
           [quote] @ policy @ [quote] @ ''}}'')))\<close>

definition PatchPVClearClaimRef :: "kube_env \<Rightarrow> string \<Rightarrow> (kube_error, unit) outcome" where
  \<open>PatchPVClearClaimRef env pvName =
     and_then (createClientSet env)
       (\<lambda>_. request ((), ke_patch_pv env pvName
          (''{'' @ [quote] @ ''spec'' @ [quote] @ '':{'' @ [quote] @ ''claimRef'' @ [quote] @ '': null}}'')))\<close>

definition GetMyPods :: "kube_env \<Rightarrow> (kube_error, pod list) outcome" where
  "GetMyPods env = and_then (createClientSet env) (\<lambda>_. request (ke_list_pods env (''spec.nodeName='' @ ke_NODE_NAME env)))"

text \<open>\<^verbatim>\<open>GetRunningContainer\<close>: the events of the watch until it is closed, with the pod of each if it has one.
  When the watch ends first, neither a status nor an error is returned.\<close>

fun running_status :: "string \<Rightarrow> container_status list \<Rightarrow> container_status option" where
  "running_status containerName [] = None"
| "running_status containerName (c # cs) =
     (if st_Name c = containerName \<and> st_Ready c then Some c else running_status containerName cs)"

fun running_loop :: "string \<Rightarrow> pod option list \<Rightarrow> container_status option" where
  "running_loop containerName [] = None"
| "running_loop containerName (None # evs) = running_loop containerName evs"
| "running_loop containerName (Some pod # evs) =
     (case running_status containerName (p_ContainerStatuses pod) of
        Some c \<Rightarrow> Some c
      | None \<Rightarrow> running_loop containerName evs)"

definition GetRunningContainer :: "kube_env \<Rightarrow> pod \<Rightarrow> string \<Rightarrow> (kube_error, container_status option) outcome" where
  "GetRunningContainer env pod containerName =
     and_then (createClientSet env)
       (\<lambda>_. and_then (RefreshPod env pod)
          (\<lambda>pod'. case ke_watch_pod env pod' of
                    None \<Rightarrow> Err RequestError
                  | Some evs \<Rightarrow> Ok (running_loop containerName evs)))"

section \<open>The kubelet\<close>

record node_cache =
  nc_done :: bool
  nc_node :: "node_object option"

text \<open>The body of \<^verbatim>\<open>once.Do\<close> in \<^verbatim>\<open>GetThisNode\<close>.\<close>

definition find_node :: "kube_env \<Rightarrow> node_object option" where
  "find_node env =
     (case (if ke_NODE_NAME env = [] then ke_Hostname env else Some (ke_NODE_NAME env)) of
        None \<Rightarrow> None
      | Some nodeName \<Rightarrow>
          (case createClientSet env of
             Ok _ \<Rightarrow> Some (fst (ke_get_node env nodeName))
           | _ \<Rightarrow> None))"

definition GetThisNode :: "kube_env \<Rightarrow> node_cache \<Rightarrow> node_cache \<times> node_object option" where
  "GetThisNode env nc =
     (let nc' = (if nc_done nc then nc else \<lparr>nc_done = True, nc_node = find_node env\<rparr>)
      in (nc', nc_node nc'))"

fun internal_ip :: "string \<Rightarrow> (string \<times> string) list \<Rightarrow> string" where
  "internal_ip ipAddress [] = ipAddress"
| "internal_ip ipAddress ((ty, addr) # infos) = internal_ip (if ty = ''InternalIP'' then addr else ipAddress) infos"

definition kubelet_get ::
  "kube_env \<Rightarrow> node_cache \<Rightarrow> string \<Rightarrow> node_cache \<times> (kube_error, string) outcome" where
  "kubelet_get env nc resource =
     (case createRestConfig env of
        Panic p \<Rightarrow> (nc, Panic p)
      | Err e \<Rightarrow> (nc, Err e)
      | Ok config \<Rightarrow>
          (case GetThisNode env nc of
             (nc', None) \<Rightarrow> (nc', Panic NilDereference)
           | (nc', Some node) \<Rightarrow>
               (nc',
                if \<not> rc_transport_ok config then Err TransportError
                else
                  (case rc_tls config of
                     TlsError \<Rightarrow> Err TlsFailed
                   | NoTls \<Rightarrow> Panic NilDereference
                   | TlsConfig \<Rightarrow>
                       (let uri = ''https://'' @ internal_ip [] (n_Addresses node) @ '':'' @ Itoa (n_KubeletPort node) @ resource;
                            auth = (if rc_hasToken config then Some (''Bearer '' @ rc_BearerToken config) else None)
                        in case ke_kubelet_get env uri auth of None \<Rightarrow> Err RequestError | Some body \<Rightarrow> Ok body)))))"

definition GetPodsFromKubelet ::
  "kube_env \<Rightarrow> node_cache \<Rightarrow> node_cache \<times> (kube_error, pod list) outcome" where
  "GetPodsFromKubelet env nc =
     (case kubelet_get env nc ''/pods'' of
        (nc', r) \<Rightarrow> (nc', and_then r (\<lambda>body. case ke_decode_pods env body of None \<Rightarrow> Err DecodeError | Some pods \<Rightarrow> Ok pods)))"

text \<open>\<^verbatim>\<open>GetMetricsFromKubelet\<close>: \<open>parse\<close> is the parser of the metrics format.\<close>

definition GetMetricsFromKubelet ::
  "(string \<Rightarrow> 'm option) \<Rightarrow> kube_env \<Rightarrow> node_cache \<Rightarrow> bool \<Rightarrow> node_cache \<times> (kube_error, 'm) outcome" where
  "GetMetricsFromKubelet parse env nc cadvisor =
     (case kubelet_get env nc (if cadvisor then ''/metrics/cadvisor'' else ''/metrics'') of
        (nc', r) \<Rightarrow> (nc', and_then r (\<lambda>body. case parse body of None \<Rightarrow> Err DecodeError | Some m \<Rightarrow> Ok m)))"

section \<open>The client behind cpusetter\<close>

text \<open>What cpusetter sees of the API server and the kubelet through this client.\<close>

definition client_env :: "kube_env \<Rightarrow> node_cache \<Rightarrow> pod \<Rightarrow> 's set_env \<Rightarrow> 's set_env" where
  "client_env kenv nc pod env =
     env\<lparr>se_refresh := (\<lambda>i. case RefreshPod kenv pod of Ok newPod \<Rightarrow> Some newPod | _ \<Rightarrow> None),
         se_annotate_ok := (\<lambda>p. is_Ok (SetPodAnnotation kenv p (setResourceBaseName @ ''/cpusets-configured'') ''true'')),
         se_nodeName := ke_NODE_NAME kenv,
         se_kubelet_pods := (case snd (GetPodsFromKubelet kenv nc) of
            Ok pods \<Rightarrow> Ok (Some pods) | Err e \<Rightarrow> Err () | Panic p \<Rightarrow> Panic p)\<rparr>"

section \<open>Which kubelet is asked\<close>

lemma createClientSet_cases: "createClientSet env = Ok () \<or> (\<exists>e. createClientSet env = Err e)"
  by (auto simp: createClientSet_def createRestConfig_def Let_def split: built.splits option.splits)

lemma internal_ip_last:
  assumes "\<forall>(ty, a) \<in> set post. ty \<noteq> ''InternalIP''"
  shows "internal_ip ip (pre @ (''InternalIP'', addr) # post) = addr"
proof -
  have skip: "internal_ip a post = a" for a using assms by (induction post arbitrary: a) auto
  show ?thesis by (induction ip pre rule: internal_ip.induct) (auto simp: skip)
qed

lemma GetThisNode_kept: "nc_done nc \<Longrightarrow> GetThisNode env nc = (nc, nc_node nc)"
  by (simp add: GetThisNode_def)

lemma GetThisNode_once:
  "GetThisNode env' (fst (GetThisNode env nc)) = GetThisNode env nc"
  by (simp add: GetThisNode_def Let_def)

text \<open>The pods of the node are asked from the last internal address of the node object that was
  looked up first, with the bearer token when there is one, and are what the answer decodes to.\<close>

theorem GetPodsFromKubelet_correct:
  assumes "createRestConfig env = Ok config" "rc_transport_ok config" "rc_tls config = TlsConfig"
    and "snd (GetThisNode env nc) = Some node"
    and "n_Addresses node = pre @ (''InternalIP'', addr) # post" "\<forall>(ty, a) \<in> set post. ty \<noteq> ''InternalIP''"
    and "ke_kubelet_get env (''https://'' @ addr @ '':'' @ Itoa (n_KubeletPort node) @ ''/pods'')
      (if rc_hasToken config then Some (''Bearer '' @ rc_BearerToken config) else None) = answer"
  shows "snd (GetPodsFromKubelet env nc) =
    (case answer of
       None \<Rightarrow> Err RequestError
     | Some body \<Rightarrow> (case ke_decode_pods env body of None \<Rightarrow> Err DecodeError | Some pods \<Rightarrow> Ok pods)) \<and>
    GetThisNode env' (fst (GetPodsFromKubelet env nc)) = GetThisNode env nc"
proof -
  obtain nc' where n: "GetThisNode env nc = (nc', Some node)" using assms(4) by (cases "GetThisNode env nc") simp
  have ip: "internal_ip [] (n_Addresses node) = addr" using internal_ip_last [OF assms(6)] assms(5) by simp
  have "kubelet_get env nc ''/pods'' = (nc', case answer of None \<Rightarrow> Err RequestError | Some body \<Rightarrow> Ok body)"
    using assms(1-3,7) by (simp add: kubelet_get_def n ip)
  then have "GetPodsFromKubelet env nc = (nc', case answer of
       None \<Rightarrow> Err RequestError
     | Some body \<Rightarrow> (case ke_decode_pods env body of None \<Rightarrow> Err DecodeError | Some pods \<Rightarrow> Ok pods))"
    by (simp add: GetPodsFromKubelet_def split: option.split)
  then show ?thesis using GetThisNode_once [of env' env nc] n by simp
qed

text \<open>C40: The node is looked up once only: when the first lookup finds no node, because the host name is
  unknown or no client can be made, every later request to the kubelet dereferences a nil node,
  even when the API server is back, and the next reconciliation ends cpusetter.\<close>

theorem failed_node_lookup_is_final:
  assumes "\<not> nc_done nc" "find_node env0 = None" "createRestConfig env = Ok config"
  shows "snd (GetPodsFromKubelet env (fst (GetThisNode env0 nc))) = Panic NilDereference \<and>
    ct_down (reconcile_tick (client_env env (fst (GetThisNode env0 nc)) pod senv) s)"
proof -
  have "GetThisNode env (fst (GetThisNode env0 nc)) = (\<lparr>nc_done = True, nc_node = None\<rparr>, None)"
    using assms(1,2) by (simp add: GetThisNode_def)
  then have panic: "snd (GetPodsFromKubelet env (fst (GetThisNode env0 nc))) = Panic NilDereference"
    using assms(3) by (simp add: GetPodsFromKubelet_def kubelet_get_def)
  then have "se_kubelet_pods (client_env env (fst (GetThisNode env0 nc)) pod senv) = Panic NilDereference"
    by (simp add: client_env_def)
  then show ?thesis using panic by (simp add: reconcile_tick_def reconcileCpusets_def)
qed

section \<open>The annotation patch\<close>

lemma annotation_patch_valid:
  assumes "plain key" "plain v"
  shows "\<exists>d. annotation_patch key v = Some d \<and> json_valid d"
proof -
  have raw: "json_valid (quote # v @ [quote])"
    using assms(2) by (intro json_validI [of 1 _ "[]"]) (simp_all add: json_string_plain is_ws_def)
  have "json_value 8 (''{'' @ [quote] @ ''metadata'' @ [quote] @ '':{'' @ [quote] @ ''annotations'' @ [quote] @ '':{'' @
      [quote] @ key @ [quote] @ '':'' @ [quote] @ v @ [quote] @ ''}}}'') = Some []"
    using assms by (simp add: eval_nat_numeral json_string_plain is_ws_def)
  then have "json_valid (''{'' @ [quote] @ ''metadata'' @ [quote] @ '':{'' @ [quote] @ ''annotations'' @ [quote] @ '':{'' @
      [quote] @ key @ [quote] @ '':'' @ [quote] @ v @ [quote] @ ''}}}'')"
    by (rule json_validI) simp_all
  with raw show ?thesis by (simp add: annotation_patch_def)
qed

text \<open>The annotation cpusetter sets is always sent.\<close>

lemma cpusetter_annotation:
  "is_Ok (createClientSet env) \<Longrightarrow>
     \<exists>d. json_valid d \<and> SetPodAnnotation env pod (setResourceBaseName @ ''/cpusets-configured'') ''true'' =
       (if ke_patch_pod env (p_Namespace pod) (p_Name pod) d then Ok () else Err RequestError)"
proof -
  assume "is_Ok (createClientSet env)"
  moreover have "plain (setResourceBaseName @ ''/cpusets-configured'')" "plain ''true''" by code_simp+
  then obtain d where "annotation_patch (setResourceBaseName @ ''/cpusets-configured'') ''true'' = Some d" "json_valid d"
    using annotation_patch_valid by blast
  ultimately show ?thesis by (auto simp: SetPodAnnotation_def is_Ok_iff)
qed

section \<open>Examples\<close>

definition demo_config :: rest_config where
  "demo_config = \<lparr>rc_BearerToken = ''t'', rc_hasToken = True, rc_transport_ok = True, rc_tls = TlsConfig\<rparr>"

definition demo_node :: node_object where
  "demo_node = \<lparr>n_Labels = [], n_Addresses = [(''Hostname'', ''n1''), (''InternalIP'', ''10.0.0.7'')], n_KubeletPort = 10250\<rparr>"

definition demo_kube :: "string option \<Rightarrow> kube_env" where
  "demo_kube host = \<lparr>ke_HomeDir = ''/root'', ke_BuildConfig = (\<lambda>p. NotExist), ke_InCluster = Some demo_config,
     ke_NewForConfig = (\<lambda>c. True), ke_NODE_NAME = [], ke_Hostname = host, ke_get_node = (\<lambda>n. (demo_node, True)),
     ke_get_pod = (\<lambda>ns n. (choice_pod [], True)), ke_list_pods = (\<lambda>sel. ([], True)), ke_patch_pod = (\<lambda>ns n d. True),
     ke_patch_pv = (\<lambda>n d. True), ke_watch_pod = (\<lambda>p. None),
     ke_kubelet_get = (\<lambda>uri auth. if uri = ''https://10.0.0.7:10250/pods'' \<and> auth = Some ''Bearer t'' then Some ''x'' else None),
     ke_decode_pods = (\<lambda>body. Some [choice_pod []])\<rparr>"

definition fresh_cache :: node_cache where "fresh_cache = \<lparr>nc_done = False, nc_node = None\<rparr>"

theorem GetPodsFromKubelet_correct_witness:
  "snd (GetPodsFromKubelet (demo_kube (Some ''n1'')) fresh_cache) = Ok [choice_pod []]"
proof -
  let ?e = "demo_kube (Some ''n1'')"
  have c: "createRestConfig ?e = Ok demo_config" "rc_transport_ok demo_config" "rc_tls demo_config = TlsConfig"
    by (simp_all add: demo_kube_def demo_config_def createRestConfig_def)
  have n: "snd (GetThisNode ?e fresh_cache) = Some demo_node"
    by (simp add: GetThisNode_def find_node_def createClientSet_def createRestConfig_def fresh_cache_def demo_kube_def)
  have a: "n_Addresses demo_node = [(''Hostname'', ''n1'')] @ (''InternalIP'', ''10.0.0.7'') # []"
    "\<forall>(ty, a) \<in> set []. ty \<noteq> ''InternalIP''"
    by (simp_all add: demo_node_def)
  have "Itoa 10250 = ''10250''" by (simp add: Itoa_def nat_dec.simps digit_char_def char_of_def bit_simps)
  then have "ke_kubelet_get ?e (''https://'' @ ''10.0.0.7'' @ '':'' @ Itoa (n_KubeletPort demo_node) @ ''/pods'')
      (if rc_hasToken demo_config then Some (''Bearer '' @ rc_BearerToken demo_config) else None) = Some ''x''"
    by (simp add: demo_kube_def demo_config_def demo_node_def)
  from GetPodsFromKubelet_correct [OF c n a this, of ?e] show ?thesis by (simp add: demo_kube_def)
qed

theorem failed_node_lookup_is_final_witness:
  "snd (GetPodsFromKubelet (demo_kube (Some ''n1'')) (fst (GetThisNode (demo_kube None) fresh_cache))) = Panic NilDereference \<and>
   ct_down (reconcile_tick (client_env (demo_kube (Some ''n1'')) (fst (GetThisNode (demo_kube None) fresh_cache))
     (choice_pod []) (demo_set_env (choice_pod []))) demo_ctl)"
proof -
  have "\<not> nc_done fresh_cache" "find_node (demo_kube None) = None" "createRestConfig (demo_kube (Some ''n1'')) = Ok demo_config"
    by (simp_all add: fresh_cache_def find_node_def demo_kube_def createRestConfig_def)
  from failed_node_lookup_is_final [OF this] show ?thesis .
qed


section \<open>Watching a pod\<close>

text \<open>\<^verbatim>\<open>CreatePodWatcher\<close> of \<^verbatim>\<open>pkg/k8sclient/pod.go\<close>. The watch of the client library is a parameter: for a namespace
  and a field selector it gives what is received from the watch and from the context, or fails.
  \<open>selector\<close> is \<^verbatim>\<open>fields.OneTermEqualSelector\<close>, which escapes the value.\<close>

definition CreatePodWatcher ::
  "(string \<Rightarrow> string \<Rightarrow> string) \<Rightarrow> (string \<Rightarrow> string \<Rightarrow> received list option) \<Rightarrow> kube_env \<Rightarrow> string \<Rightarrow> string
    \<Rightarrow> (kube_error, received list) outcome" where
  "CreatePodWatcher selector open_watch env namespace resName =
     and_then (createClientSet env)
       (\<lambda>_. case open_watch namespace (selector ''metadata.name'' resName) of
              None \<Rightarrow> Err RequestError
            | Some rs \<Rightarrow> Ok rs)"

text \<open>The wait for a pod as the callers see it, from the client to the returned pod.\<close>

definition wait_for_pod ::
  "(string \<Rightarrow> string \<Rightarrow> string) \<Rightarrow> (string \<Rightarrow> string \<Rightarrow> received list option) \<Rightarrow> kube_env \<Rightarrow> string \<Rightarrow> string
    \<Rightarrow> (string \<times> string) list \<Rightarrow> (wait_error, pod) outcome option" where
  "wait_for_pod selector open_watch env namespace podName annotations =
     (case CreatePodWatcher selector open_watch env namespace podName of
        Ok rs \<Rightarrow> WaitPod True annotations rs
      | _ \<Rightarrow> WaitPod False annotations [])"

lemma CreatePodWatcher_Ok_iff:
  "CreatePodWatcher selector open_watch env namespace resName = Ok rs \<longleftrightarrow>
     is_Ok (createClientSet env) \<and> open_watch namespace (selector ''metadata.name'' resName) = Some rs"
  by (auto simp: CreatePodWatcher_def and_then_Ok_iff is_Ok_iff split: option.splits)

text \<open>Without a client or a watch the wait fails at once; else its result is that of the loop over the events.\<close>

lemma wait_for_pod_eq:
  "wait_for_pod selector open_watch env namespace podName annotations =
     (if is_Ok (createClientSet env) then
        (case open_watch namespace (selector ''metadata.name'' podName) of
           None \<Rightarrow> Some (Err NoWatcher)
         | Some rs \<Rightarrow> WaitPod_loop annotations rs)
      else Some (Err NoWatcher))"
  by (cases "createClientSet env") (auto simp: wait_for_pod_def CreatePodWatcher_def WaitPod_def split: option.splits)

end
