(* ===== verification/Archive.thy ===== *)
theory Archive
  imports File_System
begin

text \<open>
  Packing and unpacking of archives, \<^verbatim>\<open>pkg/utils/compress.go\<close>, on the file system tree. An archive is the
  sequence of its entries; the byte format of \<^verbatim>\<open>archive/tar\<close> and \<^verbatim>\<open>compress/gzip\<close> is a parameter.
  \<open>bad\<close> tells what cannot be opened for reading, \<open>wr_ok\<close> what can be created. Modes of files are
  left out. While a directory is read none of its entries disappears.

  The lemmas show that unpacking what was packed gives the packed tree, that a directory which
  cannot be read is left out of the archive without an error, and that an entry whose name goes up
  is unpacked outside the destination.
\<close>

section \<open>Paths\<close>

text \<open>\<^verbatim>\<open>path.Clean\<close> of an absolute path.\<close>

fun clean_loop :: "path \<Rightarrow> path \<Rightarrow> path" where
  "clean_loop acc [] = rev acc"
| "clean_loop acc (c # p) =
     (if c = [] \<or> c = ''.'' then clean_loop acc p
      else if c = ''..'' then clean_loop (tl acc) p
      else clean_loop (c # acc) p)"

definition Clean :: "path \<Rightarrow> path" where
  "Clean p = clean_loop [] p"

definition plain_component :: "string \<Rightarrow> bool" where
  "plain_component c \<longleftrightarrow> c \<noteq> [] \<and> c \<noteq> ''.'' \<and> c \<noteq> ''..''"

lemma clean_loop_plain: "\<forall>c \<in> set p. plain_component c \<Longrightarrow> clean_loop acc p = rev acc @ p"
  by (induction acc p rule: clean_loop.induct) (auto simp: plain_component_def)

lemma Clean_plain: "\<forall>c \<in> set p. plain_component c \<Longrightarrow> Clean p = p"
  by (simp add: Clean_def clean_loop_plain)

section \<open>Packing\<close>

datatype tar_entry = DirEntry path | FileEntry path string

text \<open>The writer: the entries whose header was written, and whether data of the last one is missing,
  in which case no further header is accepted and closing fails.\<close>

record tar_writer =
  tw_entries :: "tar_entry list"
  tw_missing :: bool

definition WriteHeader :: "tar_entry \<Rightarrow> tar_writer \<Rightarrow> tar_writer option" where
  "WriteHeader e w = (if tw_missing w then None else Some (w\<lparr>tw_entries := tw_entries w @ [e]\<rparr>))"

datatype tar_error = StatError path | CreateError path | ReadDirError path | HeaderError path | OpenError path
  | CloseError | GzipError | ReadError

definition tarFile :: "(path \<Rightarrow> bool) \<Rightarrow> path \<Rightarrow> path \<Rightarrow> string \<Rightarrow> tar_writer \<Rightarrow> tar_writer \<times> tar_error option" where
  "tarFile bad srcBase srcRelative c w =
     (case WriteHeader (FileEntry srcRelative c) w of
        None \<Rightarrow> (w, Some (HeaderError (srcBase @ srcRelative)))
      | Some w1 \<Rightarrow>
          (if bad (srcBase @ srcRelative) then (w1\<lparr>tw_missing := (c \<noteq> [])\<rparr>, Some (OpenError (srcBase @ srcRelative)))
           else (w1, None)))"

text \<open>\<^verbatim>\<open>tarDir\<close>: the results of the calls for the entries are dropped.\<close>

fun tarDir :: "(path \<Rightarrow> bool) \<Rightarrow> path \<Rightarrow> path \<Rightarrow> (string \<times> node) list \<Rightarrow> tar_writer \<Rightarrow> tar_writer \<times> tar_error option"
  and tar_entries :: "(path \<Rightarrow> bool) \<Rightarrow> path \<Rightarrow> path \<Rightarrow> (string \<times> node) list \<Rightarrow> tar_writer \<Rightarrow> tar_writer"
  and tar_node :: "(path \<Rightarrow> bool) \<Rightarrow> path \<Rightarrow> path \<Rightarrow> node \<Rightarrow> tar_writer \<Rightarrow> tar_writer" where
  "tarDir bad srcBase srcRelative es w =
     (if bad (srcBase @ srcRelative) then (w, Some (ReadDirError (srcBase @ srcRelative)))
      else
        (let w1 = tar_entries bad srcBase srcRelative es w
         in if srcRelative \<noteq> [] then
              (case WriteHeader (DirEntry srcRelative) w1 of
                 None \<Rightarrow> (w1, Some (HeaderError (srcBase @ srcRelative)))
               | Some w2 \<Rightarrow> (w2, None))
            else (w1, None)))"
| "tar_entries bad srcBase srcRelative [] w = w"
| "tar_entries bad srcBase srcRelative ((n, t) # es) w =
     tar_entries bad srcBase srcRelative es (tar_node bad srcBase (srcRelative @ [n]) t w)"
| "tar_node bad srcBase filename (Dir es) w = fst (tarDir bad srcBase filename es w)"
| "tar_node bad srcBase filename (File c) w = fst (tarFile bad srcBase filename c w)"

text \<open>\<^verbatim>\<open>TarGZ\<close>: the destination is created before the source is read. \<open>gz\<close> gives the bytes of the
  destination for what was written.\<close>

definition TarGZ ::
  "(tar_writer \<Rightarrow> string) \<Rightarrow> (path \<Rightarrow> bool) \<Rightarrow> node \<Rightarrow> path \<Rightarrow> path \<Rightarrow> node \<times> tar_error option" where
  "TarGZ gz bad fs dst src0 =
     (let src = Clean src0
      in case lookup fs src of
           None \<Rightarrow> (fs, Some (StatError src))
         | Some t0 \<Rightarrow>
             (case write_file fs dst [] of
                None \<Rightarrow> (fs, Some (CreateError dst))
              | Some fs1 \<Rightarrow>
                  (let w0 = \<lparr>tw_entries = [], tw_missing = False\<rparr>;
                       srcBase = butlast src;
                       srcRelative = drop (length src - 1) src;
                       (w, err) = (case lookup fs1 src of
                          Some (Dir es) \<Rightarrow> tarDir bad srcBase srcRelative es w0
                        | Some (File c) \<Rightarrow> tarFile bad srcBase srcRelative c w0
                        | None \<Rightarrow> (w0, Some (StatError src)));
                       fs2 = (case write_file fs1 dst (gz w) of None \<Rightarrow> fs1 | Some f \<Rightarrow> f)
                   in (fs2, if tw_missing w then Some CloseError else err))))"

section \<open>Unpacking\<close>

definition unTarFile :: "(path \<Rightarrow> bool) \<Rightarrow> node \<Rightarrow> path \<Rightarrow> string \<Rightarrow> node option" where
  "unTarFile wr_ok fs dstFile c = (if wr_ok dstFile then write_file fs dstFile c else None)"

text \<open>Errors of creating directories are dropped.\<close>

definition MkdirAll :: "(path \<Rightarrow> bool) \<Rightarrow> node \<Rightarrow> path \<Rightarrow> node" where
  "MkdirAll wr_ok fs p = (if wr_ok p then (case mkdir_all fs p of None \<Rightarrow> fs | Some f \<Rightarrow> f) else fs)"

text \<open>The loop over the entries; \<open>complete\<close> is false when the archive ends with a read error.\<close>

fun untar_loop :: "(path \<Rightarrow> bool) \<Rightarrow> path \<Rightarrow> bool \<Rightarrow> tar_entry list \<Rightarrow> node \<Rightarrow> node \<times> tar_error option" where
  "untar_loop wr_ok dstDir complete [] fs = (fs, if complete then None else Some ReadError)"
| "untar_loop wr_ok dstDir complete (DirEntry name # es) fs =
     untar_loop wr_ok dstDir complete es (MkdirAll wr_ok fs (Clean (dstDir @ name)))"
| "untar_loop wr_ok dstDir complete (FileEntry name c # es) fs =
     (let dstFullPath = Clean (dstDir @ name);
          fs1 = MkdirAll wr_ok fs (butlast dstFullPath)
      in case unTarFile wr_ok fs1 dstFullPath c of
           None \<Rightarrow> (fs1, Some (CreateError dstFullPath))
         | Some fs2 \<Rightarrow> untar_loop wr_ok dstDir complete es fs2)"

text \<open>\<^verbatim>\<open>UnTarGZ\<close>: \<open>ungz\<close> gives the entries that can be read from the bytes and whether the archive is
  complete, or nothing when they are no compressed data.\<close>

definition UnTarGZ ::
  "(string \<Rightarrow> (tar_entry list \<times> bool) option) \<Rightarrow> (path \<Rightarrow> bool) \<Rightarrow> node \<Rightarrow> path \<Rightarrow> string \<Rightarrow> node \<times> tar_error option" where
  "UnTarGZ ungz wr_ok fs dstDir data =
     (case ungz data of
        None \<Rightarrow> (fs, Some GzipError)
      | Some (es, complete) \<Rightarrow> untar_loop wr_ok (Clean dstDir) complete es fs)"

section \<open>Placing a tree\<close>

text \<open>The tree with \<open>u\<close> at a path whose missing directories are created.\<close>

fun put_tree :: "node \<Rightarrow> path \<Rightarrow> node \<Rightarrow> node" where
  "put_tree t [] u = u"
| "put_tree (File c) (n # p) u = File c"
| "put_tree (Dir es) (n # p) u =
     Dir (put_entry n (put_tree (case map_of es n of None \<Rightarrow> Dir [] | Some t \<Rightarrow> t) p u) es)"

text \<open>All existing components of the path are directories.\<close>

fun open_path :: "node \<Rightarrow> path \<Rightarrow> bool" where
  "open_path t [] = is_dir t"
| "open_path (File c) (n # p) = False"
| "open_path (Dir es) (n # p) = (case map_of es n of None \<Rightarrow> True | Some t \<Rightarrow> open_path t p)"

lemma put_entry_twice: "put_entry n u (put_entry n t es) = put_entry n u es"
  by (induction n t es rule: put_entry.induct) auto

lemma put_entry_last: "\<forall>e \<in> set es. fst e < n \<Longrightarrow> put_entry n u es = es @ [(n, u)]"
  by (induction n u es rule: put_entry.induct) auto

lemma put_tree_append: "open_path fs p \<Longrightarrow> put_tree (put_tree fs p t) (p @ q) u = put_tree fs p (put_tree t q u)"
proof (induction fs p t rule: put_tree.induct)
  case (3 es n p t)
  then have "open_path (case map_of es n of None \<Rightarrow> Dir [] | Some t \<Rightarrow> t) p" by (cases p) (auto split: option.splits)
  with 3 show ?case by (simp add: put_entry_twice)
qed simp_all

lemma put_tree_same: "open_path fs p \<Longrightarrow> put_tree (put_tree fs p t) p u = put_tree fs p u"
  using put_tree_append [of fs p t "[]" u] by simp

lemma put_tree_missing:
  "open_path fs p \<Longrightarrow> lookup fs p = None \<Longrightarrow> put_tree fs (p @ [n]) u = put_tree fs p (Dir [(n, u)])"
proof (induction fs p "Dir [(n, u)]" rule: put_tree.induct)
  case (3 es m p)
  show ?case
  proof (cases "map_of es m")
    case None
    have "put_tree (Dir []) (p @ [n]) u = put_tree (Dir []) p (Dir [(n, u)])" by (induction p) simp_all
    with None show ?thesis by simp
  next
    case (Some t)
    with 3 show ?thesis by simp
  qed
qed simp_all

lemma lookup_put_tree: "open_path fs p \<Longrightarrow> lookup (put_tree fs p u) p = Some u"
proof (induction fs p u rule: put_tree.induct)
  case (3 es n p u)
  then have "open_path (case map_of es n of None \<Rightarrow> Dir [] | Some t \<Rightarrow> t) p" by (cases p) (auto split: option.splits)
  with 3 show ?case by simp
qed simp_all

lemma open_put_tree: "open_path fs p \<Longrightarrow> open_path (put_tree fs p u) (p @ q) = open_path u q"
proof (induction fs p u rule: put_tree.induct)
  case (3 es n p u)
  then have "open_path (case map_of es n of None \<Rightarrow> Dir [] | Some t \<Rightarrow> t) p" by (cases p) (auto split: option.splits)
  with 3 show ?case by simp
qed simp_all

lemma open_missing: "open_path fs p \<Longrightarrow> lookup fs p = None \<Longrightarrow> open_path fs (p @ q)"
  by (induction fs p rule: open_path.induct) (auto split: option.splits)

lemma mkdir_all_put_tree:
  "open_path fs p \<Longrightarrow> mkdir_all fs p = Some (put_tree fs p (case lookup fs p of None \<Rightarrow> Dir [] | Some d \<Rightarrow> d))"
proof (induction fs p rule: mkdir_all.induct)
  case (2 c p)
  then show ?case by (cases p) simp_all
next
  case (3 es n p)
  show ?case
  proof (cases "map_of es n")
    case None
    have "mkdir_all (Dir []) p = Some (put_tree (Dir []) p (Dir []))" by (induction p) simp_all
    with None show ?thesis by simp
  next
    case (Some t)
    with 3 show ?thesis by simp
  qed
qed simp

lemma write_file_put_tree:
  "lookup fs p = Some (Dir es) \<Longrightarrow> map_of es n = None \<Longrightarrow> write_file fs (p @ [n]) c = Some (put_tree fs (p @ [n]) (File c))"
  by (induction fs p rule: lookup.induct) (auto simp: bind_eq_Some_conv)

section \<open>Unpacking what was packed\<close>

text \<open>The entries of a tree, those of a directory before the directory itself.\<close>

fun entries_of :: "path \<Rightarrow> node \<Rightarrow> tar_entry list" where
  "entries_of rel (File c) = [FileEntry rel c]"
| "entries_of rel (Dir es) = concat (map (\<lambda>e. entries_of (rel @ [fst e]) (snd e)) es) @ [DirEntry rel]"

lemma tar_entries_of:
  "\<forall>p. \<not> bad p \<Longrightarrow> \<not> tw_missing w \<Longrightarrow> rel \<noteq> [] \<Longrightarrow>
     tarDir bad base rel es w = (w\<lparr>tw_entries := tw_entries w @ entries_of rel (Dir es)\<rparr>, None)"
  "\<forall>p. \<not> bad p \<Longrightarrow> \<not> tw_missing w \<Longrightarrow>
     tar_entries bad base rel es w =
       w\<lparr>tw_entries := tw_entries w @ concat (map (\<lambda>e. entries_of (rel @ [fst e]) (snd e)) es)\<rparr>"
  "\<forall>p. \<not> bad p \<Longrightarrow> \<not> tw_missing w \<Longrightarrow> rel \<noteq> [] \<Longrightarrow>
     tar_node bad base rel t w = w\<lparr>tw_entries := tw_entries w @ entries_of rel t\<rparr>"
  by (induction bad base rel es w and bad base rel es w and bad base rel t w rule: tarDir_tar_entries_tar_node.induct)
    (simp_all add: WriteHeader_def tarFile_def Let_def)

lemma untar_append:
  "untar_loop ok d True es fs = (fs', None) \<Longrightarrow> untar_loop ok d c (es @ es2) fs = untar_loop ok d c es2 fs'"
proof (induction ok d True es fs rule: untar_loop.induct)
  case (3 wr_ok dstDir name c es fs)
  then show ?case by (simp add: Let_def split: option.splits)
qed simp_all

lemma put_tree_split:
  "open_path fs p \<Longrightarrow>
     put_tree fs (p @ q) u = put_tree fs p (put_tree (case lookup fs p of None \<Rightarrow> Dir [] | Some d \<Rightarrow> d) q u)"
proof (induction fs p rule: open_path.induct)
  case (3 es m p)
  show ?case
  proof (cases "map_of es m")
    case None
    have "put_tree (Dir []) (p @ q) u = put_tree (Dir []) p (put_tree (Dir []) q u)" by (induction p) simp_all
    with None show ?thesis by simp
  next
    case (Some t)
    with 3 show ?thesis by simp
  qed
qed simp_all

lemma open_path_snoc: "open_path fs p \<Longrightarrow> lookup fs (p @ [n]) = None \<Longrightarrow> open_path fs (p @ [n])"
proof (induction fs p rule: open_path.induct)
  case (1 t)
  then show ?case by (cases t) (auto split: option.splits)
qed (auto split: option.splits)

lemma open_path_lookup: "open_path fs p \<Longrightarrow> lookup fs p = Some t \<Longrightarrow> is_dir t"
  by (induction fs p rule: open_path.induct) (auto split: option.splits)

fun plain_tree :: "node \<Rightarrow> bool" where
  "plain_tree (File c) = True"
| "plain_tree (Dir es) \<longleftrightarrow> (\<forall>e \<in> set es. plain_component (fst e) \<and> plain_tree (snd e))"

definition after_entries :: "node \<Rightarrow> path \<Rightarrow> (string \<times> node) list \<Rightarrow> node" where
  "after_entries fs p es = (if es = [] then fs else put_tree fs p (Dir es))"

lemma after_entries_ready:
  assumes "open_path fs p" "lookup fs p = None" "n \<notin> fst ` set es"
  shows "open_path (after_entries fs p es) p" "lookup (after_entries fs p es) (p @ [n]) = None"
  using assms open_put_tree [OF assms(1), of "Dir es" "[]"]
  by (auto simp: after_entries_def lookup_append lookup_put_tree map_of_eq_None_iff)

lemma after_entries_snoc:
  assumes "open_path fs p" "lookup fs p = None" "\<forall>e \<in> set es. fst e < n"
  shows "put_tree (after_entries fs p es) (p @ [n]) u = after_entries fs p (es @ [(n, u)])"
  using assms by (simp add: after_entries_def put_tree_append put_tree_missing put_entry_last)

lemma after_entries_mkdir:
  assumes "open_path fs p" "lookup fs p = None"
  shows "mkdir_all (after_entries fs p es) p = Some (put_tree fs p (Dir es))"
proof (cases "es = []")
  case True
  with assms show ?thesis by (simp add: after_entries_def mkdir_all_put_tree)
next
  case False
  with open_put_tree [OF assms(1), of "Dir es" "[]"] assms show ?thesis
    by (simp add: after_entries_def mkdir_all_put_tree lookup_put_tree put_tree_same)
qed

lemma untar_file:
  assumes "\<forall>p. ok p" "\<forall>c \<in> set (d @ r @ [n]). plain_component c" "open_path fs (d @ r)" "lookup fs (d @ r @ [n]) = None"
  shows "untar_loop ok d True [FileEntry (r @ [n]) c] fs = (put_tree fs (d @ r @ [n]) (File c), None)"
proof -
  define D where "D = (case lookup fs (d @ r) of None \<Rightarrow> Dir [] | Some t \<Rightarrow> t)"
  have "is_dir D" using open_path_lookup [OF assms(3)] by (auto simp: D_def split: option.splits)
  then obtain es where D: "D = Dir es" by (cases D) auto
  have none: "map_of es n = None"
    using assms(4) D lookup_append [of fs "d @ r" "[n]"] by (auto simp: D_def split: option.splits bind_splits)
  let ?fs1 = "put_tree fs (d @ r) D"
  have mk: "MkdirAll ok fs (d @ r) = ?fs1" using assms(1,3) by (simp add: MkdirAll_def mkdir_all_put_tree D_def)
  have "write_file ?fs1 ((d @ r) @ [n]) c = Some (put_tree ?fs1 ((d @ r) @ [n]) (File c))"
    using lookup_put_tree [OF assms(3), of D] D none by (intro write_file_put_tree) simp_all
  also have "put_tree ?fs1 ((d @ r) @ [n]) (File c) = put_tree fs ((d @ r) @ [n]) (File c)"
    using put_tree_append [OF assms(3)] put_tree_split [OF assms(3)] by (simp add: D_def)
  finally have "unTarFile ok ?fs1 (d @ r @ [n]) c = Some (put_tree fs (d @ r @ [n]) (File c))"
    using assms(1) by (simp add: unTarFile_def)
  moreover have "butlast (d @ r @ [n]) = d @ r" by (simp add: butlast_append)
  ultimately show ?thesis using mk Clean_plain [OF assms(2)] by simp
qed

lemma untar_entries_of:
  assumes "\<forall>p. ok p" "\<forall>c \<in> set d. plain_component c"
  shows "ordered t \<Longrightarrow> plain_tree t \<Longrightarrow> \<forall>c \<in> set (r @ [n]). plain_component c \<Longrightarrow> open_path fs (d @ r) \<Longrightarrow>
    lookup fs (d @ r @ [n]) = None \<Longrightarrow>
    untar_loop ok d True (entries_of (r @ [n]) t) fs = (put_tree fs (d @ r @ [n]) t, None)"
proof (induction t arbitrary: r n fs)
  case (File c)
  have "\<forall>c \<in> set (d @ r @ [n]). plain_component c" using File.prems(3) assms(2) by auto
  from untar_file [OF assms(1) this File.prems(4,5)] show ?case unfolding entries_of.simps .
next
  case (Dir es)
  let ?p = "d @ r @ [n]"
  have op: "open_path fs ?p" using open_path_snoc [of fs "d @ r" n] Dir.prems(4,5) by simp
  have loop: "untar_loop ok d True (concat (map (\<lambda>e. entries_of ((r @ [n]) @ [fst e]) (snd e)) es2)) (after_entries fs ?p es1) =
      (after_entries fs ?p (es1 @ es2), None)" if "es1 @ es2 = es" for es1 es2
    using that
  proof (induction es2 arbitrary: es1)
    case (Cons e es2)
    obtain m u where e: "e = (m, u)" by (cases e)
    have mem: "(m, u) \<in> set es" using Cons.prems e by auto
    have "sorted_wrt (<) (map fst (es1 @ (m, u) # es2))" using Cons.prems Dir.prems(1) e by simp
    then have less: "\<forall>x \<in> set es1. fst x < m" by (simp add: sorted_wrt_append)
    have "m \<notin> fst ` set es1" using less by auto
    note ready = after_entries_ready [OF op Dir.prems(5) this]
    have "untar_loop ok d True (entries_of ((r @ [n]) @ [m]) u) (after_entries fs ?p es1) =
        (put_tree (after_entries fs ?p es1) (d @ (r @ [n]) @ [m]) u, None)"
    proof (rule Dir.IH [of "(m, u)" u])
      show "ordered u" "plain_tree u" "\<forall>c \<in> set ((r @ [n]) @ [m]). plain_component c"
        using mem Dir.prems(1-3) by auto
    qed (use mem ready in auto)
    also have "put_tree (after_entries fs ?p es1) (d @ (r @ [n]) @ [m]) u = after_entries fs ?p (es1 @ [(m, u)])"
      using after_entries_snoc [OF op Dir.prems(5) less] by simp
    finally show ?case
      using Cons.IH [of "es1 @ [(m, u)]"] Cons.prems e untar_append by simp
  qed simp
  have "untar_loop ok d True (concat (map (\<lambda>e. entries_of ((r @ [n]) @ [fst e]) (snd e)) es)) fs = (after_entries fs ?p es, None)"
    using loop [of "[]" es] by (simp add: after_entries_def)
  from untar_append [OF this, of True "[DirEntry (r @ [n])]"]
  have "untar_loop ok d True (entries_of (r @ [n]) (Dir es)) fs = untar_loop ok d True [DirEntry (r @ [n])] (after_entries fs ?p es)"
    by simp
  moreover have "Clean ?p = ?p" using assms(2) Dir.prems(3) by (intro Clean_plain) auto
  moreover have "MkdirAll ok (after_entries fs ?p es) ?p = put_tree fs ?p (Dir es)"
    using after_entries_mkdir [OF op Dir.prems(5), of es] by (simp add: MkdirAll_def spec [OF assms(1)])
  ultimately show ?case by simp
qed

section \<open>Writing elsewhere\<close>

lemma lookup_write_disjoint: "write_file t p c = Some t' \<Longrightarrow> \<not> prefix q p \<Longrightarrow> lookup t' q = lookup t q"
proof (induction t p c arbitrary: t' q rule: write_file.induct)
  case (1 x c)
  then show ?case by (cases q) auto
next
  case (4 es n p c)
  then obtain m q' where q: "q = m # q'" by (cases q) auto
  with 4 show ?case by (cases q') (auto split: option.splits if_splits bind_splits)
qed simp_all

lemma write_file_again: "write_file t p c = Some t' \<Longrightarrow> \<exists>t''. write_file t' p c' = Some t''"
  by (induction t p c arbitrary: t' rule: write_file.induct) (auto split: option.splits if_splits)

lemma read_put_tree_other:
  "open_path fs p \<Longrightarrow> lookup fs p = None \<Longrightarrow> \<not> prefix p f \<Longrightarrow> read_file (put_tree fs p u) f = read_file fs f"
proof (induction fs p arbitrary: f rule: open_path.induct)
  case (3 es n p)
  show ?case
  proof (cases "map_of es n")
    case None
    have "read_file (put_tree (Dir []) p u) g = None" if "\<not> prefix p g" for g p
      using that by (induction p arbitrary: g) (case_tac g; auto)+
    with None 3 show ?thesis by (cases f) auto
  next
    case (Some t)
    with 3 show ?thesis by (cases f) auto
  qed
qed auto

section \<open>Correctness\<close>

lemma unpack_packed:
  assumes tree: "lookup fs (base @ [n]) = Some t" "ordered t" "plain_tree t" "\<forall>c \<in> set (base @ [n]). plain_component c"
    and faultless: "\<forall>p. \<not> bad p" "\<forall>p. wr_ok p"
    and dst: "write_file fs dst [] = Some fs0" "\<not> prefix (base @ [n]) dst"
    and format: "ungz (gz \<lparr>tw_entries = entries_of [n] t, tw_missing = False\<rparr>) = Some (entries_of [n] t, True)"
    and target: "\<forall>c \<in> set out. plain_component c" "open_path fs2 out" "lookup fs2 (out @ [n]) = None"
  shows "\<exists>fs1 data fs3. TarGZ gz bad fs dst (base @ [n]) = (fs1, None) \<and> read_file fs1 dst = Some data \<and>
    UnTarGZ ungz wr_ok fs2 out data = (fs3, None) \<and> lookup fs3 (out @ [n]) = Some t \<and>
    (\<forall>f. \<not> prefix (out @ [n]) f \<longrightarrow> read_file fs3 f = read_file fs2 f)"
proof -
  have src: "Clean (base @ [n]) = base @ [n]" by (rule Clean_plain [OF tree(4)])
  have t: "lookup fs0 (base @ [n]) = Some t" using lookup_write_disjoint [OF dst] tree(1) by simp
  define w where "w = \<lparr>tw_entries = entries_of [n] t, tw_missing = False\<rparr>"
  have packed: "(case t of
       Dir es \<Rightarrow> tarDir bad base [n] es \<lparr>tw_entries = [], tw_missing = False\<rparr>
     | File c \<Rightarrow> tarFile bad base [n] c \<lparr>tw_entries = [], tw_missing = False\<rparr>) = (w, None)"
  proof (cases t)
    case (Dir es)
    have "tarDir bad base [n] es \<lparr>tw_entries = [], tw_missing = False\<rparr> = (w, None)"
      using tar_entries_of(1) [OF faultless(1), of "\<lparr>tw_entries = [], tw_missing = False\<rparr>" "[n]" base es] Dir
      by (simp add: w_def del: tarDir.simps)
    with Dir show ?thesis by (simp del: tarDir.simps)
  qed (use faultless(1) in \<open>simp add: w_def tarFile_def WriteHeader_def\<close>)
  have missing: "\<not> tw_missing w" by (simp add: w_def)
  obtain fs1 where fs1: "write_file fs0 dst (gz w) = Some fs1" using write_file_again [OF dst(1)] by blast
  have "TarGZ gz bad fs dst (base @ [n]) = (fs1, None)"
    using packed unfolding TarGZ_def Let_def src tree(1) option.case dst(1) t butlast_snoc
    by (cases t) (simp_all add: fs1 missing del: tarDir.simps)
  moreover have "read_file fs1 dst = Some (gz w)" using fs1 by (rule tree.rd_wr_same)
  moreover have "untar_loop wr_ok out True (entries_of ([] @ [n]) t) fs2 = (put_tree fs2 (out @ [] @ [n]) t, None)"
    using untar_entries_of [OF faultless(2) target(1) tree(2,3), of "[]" n fs2] tree(4) target(2,3) by simp
  then have "UnTarGZ ungz wr_ok fs2 out (gz w) = (put_tree fs2 (out @ [n]) t, None)"
    using format by (simp add: UnTarGZ_def w_def Clean_plain [OF target(1)])
  moreover have "open_path fs2 (out @ [n])" using target(2,3) by (rule open_path_snoc)
  ultimately show ?thesis using lookup_put_tree read_put_tree_other [OF _ target(3)] by metis
qed

text \<open>C35: A packed file or directory is unpacked as it was: when everything can be read and written, the
  destination of the archive is outside the source, and names are plain, and the bytes of
  the archive are read as the entries that were written, packing succeeds, and
  unpacking the archive into a directory that lacks the name gives the same tree there and changes
  no other file.\<close>

theorem tar_roundtrip:
  assumes tree: "lookup fs (base @ [n]) = Some t" "ordered t" "plain_tree t" "\<forall>c \<in> set (base @ [n]). plain_component c"
    and faultless: "\<forall>p. \<not> bad p" "\<forall>p. wr_ok p"
    and dst: "write_file fs dst [] = Some fs0" "\<not> prefix (base @ [n]) dst"
    and format: "ungz (gz \<lparr>tw_entries = entries_of [n] t, tw_missing = False\<rparr>) = Some (entries_of [n] t, True)"
    and target: "\<forall>c \<in> set out. plain_component c" "open_path fs2 out" "lookup fs2 (out @ [n]) = None"
  shows "\<exists>fs1 data fs3. TarGZ gz bad fs dst (base @ [n]) = (fs1, None) \<and> read_file fs1 dst = Some data \<and>
    UnTarGZ ungz wr_ok fs2 out data = (fs3, None) \<and> lookup fs3 (out @ [n]) = Some t \<and>
    (\<forall>f. \<not> prefix (out @ [n]) f \<longrightarrow> read_file fs3 f = read_file fs2 f)"
  using assms by (rule unpack_packed)

definition demo_archive_fs :: node where
  "demo_archive_fs = Dir [(''src'', Dir [(''d'', Dir [(''e'', Dir []), (''f'', File ''1'')])]), (''tmp'', Dir [])]"

theorem tar_roundtrip_witness:
  "\<exists>fs1 data fs3. TarGZ (\<lambda>w. ''bytes'') (\<lambda>p. False) demo_archive_fs [''out.tgz''] [''src'', ''d''] = (fs1, None) \<and>
     UnTarGZ (\<lambda>data. Some (entries_of [''d''] (Dir [(''e'', Dir []), (''f'', File ''1'')]), True)) (\<lambda>p. True) fs1 [''tmp''] data = (fs3, None) \<and>
     lookup fs3 [''tmp'', ''d''] = Some (Dir [(''e'', Dir []), (''f'', File ''1'')])"
proof -
  let ?t = "Dir [(''e'', Dir []), (''f'', File ''1'')]"
  let ?fs1 = "fst (TarGZ (\<lambda>w. ''bytes'') (\<lambda>p. False) demo_archive_fs [''out.tgz''] [''src'', ''d''])"
  have l: "lookup demo_archive_fs ([''src''] @ [''d'']) = Some ?t" by (simp add: demo_archive_fs_def)
  have o: "ordered ?t" "plain_tree ?t" "\<forall>c \<in> set ([''src''] @ [''d'']). plain_component c"
    "\<forall>c \<in> set [''tmp'']. plain_component c" by code_simp+
  obtain fs0 where f0: "write_file demo_archive_fs [''out.tgz''] [] = Some fs0" by (simp add: demo_archive_fs_def)
  have p: "\<not> prefix ([''src''] @ [''d'']) [''out.tgz'']" by simp
  have op: "open_path ?fs1 [''tmp'']" "lookup ?fs1 ([''tmp''] @ [''d'']) = None" by code_simp+
  show ?thesis
    using tar_roundtrip [OF l o(1-3) _ _ f0 p, of "\<lambda>p. False" "\<lambda>p. True"
        "\<lambda>data. Some (entries_of [''d''] ?t, True)" "\<lambda>w. ''bytes''" "[''tmp'']" ?fs1] o(4) op by auto blast
qed

text \<open>A directory that cannot be read is missing from the archive, and packing still reports success.\<close>

theorem unreadable_left_out:
  "TarGZ gz (\<lambda>p. p = [''src'', ''d'', ''e'']) (Dir [(''src'', Dir [(''d'', Dir [(''e'', Dir [(''x'', File ''2'')])])])])
     [''o''] [''src'', ''d''] =
   (Dir [(''o'', File (gz \<lparr>tw_entries = [DirEntry [''d'']], tw_missing = False\<rparr>)),
         (''src'', Dir [(''d'', Dir [(''e'', Dir [(''x'', File ''2'')])])])], None)"
  by (simp add: TarGZ_def Clean_def Let_def WriteHeader_def less_char_def)

text \<open>An entry whose name goes up is written beside the destination.\<close>

theorem entry_escapes:
  "UnTarGZ (\<lambda>data. Some ([FileEntry [''..'', ''x''] ''evil''], True)) (\<lambda>p. True) (Dir [(''tmp'', Dir [])]) [''tmp''] data =
     (Dir [(''tmp'', Dir []), (''x'', File ''evil'')], None)"
  by code_simp

end
