(* ===== verification/Cpu_Archive.thy ===== *)
theory Cpu_Archive
  imports Set_Handler Archive
begin

text \<open>
  Where the directory of CPU files of a container comes from: an archive that is embedded in the
  cpusetter binary (\<^verbatim>\<open>cpu.tar.gz\<close> of \<^verbatim>\<open>pkg/utils\<close>), unpacked into a temporary directory by \<^verbatim>\<open>UnTarGZ\<close> and copied by
  \<^verbatim>\<open>applyCpusToContainer\<close>. The theory puts the archive component under cpusetter, and shows that a container
  sees the files that were packed, once for each of its CPUs.
\<close>

section \<open>The embedded archive\<close>

text \<open>A fresh temporary directory is the root of a tree of its own. \<open>None\<close> is an error of the temporary
  directory, of opening the embedded file, or of unpacking it.\<close>

definition embedded_archive ::
  "(string \<Rightarrow> bool) \<Rightarrow> string option \<Rightarrow> (string \<Rightarrow> (tar_entry list \<times> bool) option) \<Rightarrow> (path \<Rightarrow> bool) \<Rightarrow> string \<Rightarrow> node option" where
  "embedded_archive createTempDir cpuInfrastructure ungz wr_ok containerID =
     (if \<not> createTempDir containerID then None
      else
        (case cpuInfrastructure of
           None \<Rightarrow> None
         | Some data \<Rightarrow>
             (case UnTarGZ ungz wr_ok (Dir []) [] data of
                (tmp, None) \<Rightarrow> Some tmp
              | (tmp, Some _) \<Rightarrow> None)))"

text \<open>The two fixed calls of \<^verbatim>\<open>compress.go\<close>, relative to the working directory \<open>cwd\<close>.\<close>

definition TestTarGZFunc :: "(tar_writer \<Rightarrow> string) \<Rightarrow> (path \<Rightarrow> bool) \<Rightarrow> path \<Rightarrow> node \<Rightarrow> node \<times> tar_error option" where
  "TestTarGZFunc gz bad cwd fs =
     TarGZ gz bad fs (cwd @ [''categraf-v0.3.37-linux-amd64.tar.gz'']) (cwd @ [''categraf-v0.3.37-linux-amd64''])"

definition TestUnTarGZFunc ::
  "(string \<Rightarrow> (tar_entry list \<times> bool) option) \<Rightarrow> (path \<Rightarrow> bool) \<Rightarrow> (path \<Rightarrow> bool) \<Rightarrow> path \<Rightarrow> node \<Rightarrow> node \<times> tar_error option" where
  "TestUnTarGZFunc ungz bad wr_ok cwd fs =
     (let src = cwd @ [''categraf-v0.3.37-linux-amd64.tar.gz'']
      in case (if bad src then None else read_file fs src) of
           None \<Rightarrow> (fs, Some (OpenError src))
         | Some data \<Rightarrow> UnTarGZ ungz wr_ok fs cwd data)"

section \<open>What a container sees\<close>

text \<open>A tree fit to be packed as the CPU directory.\<close>

definition cpu_tree :: "(string \<times> node) list \<Rightarrow> (string \<times> node) list \<Rightarrow> bool" where
  "cpu_tree as zs \<longleftrightarrow>
     ordered (Dir as) \<and> plain_tree (Dir as) \<and> map_of as ''cpu0'' = Some (Dir zs) \<and>
     (\<forall>k > 0. map_of as (cpu_name k) = None) \<and>
     (\<forall>f \<in> set cpu_file_names. \<not> (\<exists>ds. map_of as f = Some (Dir ds)))"

lemma cpu_tree_fits: "cpu_tree as zs \<Longrightarrow> lookup tmp [''cpu''] = Some (Dir as) \<Longrightarrow> archive_fits tmp zs"
  unfolding cpu_tree_def archive_fits_def by (blast intro: ordered_names_once)

text \<open>Packing the tree and unpacking it into an empty directory.\<close>

lemma embedded_archive_packed:
  assumes tree: "lookup fs (base @ [''cpu'']) = Some (Dir as)" "cpu_tree as zs" "\<forall>c \<in> set base. plain_component c"
    and faultless: "\<forall>p. \<not> bad p" "\<forall>p. wr_ok p" "createTempDir containerID"
    and dst: "write_file fs dst [] = Some fs0" "\<not> prefix (base @ [''cpu'']) dst"
    and format: "ungz (gz \<lparr>tw_entries = entries_of [''cpu''] (Dir as), tw_missing = False\<rparr>) = Some (entries_of [''cpu''] (Dir as), True)"
  shows "\<exists>fs1 data tmp. TarGZ gz bad fs dst (base @ [''cpu'']) = (fs1, None) \<and> read_file fs1 dst = Some data \<and>
    embedded_archive createTempDir (Some data) ungz wr_ok containerID = Some tmp \<and> archive_fits tmp zs"
proof -
  have t: "ordered (Dir as)" "plain_tree (Dir as)" using tree(2) by (simp_all add: cpu_tree_def)
  have c: "\<forall>c \<in> set (base @ [''cpu'']). plain_component c" using tree(3) by (auto simp: plain_component_def)
  have o: "\<forall>c \<in> set []. plain_component c" "open_path (Dir []) []" "lookup (Dir []) ([] @ [''cpu'']) = None" by simp_all
  obtain fs1 data tmp where "TarGZ gz bad fs dst (base @ [''cpu'']) = (fs1, None)" "read_file fs1 dst = Some data"
    "UnTarGZ ungz wr_ok (Dir []) [] data = (tmp, None)" "lookup tmp ([] @ [''cpu'']) = Some (Dir as)"
    using unpack_packed [where gz = gz and ungz = ungz and bad = bad and wr_ok = wr_ok, OF tree(1) t c faultless(1,2) dst format o] by blast
  with faultless(3) cpu_tree_fits [OF tree(2), of tmp] show ?thesis by (simp add: embedded_archive_def)
qed

text \<open>C16: From the packed tree to the container: when the embedded archive is what packing a CPU directory gave,
  a container with \<open>n\<close> CPUs finds, under each of the names \<^verbatim>\<open>cpu0\<close> to \<^verbatim>\<open>cpu(n-1)\<close>, the files that were packed for the
  first CPU, and the files that number its CPUs from 0 to \<open>n - 1\<close>.\<close>

theorem container_sees_packed_cpus:
  assumes tree: "lookup fs0 (src @ [''cpu'']) = Some (Dir as)" "cpu_tree as zs" "\<forall>c \<in> set src. plain_component c"
    and packing: "\<forall>p. \<not> bad p" "write_file fs0 dst [] = Some fs1" "\<not> prefix (src @ [''cpu'']) dst"
      "ungz (gz \<lparr>tw_entries = entries_of [''cpu''] (Dir as), tw_missing = False\<rparr>) = Some (entries_of [''cpu''] (Dir as), True)"
    and env: "cpuset_lib (se_cs env)" "no_faults env" "\<forall>p. wr_ok p" "createTempDir cid"
      "se_archive env = embedded_archive createTempDir (read_file (fst (TarGZ gz bad fs0 dst (src @ [''cpu'']))) dst) ungz wr_ok"
    and container: "base = se_cpuRoot env @ [p_Namespace pod, p_Name pod, name]" "dir_available fs base"
      "n = length (cs_List (se_cs env) s)" "0 < n"
  shows "\<exists>fs'. applyCpusToContainer env fs pod name cid s = (fs', None) \<and>
    read_file fs' (base @ [''kernel_max'']) = Some (Itoa (int n - 1)) \<and>
    read_file fs' (base @ [''online'']) = Some (cs_String (se_cs env) (cs_New (se_cs env) [0..int n - 1])) \<and>
    (\<forall>k q. k < n \<longrightarrow> read_file fs' (base @ cpu_name k # q) = read_file fs0 (src @ ''cpu'' # ''cpu0'' # q))"
proof -
  obtain fs2 data tmp where packed: "TarGZ gz bad fs0 dst (src @ [''cpu'']) = (fs2, None)" "read_file fs2 dst = Some data"
    "embedded_archive createTempDir (Some data) ungz wr_ok cid = Some tmp" "archive_fits tmp zs"
    using embedded_archive_packed [where gz = gz and ungz = ungz and bad = bad and wr_ok = wr_ok and createTempDir = createTempDir,
      OF tree packing(1) env(3,4) packing(2-4)] by blast
  then have "se_archive env cid = Some tmp" using env(5) by simp
  from cpu_dir_layout [OF env(1,2) this packed(4) container] obtain fs' where
    l: "applyCpusToContainer env fs pod name cid s = (fs', None)"
    "read_file fs' (base @ [''kernel_max'']) = Some (Itoa (int n - 1))"
    "read_file fs' (base @ [''online'']) = Some (cs_String (se_cs env) (cs_New (se_cs env) [0..int n - 1]))"
    "\<forall>k < n. \<forall>q. read_file fs' (base @ cpu_name k # q) = read_file (Dir zs) q" by auto
  have "lookup fs0 (src @ [''cpu'', ''cpu0'']) = Some (Dir zs)"
    using tree(1,2) lookup_append [of fs0 "src @ [''cpu'']" "[''cpu0'']"] by (simp add: cpu_tree_def)
  then have "read_file fs0 (src @ ''cpu'' # ''cpu0'' # q) = read_file (Dir zs) q" for q
    using lookup_append [of fs0 "src @ [''cpu'', ''cpu0'']" q] by (simp add: read_file_def)
  with l show ?thesis by auto
qed


section \<open>Example\<close>

definition packed_fs :: node where
  "packed_fs = Dir [(''cpu'', Dir [(''cpu0'', Dir [(''freq'', File ''1'')])])]"

definition demo_ungz :: "string \<Rightarrow> (tar_entry list \<times> bool) option" where
  "demo_ungz data = Some (entries_of [''cpu''] (Dir [(''cpu0'', Dir [(''freq'', File ''1'')])]), True)"

definition archive_env :: "int list set_env" where
  "archive_env = (demo_set_env (demo_set_pod ''docker://abc''))
     \<lparr>se_archive := embedded_archive (\<lambda>i. True)
        (read_file (fst (TarGZ (\<lambda>w. ''bytes'') (\<lambda>p. False) packed_fs [''cpu.tar.gz''] ([] @ [''cpu'']))) [''cpu.tar.gz'']) demo_ungz (\<lambda>p. True)\<rparr>"

lemma packed_cpu_tree: "cpu_tree [(''cpu0'', Dir [(''freq'', File ''1'')])] [(''freq'', File ''1'')]"
proof -
  have "cpu_name k \<noteq> ''cpu0''" if "0 < k" for k using cpu_name_inj [of k 0] that by (simp add: cpu_name_0)
  then show ?thesis by (auto simp: cpu_tree_def cpu_file_names_def plain_component_def)
qed

theorem container_sees_packed_cpus_witness:
  "\<exists>fs'. applyCpusToContainer archive_env demo_fs (demo_set_pod ''docker://abc'') ''c'' ''abc'' [2, 3] = (fs', None) \<and>
     read_file fs' [''cpu'', ''ns'', ''pod'', ''c'', ''kernel_max''] = Some ''1'' \<and>
     read_file fs' [''cpu'', ''ns'', ''pod'', ''c'', ''cpu1'', ''freq''] = Some ''1''"
proof -
  let ?pod = "demo_set_pod ''docker://abc''" and ?base = "[''cpu'', ''ns'', ''pod'', ''c'']"
  have t: "lookup packed_fs ([] @ [''cpu'']) = Some (Dir [(''cpu0'', Dir [(''freq'', File ''1'')])])"
    "\<forall>c \<in> set []. plain_component c" "\<forall>p. \<not> (\<lambda>p :: path. False) p" "\<not> prefix ([] @ [''cpu'']) [''cpu.tar.gz'']"
    by (simp_all add: packed_fs_def)
  obtain fs1 where w: "write_file packed_fs [''cpu.tar.gz''] [] = Some fs1" by (simp add: packed_fs_def)
  have f: "demo_ungz ((\<lambda>w. ''bytes'') \<lparr>tw_entries = entries_of [''cpu''] (Dir [(''cpu0'', Dir [(''freq'', File ''1'')])]), tw_missing = False\<rparr>) =
      Some (entries_of [''cpu''] (Dir [(''cpu0'', Dir [(''freq'', File ''1'')])]), True)"
    by (simp add: demo_ungz_def)
  have e: "cpuset_lib (se_cs archive_env)" "no_faults archive_env"
    using ref.cpuset_lib_axioms by (simp_all add: archive_env_def no_faults_def demo_set_env_def se_cs_def demo_choice_def)
  have c: "?base = se_cpuRoot archive_env @ [p_Namespace ?pod, p_Name ?pod, ''c'']" "dir_available demo_fs ?base"
    "2 = length (cs_List (se_cs archive_env) [2, 3])"
    by code_simp+
  have "se_archive archive_env = embedded_archive (\<lambda>i. True)
        (read_file (fst (TarGZ (\<lambda>w. ''bytes'') (\<lambda>p. False) packed_fs [''cpu.tar.gz''] ([] @ [''cpu'']))) [''cpu.tar.gz'']) demo_ungz (\<lambda>p. True)"
    by (simp add: archive_env_def)
  from container_sees_packed_cpus [where gz = "\<lambda>w. ''bytes''" and ungz = demo_ungz and bad = "\<lambda>p. False" and wr_ok = "\<lambda>p. True"
    and createTempDir = "\<lambda>i. True" and cid = "''abc''", OF t(1) packed_cpu_tree t(2,3) w t(4) f e TrueI [THEN allI] TrueI this c]
  obtain fs' where f: "applyCpusToContainer archive_env demo_fs ?pod ''c'' ''abc'' [2, 3] = (fs', None)"
    "read_file fs' (?base @ [''kernel_max'']) = Some (Itoa (int 2 - 1))"
    "\<forall>k q. k < 2 \<longrightarrow> read_file fs' (?base @ cpu_name k # q) = read_file packed_fs ([] @ ''cpu'' # ''cpu0'' # q)" by auto
  have "Itoa (int 2 - 1) = ''1''" "cpu_name 1 = ''cpu1''" by code_simp+
  with f(1,2) f(3) [rule_format, of 1 "[''freq'']"] show ?thesis by (simp add: packed_fs_def)
qed

end
