(* ===== verification/Node_Isolation.thy ===== *)
theory Node_Isolation
  imports Device_Plugin Cpuset_Choice
begin

text \<open>
  The life of a node with exclusive and cloudphone pools, as a step relation over the two programs that
  decide about CPUs: the device plugin, whose \<^verbatim>\<open>ListAndWatch\<close> says which devices of each pool there are, and
  cpusetter, whose \<^verbatim>\<open>determineCorrectCpuset\<close> turns the kubelet's checkpoint into the cpuset of a container,
  whatever resources the container requests. The kubelet
  itself is not part of the repository; what it is relied on for is in the rules: it gives a
  container only advertised devices that no running container has, and writes them into its
  checkpoint, which the JSON codec reads back.

  The abstract specification is ownership: every container owns a set of CPUs of the pool, and one
  may take only CPUs that nobody else owns. The lemmas show that every step of the node is a step
  of the specification, so that in all reachable states no CPU of the pool is in the sets that cpusetter
  has set for two containers, whatever pools the containers use. A container cpusetter has not come to
  yet has no set here; until then it runs where the container runtime put it.
\<close>

section \<open>Ownership\<close>

text \<open>The specification: containers claim unowned CPUs of the pool \<open>P\<close> in place of what they have, or drop all.\<close>

inductive owner_step :: "int set \<Rightarrow> ('k \<Rightarrow> int set) \<Rightarrow> ('k \<Rightarrow> int set) \<Rightarrow> bool" for P where
  claim: "S \<subseteq> P \<Longrightarrow> \<forall>k'. k' \<noteq> k \<longrightarrow> own k' \<inter> S = {} \<Longrightarrow> owner_step P own (own(k := S))"
| drop_all: "owner_step P own (\<lambda>k. if k \<in> K then {} else own k)"

definition exclusive_owners :: "int set \<Rightarrow> ('k \<Rightarrow> int set) \<Rightarrow> bool" where
  "exclusive_owners P own \<longleftrightarrow> (\<forall>k. own k \<subseteq> P) \<and> (\<forall>k k'. k \<noteq> k' \<longrightarrow> own k \<inter> own k' = {})"

lemma owner_step_exclusive: "owner_step P own own' \<Longrightarrow> exclusive_owners P own \<Longrightarrow> exclusive_owners P own'"
proof (induction rule: owner_step.induct)
  case (claim S k own)
  then show ?case unfolding exclusive_owners_def by (simp add: Int_commute)
qed (auto simp: exclusive_owners_def)

lemma owner_steps_exclusive: "(owner_step P)\<^sup>*\<^sup>* own own' \<Longrightarrow> exclusive_owners P own \<Longrightarrow> exclusive_owners P own'"
  by (induction rule: rtranclp_induct) (auto intro: owner_step_exclusive)

section \<open>The node\<close>

type_synonym container_key = "string \<times> string"

text \<open>The entries of the kubelet's checkpoint, and the cpusets that cpusetter has set.\<close>

record 's node_state =
  nd_entries :: "pod_devices_entry list"
  nd_pinned :: "container_key \<rightharpoonup> 's"

abbreviation entry_key :: "pod_devices_entry \<Rightarrow> container_key" where
  "entry_key e \<equiv> (PodUID e, ContainerName e)"

definition pool_resource :: "string \<Rightarrow> string" where
  "pool_resource pool = setResourceBaseName @ CHR ''/'' # pool"

lemma pool_resource_inj [simp]: "pool_resource p = pool_resource q \<longleftrightarrow> p = q"
  by (simp add: pool_resource_def)

definition in_use :: "string \<Rightarrow> pod_devices_entry list \<Rightarrow> string set" where
  "in_use res es = {i. \<exists>e \<in> set es. ResourceName e = res \<and> i \<in> set (DeviceIDs e)}"

text \<open>What cpusetter runs in: \<open>enc\<close> is the checkpoint file the kubelet writes for its entries.\<close>

definition node_env :: "'s choice_env \<Rightarrow> (pod_devices_entry list \<Rightarrow> cp_env) \<Rightarrow> 's node_state \<Rightarrow> 's choice_env" where
  "node_env env enc nd = env\<lparr>ch_checkpoint := enc (nd_entries nd)\<rparr>"

text \<open>The managers of the device plugin by their pools, as far as the pools are not shared.\<close>

type_synonym ('s, 'w) managers = "string \<rightharpoonup> ('s, 'w) cdm"

definition advertised :: "'s choice_env \<Rightarrow> ('s, 'w) cdm \<Rightarrow> string set" where
  "advertised env m = set (map dev_ID (fst (list_devices (ch_cpuset env) m)))"

definition unmanaged :: "('s, 'w) managers \<Rightarrow> string \<Rightarrow> bool" where
  "unmanaged mans res \<longleftrightarrow> \<not> exclusive_res res \<and> \<not> cloudphone_res res \<and> res \<notin> pool_resource ` dom mans"

text \<open>The containers of \<open>K\<close> end together with their cpusets; a container that restarts has a fresh one. An
  init container whose devices the kubelet passes on to a later container has ended by then. Devices of
  other plugins and of the shared pools are recorded as well; nobody but the plugin has resources that
  are exclusive or cloudphone by their names.\<close>

inductive node_step ::
  "'s choice_env \<Rightarrow> (pod_devices_entry list \<Rightarrow> cp_env) \<Rightarrow> ('s, 'w) managers \<Rightarrow> 's node_state \<Rightarrow> 's node_state \<Rightarrow> bool"
  for env enc mans where
  allocate: "mans q = Some m \<Longrightarrow> ResourceName e = pool_resource q \<Longrightarrow> set (DeviceIDs e) \<subseteq> advertised env m \<Longrightarrow>
    set (DeviceIDs e) \<inter> in_use (pool_resource q) (nd_entries nd) = {} \<Longrightarrow>
    node_step env enc mans nd (nd\<lparr>nd_entries := nd_entries nd @ [e]\<rparr>)"
| allocate_other: "unmanaged mans (ResourceName e) \<Longrightarrow>
    node_step env enc mans nd (nd\<lparr>nd_entries := nd_entries nd @ [e]\<rparr>)"
| pin: "determineCorrectCpuset (node_env env enc nd) pod c = Ok (cfgSet, realSet) \<Longrightarrow>
    node_step env enc mans nd (nd\<lparr>nd_pinned := (nd_pinned nd)((p_UID pod, c_Name c) \<mapsto> realSet)\<rparr>)"
| restart: "node_step env enc mans nd (nd\<lparr>nd_pinned := (nd_pinned nd)(k := None)\<rparr>)"
| finish: "node_step env enc mans nd
    (nd\<lparr>nd_entries := filter (\<lambda>e. entry_key e \<notin> K) (nd_entries nd),
        nd_pinned := (\<lambda>k. if k \<in> K then None else nd_pinned nd k)\<rparr>)"

inductive_cases node_step_elim: "node_step env enc mans nd nd'"

definition empty_node :: "'s node_state" where
  "empty_node = \<lparr>nd_entries = [], nd_pinned = Map.empty\<rparr>"

abbreviation node_reachable ::
  "'s choice_env \<Rightarrow> (pod_devices_entry list \<Rightarrow> cp_env) \<Rightarrow> ('s, 'w) managers \<Rightarrow> 's node_state \<Rightarrow> bool" where
  "node_reachable env enc mans nd \<equiv> (node_step env enc mans)\<^sup>*\<^sup>* empty_node nd"

definition pool_cpus :: "'s choice_env \<Rightarrow> ('s, 'w) cdm \<Rightarrow> int set" where
  "pool_cpus env cdm = cs_elems (ch_cpuset env) (CPUset (cdm_pool cdm))"

definition configured_pool :: "'s choice_env \<Rightarrow> string \<Rightarrow> 's pool" where
  "configured_pool env kind = SelectPool (ch_cpuset env) (ch_poolConfig env) kind"

definition configured_cpus :: "'s choice_env \<Rightarrow> string \<Rightarrow> int set" where
  "configured_cpus env kind = cs_elems (ch_cpuset env) (CPUset (configured_pool env kind))"

text \<open>The node: both programs count the same CPUs; the pools of the managers are not shared, fit the machine,
  and are apart from the pool \<open>pool\<close>, as are the shared pool, the default pool, the cores of the core maps
  of cloudphone pools, and the hyper-threading siblings of CPUs of other pools. The pool itself is exclusive,
  not overcommitted and single-threaded.\<close>

definition managers_wf :: "'s choice_env \<Rightarrow> ('s, 'w) managers \<Rightarrow> bool" where
  "managers_wf env mans \<longleftrightarrow> (\<forall>q m. mans q = Some m \<longrightarrow>
     CHR ''/'' \<notin> set q \<and> poolType m \<noteq> ''shared'' \<and> cdm_wf (ch_cpuset env) m \<and> numCPU m = ch_numOfCpus env)"

definition others_apart :: "'s choice_env \<Rightarrow> ('s, 'w) managers \<Rightarrow> string \<Rightarrow> int set \<Rightarrow> bool" where
  "others_apart env mans pool P \<longleftrightarrow>
     (\<forall>q m. mans q = Some m \<and> q \<noteq> pool \<longrightarrow> pool_cpus env m \<inter> P = {}) \<and>
     (\<forall>q m. mans q = Some m \<and> cloudphone_res (pool_resource q) \<longrightarrow>
        t_Core ` snd ` set (CoreMap (configured_pool env q)) \<inter> P = {}) \<and>
     (\<forall>s. cs_elems (ch_cpuset env) s \<inter> P = {} \<longrightarrow> cs_elems (ch_cpuset env) (ch_addHT env s (ch_htMap env)) \<inter> P = {}) \<and>
     configured_cpus env SharedPoolID \<inter> P = {} \<and> configured_cpus env DefaultPoolID \<inter> P = {}"

definition exclusive_node ::
  "'s choice_env \<Rightarrow> (pod_devices_entry list \<Rightarrow> cp_env) \<Rightarrow> ('s, 'w) managers \<Rightarrow> string \<Rightarrow> ('s, 'w) cdm \<Rightarrow> bool" where
  "exclusive_node env enc mans pool cdm \<longleftrightarrow>
     cpuset_lib (ch_cpuset env) \<and> (\<forall>es. read_checkpoint (enc es) = Ok \<lparr>PodDeviceEntries = es\<rparr>) \<and>
     managers_wf env mans \<and> others_apart env mans pool (pool_cpus env cdm) \<and>
     mans pool = Some cdm \<and> exclusive_res (pool_resource pool) \<and> Overcommitment (cdm_pool cdm) \<le> 1 \<and>
     HTPolicy (configured_pool env pool) \<noteq> MultiThreadHTPolicy"

section \<open>The devices of a container\<close>

definition key_ids :: "string \<Rightarrow> pod_devices_entry list \<Rightarrow> container_key \<Rightarrow> string list" where
  "key_ids pool es k = concat (map DeviceIDs (filter (\<lambda>e. entry_key e = k \<and> ResourceName e = pool_resource pool) es))"

text \<open>The CPUs behind devices.\<close>

definition device_cpus :: "'s choice_env \<Rightarrow> string list \<Rightarrow> int set" where
  "device_cpus env ids = cpusetter.decoded (ch_numOfCpus env) ids"

definition node_inv :: "'s choice_env \<Rightarrow> ('s, 'w) managers \<Rightarrow> string \<Rightarrow> ('s, 'w) cdm \<Rightarrow> 's node_state \<Rightarrow> bool" where
  "node_inv env mans pool cdm nd \<longleftrightarrow>
     (\<forall>q m. mans q = Some m \<longrightarrow> in_use (pool_resource q) (nd_entries nd) \<subseteq> advertised env m) \<and>
     (\<forall>e \<in> set (nd_entries nd). unmanaged mans (ResourceName e) \<or> ResourceName e \<in> pool_resource ` dom mans) \<and>
     (\<forall>k k'. k \<noteq> k' \<longrightarrow> set (key_ids pool (nd_entries nd) k) \<inter> set (key_ids pool (nd_entries nd) k') = {}) \<and>
     (\<forall>k s. nd_pinned nd k = Some s \<longrightarrow>
        cs_elems (ch_cpuset env) s \<inter> pool_cpus env cdm \<subseteq> device_cpus env (key_ids pool (nd_entries nd) k))"

lemma node_invI:
  assumes "\<And>q m. mans q = Some m \<Longrightarrow> in_use (pool_resource q) (nd_entries nd) \<subseteq> advertised env m"
    and "\<And>e. e \<in> set (nd_entries nd) \<Longrightarrow> unmanaged mans (ResourceName e) \<or> ResourceName e \<in> pool_resource ` dom mans"
    and "\<And>k k'. k \<noteq> k' \<Longrightarrow> set (key_ids pool (nd_entries nd) k) \<inter> set (key_ids pool (nd_entries nd) k') = {}"
    and "\<And>k s. nd_pinned nd k = Some s \<Longrightarrow>
      cs_elems (ch_cpuset env) s \<inter> pool_cpus env cdm \<subseteq> device_cpus env (key_ids pool (nd_entries nd) k)"
  shows "node_inv env mans pool cdm nd"
  unfolding node_inv_def using assms by blast

lemma node_invD:
  assumes "node_inv env mans pool cdm nd"
  shows "mans q = Some m \<Longrightarrow> in_use (pool_resource q) (nd_entries nd) \<subseteq> advertised env m"
    and "e \<in> set (nd_entries nd) \<Longrightarrow> unmanaged mans (ResourceName e) \<or> ResourceName e \<in> pool_resource ` dom mans"
    and "k \<noteq> k' \<Longrightarrow> set (key_ids pool (nd_entries nd) k) \<inter> set (key_ids pool (nd_entries nd) k') = {}"
    and "nd_pinned nd k = Some s \<Longrightarrow>
      cs_elems (ch_cpuset env) s \<inter> pool_cpus env cdm \<subseteq> device_cpus env (key_ids pool (nd_entries nd) k)"
  using assms unfolding node_inv_def by blast+

lemma key_ids_in_use: "set (key_ids pool es k) \<subseteq> in_use (pool_resource pool) es"
  by (auto simp: key_ids_def in_use_def)

lemma key_ids_append:
  "key_ids pool (es @ [e]) k =
     key_ids pool es k @ (if entry_key e = k \<and> ResourceName e = pool_resource pool then DeviceIDs e else [])"
  by (simp add: key_ids_def)

lemma key_ids_filter: "key_ids pool (filter (\<lambda>e. entry_key e \<notin> K) es) k = (if k \<in> K then [] else key_ids pool es k)"
  by (auto simp: key_ids_def intro!: arg_cong [where f = concat] arg_cong [where f = "map DeviceIDs"] filter_cong)

lemma in_use_append:
  "in_use res (es @ [e]) = in_use res es \<union> (if ResourceName e = res then set (DeviceIDs e) else {})"
  by (auto simp: in_use_def)

lemma in_use_filter: "in_use res (filter p es) \<subseteq> in_use res es"
  by (auto simp: in_use_def)

lemma device_cpus_mono: "set a \<subseteq> set b \<Longrightarrow> device_cpus env a \<subseteq> device_cpus env b"
  by (auto simp: device_cpus_def cpusetter.decoded_def)

text \<open>The devices of a container are slots of the pool.\<close>

lemma advertised_slots:
  assumes "managers_wf env mans" "mans q = Some m" "set ids \<subseteq> advertised env m"
  obtains slots where "set slots \<subseteq> set (pool_slots (ch_cpuset env) m)" "ids = slot_device_ids (ch_numOfCpus env) slots"
    "\<forall>(cpu, k) \<in> set slots. valid_slot (ch_numOfCpus env) cpu k" "device_cpus env ids = fst ` set slots"
proof -
  let ?cs = "ch_cpuset env"
  have wf: "cdm_wf ?cs m" and t: "poolType m \<noteq> ''shared''" and n: "numCPU m = ch_numOfCpus env"
    using assms(1,2) unfolding managers_wf_def by blast+
  have "map dev_ID (fst (list_devices ?cs m)) = slot_ids m (pool_slots ?cs m)"
    using list_devices_exclusive(1) [OF t] by (simp add: slot_ids_def case_prod_unfold comp_def)
  with ids_are_slots [of ids m "pool_slots ?cs m"] assms(3)
  obtain slots where s: "set slots \<subseteq> set (pool_slots ?cs m)" "ids = slot_ids m slots" unfolding advertised_def by metis
  have v: "\<forall>(cpu, k) \<in> set slots. valid_slot (ch_numOfCpus env) cpu k"
    using cdm_wf_slot [OF wf] s(1) n by auto
  have "device_cpus env ids = fst ` set slots"
    unfolding device_cpus_def s(2) slot_ids_def n by (rule cpusetter.decoded_advertised) (use v in blast)
  with s v n that show thesis by (simp add: slot_ids_def slot_device_ids_def)
qed

lemma device_cpus_disjoint:
  assumes node: "exclusive_node env enc mans pool cdm"
    and adv: "set a \<subseteq> advertised env cdm" "set b \<subseteq> advertised env cdm" and "set a \<inter> set b = {}"
  shows "device_cpus env a \<inter> device_cpus env b = {}"
proof -
  have wf: "managers_wf env mans" "mans pool = Some cdm" "Overcommitment (cdm_pool cdm) \<le> 1"
    using node by (simp_all add: exclusive_node_def)
  obtain x where x: "set x \<subseteq> set (pool_slots (ch_cpuset env) cdm)" "a = slot_device_ids (ch_numOfCpus env) x" "device_cpus env a = fst ` set x"
    using advertised_slots [OF wf(1,2) adv(1)] .
  obtain y where y: "set y \<subseteq> set (pool_slots (ch_cpuset env) cdm)" "b = slot_device_ids (ch_numOfCpus env) y" "device_cpus env b = fst ` set y"
    using advertised_slots [OF wf(1,2) adv(2)] .
  have "set x \<inter> set y = {}" using assms(4) x(2) y(2) by (auto simp: slot_device_ids_def)
  then show ?thesis using slots_one_per_cpu wf(3) x(1,3) y(1,3) by metis
qed

section \<open>What cpusetter chooses\<close>

text \<open>The devices cpusetter finds for a resource.\<close>

lemma allocated_key_ids:
  assumes "exclusive_node env enc mans pool cdm"
  shows "allocated_ids (node_env env enc nd) pod c (pool_resource q) = key_ids q (nd_entries nd) (p_UID pod, c_Name c)"
  using assms by (simp add: exclusive_node_def allocated_ids_def node_env_def collect_devices_eq key_ids_def conj_ac)

lemma unmanaged_ids:
  assumes "exclusive_node env enc mans pool cdm" "node_inv env mans pool cdm nd"
    and "exclusive_res r \<or> cloudphone_res r" "r \<notin> pool_resource ` dom mans"
  shows "allocated_ids (node_env env enc nd) pod c r = []"
proof -
  have "ResourceName e \<noteq> r" if "e \<in> set (nd_entries nd)" for e
    using node_invD(2) [OF assms(2) that] assms(3,4) by (auto simp: unmanaged_def)
  then show ?thesis using assms(1)
    by (auto simp: exclusive_node_def allocated_ids_def node_env_def collect_devices_eq filter_empty_conv)
qed

text \<open>The set for a resource: nothing without devices, and else the CPUs behind the devices of the container.\<close>

lemma getList_empty:
  assumes "exclusive_node env enc mans pool cdm" "allocated_ids (node_env env enc nd) pod c r = []"
  shows "getListOfAllocatedExclusiveCpus (node_env env enc nd) r pod c = Ok (cs_zero (ch_cpuset env))"
  using assms by (simp add: exclusive_node_def node_env_def allocated_ids_def getListOfAllocatedExclusiveCpus_def)

lemma managed_set:
  assumes node: "exclusive_node env enc mans pool cdm" and inv: "node_inv env mans pool cdm nd" and m: "mans q = Some m"
    and s: "getListOfAllocatedExclusiveCpus (node_env env enc nd) (pool_resource q) pod c = Ok s"
  shows "cs_elems (ch_cpuset env) s = device_cpus env (key_ids q (nd_entries nd) (p_UID pod, c_Name c)) \<and>
    cs_elems (ch_cpuset env) s \<subseteq> pool_cpus env m"
proof -
  let ?e = "node_env env enc nd" and ?ids = "key_ids q (nd_entries nd) (p_UID pod, c_Name c)"
  have lib: "cpuset_lib (ch_cpuset env)" and wf: "managers_wf env mans" using node by (simp_all add: exclusive_node_def)
  have env: "ch_cpuset ?e = ch_cpuset env" "ch_numOfCpus ?e = ch_numOfCpus env" by (simp_all add: node_env_def)
  have ids: "allocated_ids ?e pod c (pool_resource q) = ?ids" by (rule allocated_key_ids [OF node])
  have "set ?ids \<subseteq> advertised env m" using node_invD(1) [OF inv m] key_ids_in_use by blast
  from advertised_slots [OF wf m this] obtain slots where
    slots: "set slots \<subseteq> set (pool_slots (ch_cpuset env) m)" "?ids = slot_device_ids (ch_numOfCpus env) slots"
      "\<forall>(cpu, k) \<in> set slots. valid_slot (ch_numOfCpus env) cpu k" "device_cpus env ?ids = fst ` set slots" .
  have "cs_elems (ch_cpuset env) s = fst ` set slots"
  proof (cases "slots = []")
    case True
    then have "allocated_ids ?e pod c (pool_resource q) = []" using ids slots(2) by (simp add: slot_device_ids_def)
    from getList_empty [OF node this] s True show ?thesis by (simp add: cpuset_lib.elems_zero [OF lib])
  next
    case False
    obtain t where "getListOfAllocatedExclusiveCpus ?e (pool_resource q) pod c = Ok t" "cs_elems (ch_cpuset ?e) t = fst ` set slots"
      using allocated_set [of ?e slots pod c "pool_resource q"] lib False ids slots(2,3) unfolding env by auto
    with s env(1) show ?thesis by simp
  qed
  moreover have "fst ` set slots \<subseteq> pool_cpus env m"
    using slots(1) pool_slots_elems [of "ch_cpuset env" m] unfolding pool_cpus_def by auto
  ultimately show ?thesis using slots(4) by simp
qed

text \<open>Every resource a container can request stays within its devices of the pool.\<close>

lemma requests_within:
  assumes node: "exclusive_node env enc mans pool cdm" and inv: "node_inv env mans pool cdm nd"
  shows "resource_within (node_env env enc nd) pod c (pool_cpus env cdm)
    (device_cpus env (key_ids pool (nd_entries nd) (p_UID pod, c_Name c))) r"
proof -
  let ?e = "node_env env enc nd" and ?P = "pool_cpus env cdm"
  let ?D = "device_cpus env (key_ids pool (nd_entries nd) (p_UID pod, c_Name c))"
  have lib: "cpuset_lib (ch_cpuset env)" and wf: "managers_wf env mans" and apart: "others_apart env mans pool ?P"
    and pool: "mans pool = Some cdm" "HTPolicy (configured_pool env pool) \<noteq> MultiThreadHTPolicy"
    using node by (simp_all add: exclusive_node_def)
  have env: "ch_cpuset ?e = ch_cpuset env" "ch_addHT ?e = ch_addHT env" "ch_htMap ?e = ch_htMap env"
    "ch_poolConfig ?e = ch_poolConfig env"
    by (simp_all add: node_env_def)
  note ht = apart [unfolded others_apart_def, THEN conjunct2, THEN conjunct2, THEN conjunct1, rule_format]
  have zero: "cs_elems (ch_cpuset env) (cs_zero (ch_cpuset env)) = {}" by (rule cpuset_lib.elems_zero [OF lib])
  have name: "pool_of_resource (pool_resource q) = Ok q" if "mans q = Some m" for q m
    unfolding pool_resource_def by (rule pool_of_resource_ok) (use wf that in \<open>auto simp: managers_wf_def\<close>)
  have disj: "cs_elems (ch_cpuset env) s \<inter> ?P = {} \<or> r = pool_resource pool \<and> cs_elems (ch_cpuset env) s = ?D"
    if s: "getListOfAllocatedExclusiveCpus ?e r pod c = Ok s" and k: "exclusive_res r \<or> cloudphone_res r" for s
  proof (cases "r \<in> pool_resource ` dom mans")
    case True
    then obtain q m where q: "r = pool_resource q" "mans q = Some m" by blast
    with managed_set [OF node inv q(2)] s apart show ?thesis by (fastforce simp: others_apart_def)
  next
    case False
    from getList_empty [OF node unmanaged_ids [OF node inv k False]] s zero show ?thesis by simp
  qed
  have "cs_elems (ch_cpuset env) x \<inter> ?P \<subseteq> ?D" if r: "exclusive_res r" and x: "exclusive_set ?e pod c r = Ok x" for x
  proof -
    obtain s n where s: "getListOfAllocatedExclusiveCpus ?e r pod c = Ok s" "pool_of_resource r = Ok n"
      "x = (if HTPolicy (configured_pool env n) = MultiThreadHTPolicy then ch_addHT env s (ch_htMap env) else s)"
      using x by (auto simp: exclusive_set_def and_then_Ok_iff env configured_pool_def)
    from disj [OF s(1) disjI1 [OF r]] show ?thesis
    proof
      assume "cs_elems (ch_cpuset env) s \<inter> ?P = {}"
      with ht [of s] s(3) show ?thesis by auto
    next
      assume p: "r = pool_resource pool \<and> cs_elems (ch_cpuset env) s = ?D"
      with name [OF pool(1)] s(2) have "n = pool" by simp
      with p pool(2) s(3) show ?thesis by simp
    qed
  qed
  moreover have "cs_elems (ch_cpuset env) b \<inter> ?P \<subseteq> ?D"
    if r: "cloudphone_res r" and s: "getListOfAllocatedExclusiveCpus ?e r pod c = Ok s" "pool_of_resource r = Ok n"
      "cloudphone_sets ?e n s = Ok (a, b)" for s n a b
  proof (cases "r \<in> pool_resource ` dom mans")
    case True
    then obtain q m where q: "r = pool_resource q" "mans q = Some m" by blast
    with name s(2) have "n = q" by auto
    then obtain idx where "b = node_cores (ch_cpuset env) idx (cs_New (ch_cpuset env) []) (CoreMap (configured_pool env q))"
      using s(3) by (auto simp: cloudphone_sets_def Let_def env configured_pool_def split: if_splits list.splits)
    then have "cs_elems (ch_cpuset env) b \<subseteq> t_Core ` snd ` set (CoreMap (configured_pool env q))"
      by (force simp: node_cores_elems [OF lib] cpuset_lib.elems_New [OF lib])
    moreover have "t_Core ` snd ` set (CoreMap (configured_pool env q)) \<inter> ?P = {}"
      using apart q r unfolding others_apart_def by blast
    ultimately show ?thesis by blast
  next
    case False
    from getList_empty [OF node unmanaged_ids [OF node inv _ False]] r s(1) have "s = cs_zero (ch_cpuset env)" by simp
    with s(3) zero show ?thesis by (simp add: cloudphone_sets_def env cpuset_lib.IsEmpty_iff [OF lib])
  qed
  ultimately show ?thesis unfolding resource_within_def env(1) by blast
qed

text \<open>The choice of cpusetter stays within the devices of the container, as far as the pool is concerned.\<close>

lemma choice_within_devices:
  assumes node: "exclusive_node env enc mans pool cdm" and inv: "node_inv env mans pool cdm nd"
    and choice: "determineCorrectCpuset (node_env env enc nd) pod c = Ok (cfg, realSet)"
  shows "cs_elems (ch_cpuset env) realSet \<inter> pool_cpus env cdm \<subseteq>
    device_cpus env (key_ids pool (nd_entries nd) (p_UID pod, c_Name c))"
proof -
  have env: "ch_cpuset (node_env env enc nd) = ch_cpuset env" "ch_poolConfig (node_env env enc nd) = ch_poolConfig env"
    by (simp_all add: node_env_def)
  have "cpuset_lib (ch_cpuset env)" "configured_cpus env SharedPoolID \<inter> pool_cpus env cdm = {}"
    "configured_cpus env DefaultPoolID \<inter> pool_cpus env cdm = {}"
    using node by (simp_all add: exclusive_node_def others_apart_def)
  then show ?thesis
    using choice_within [of "node_env env enc nd" "pool_cpus env cdm"
        "device_cpus env (key_ids pool (nd_entries nd) (p_UID pod, c_Name c))" c pod cfg realSet]
      requests_within [OF node inv, of pod c] choice
    by (simp add: env configured_cpus_def configured_pool_def)
qed

section \<open>The invariant\<close>

lemma node_inv_empty: "node_inv env mans pool cdm empty_node"
  by (simp add: node_inv_def empty_node_def in_use_def key_ids_def)

lemma node_step_inv:
  assumes node: "exclusive_node env enc mans pool cdm" and step: "node_step env enc mans nd nd'"
    and inv: "node_inv env mans pool cdm nd"
  shows "node_inv env mans pool cdm nd'"
  using step
proof cases
  case (allocate q m e)
  have disj: "q = pool \<Longrightarrow> set (DeviceIDs e) \<inter> set (key_ids pool (nd_entries nd) k) = {}" for k
    using allocate(5) key_ids_in_use [of pool "nd_entries nd" k] by blast
  have grows: "device_cpus env (key_ids pool (nd_entries nd) k) \<subseteq> device_cpus env (key_ids pool (nd_entries nd @ [e]) k)" for k
    by (rule device_cpus_mono) (simp add: key_ids_append)
  show ?thesis
  proof (rule node_invI)
    fix q' m' assume "mans q' = Some m'"
    with node_invD(1) [OF inv this] allocate(1-4)
    show "in_use (pool_resource q') (nd_entries nd') \<subseteq> advertised env m'" by (auto simp: in_use_append)
  next
    fix e' assume "e' \<in> set (nd_entries nd')"
    with node_invD(2) [OF inv, of e'] allocate(1-3)
    show "unmanaged mans (ResourceName e') \<or> ResourceName e' \<in> pool_resource ` dom mans" by auto
  next
    fix k k' :: container_key assume "k \<noteq> k'"
    with node_invD(3) [OF inv this] disj [of k] disj [of k'] allocate(3)
    show "set (key_ids pool (nd_entries nd') k) \<inter> set (key_ids pool (nd_entries nd') k') = {}"
      unfolding allocate(1) by (auto simp: key_ids_append)
  next
    fix k s assume "nd_pinned nd' k = Some s"
    with node_invD(4) [OF inv, of k s] grows [of k]
    show "cs_elems (ch_cpuset env) s \<inter> pool_cpus env cdm \<subseteq> device_cpus env (key_ids pool (nd_entries nd') k)"
      unfolding allocate(1) by simp
  qed
next
  case (allocate_other e)
  have "ResourceName e \<noteq> pool_resource q" if "mans q = Some m" for q m
    using allocate_other(2) that by (auto simp: unmanaged_def)
  moreover have "ResourceName e \<noteq> pool_resource pool" using calculation node by (simp add: exclusive_node_def)
  moreover have "unmanaged mans (ResourceName x) \<or> ResourceName x \<in> pool_resource ` dom mans" if "x \<in> set (nd_entries nd')" for x
    using node_invD(2) [OF inv, of x] allocate_other that by auto
  ultimately show ?thesis
    using node_invD(1) [OF inv] node_invD(3) [OF inv] node_invD(4) [OF inv] unfolding allocate_other(1)
    by (intro node_invI) (simp_all add: in_use_append key_ids_append)
next
  case (pin pod c cfgSet realSet)
  then show ?thesis
    using node_invD(1-3) [OF inv] node_invD(4) [OF inv] choice_within_devices [OF node inv pin(2)]
    by (intro node_invI) (auto split: if_splits)
next
  case (restart k)
  then show ?thesis using node_invD(1-3) [OF inv] node_invD(4) [OF inv] by (intro node_invI) (auto split: if_splits)
next
  case (finish K)
  have "in_use (pool_resource q) (nd_entries nd') \<subseteq> in_use (pool_resource q) (nd_entries nd)" for q
    unfolding finish by (simp add: in_use_filter)
  then have "in_use (pool_resource q) (nd_entries nd') \<subseteq> advertised env m" if "mans q = Some m" for q m
    using node_invD(1) [OF inv that] by blast
  moreover have "unmanaged mans (ResourceName x) \<or> ResourceName x \<in> pool_resource ` dom mans" if "x \<in> set (nd_entries nd')" for x
    using node_invD(2) [OF inv, of x] finish that by auto
  ultimately show ?thesis
    using node_invD(3) [OF inv] node_invD(4) [OF inv] finish
    by (intro node_invI) (auto simp: key_ids_filter split: if_splits)
qed

lemma node_reachable_inv:
  assumes "exclusive_node env enc mans pool cdm" "node_reachable env enc mans nd"
  shows "node_inv env mans pool cdm nd"
  using assms(2) by (induction rule: rtranclp_induct) (auto intro: node_inv_empty node_step_inv [OF assms(1)])

section \<open>Refinement\<close>

definition owned :: "'s choice_env \<Rightarrow> ('s, 'w) cdm \<Rightarrow> 's node_state \<Rightarrow> container_key \<Rightarrow> int set" where
  "owned env cdm nd k = (case nd_pinned nd k of None \<Rightarrow> {} | Some s \<Rightarrow> cs_elems (ch_cpuset env) s \<inter> pool_cpus env cdm)"

lemma owned_unchanged: "owner_step P own own"
  using owner_step.drop_all [of P own "{}"] by simp

lemma node_step_owner:
  assumes node: "exclusive_node env enc mans pool cdm" and step: "node_step env enc mans nd nd'"
    and inv: "node_inv env mans pool cdm nd"
  shows "owner_step (pool_cpus env cdm) (owned env cdm nd) (owned env cdm nd')"
  using step
proof cases
  case (pin pod c cfgSet realSet)
  let ?k = "(p_UID pod, c_Name c)"
  let ?S = "cs_elems (ch_cpuset env) realSet \<inter> pool_cpus env cdm"
  have S: "?S \<subseteq> device_cpus env (key_ids pool (nd_entries nd) ?k)" by (rule choice_within_devices [OF node inv pin(2)])
  have cdm: "mans pool = Some cdm" using node by (simp add: exclusive_node_def)
  have "owned env cdm nd k' \<inter> ?S = {}" if "k' \<noteq> ?k" for k'
  proof -
    have "owned env cdm nd k' \<subseteq> device_cpus env (key_ids pool (nd_entries nd) k')"
      using node_invD(4) [OF inv, of k'] by (simp add: owned_def split: option.splits)
    moreover have "device_cpus env (key_ids pool (nd_entries nd) k') \<inter> device_cpus env (key_ids pool (nd_entries nd) ?k) = {}"
    proof (rule device_cpus_disjoint [OF node])
      show "set (key_ids pool (nd_entries nd) k') \<inter> set (key_ids pool (nd_entries nd) ?k) = {}"
        by (rule node_invD(3) [OF inv that])
    qed (use node_invD(1) [OF inv cdm] key_ids_in_use in blast)+
    ultimately show ?thesis using S by blast
  qed
  then have "owner_step (pool_cpus env cdm) (owned env cdm nd) ((owned env cdm nd)(?k := ?S))"
    by (intro owner_step.claim) auto
  moreover have "owned env cdm nd' = (owned env cdm nd)(?k := ?S)" using pin(1) by (auto simp: owned_def fun_eq_iff)
  ultimately show ?thesis by simp
next
  case (restart k)
  have "owned env cdm nd' = (\<lambda>k'. if k' \<in> {k} then {} else owned env cdm nd k')"
    using restart by (auto simp: owned_def fun_eq_iff)
  then show ?thesis by (simp only: owner_step.drop_all)
next
  case (finish K)
  have "owned env cdm nd' = (\<lambda>k'. if k' \<in> K then {} else owned env cdm nd k')"
    using finish by (auto simp: owned_def fun_eq_iff)
  then show ?thesis by (simp only: owner_step.drop_all)
qed (simp_all add: owned_def [abs_def] owned_unchanged)

lemma node_owner_steps:
  assumes "exclusive_node env enc mans pool cdm" "node_reachable env enc mans nd"
  shows "(owner_step (pool_cpus env cdm))\<^sup>*\<^sup>* (\<lambda>k. {}) (owned env cdm nd)"
  using assms(2)
proof (induction rule: rtranclp_induct)
  case base
  have "owned env cdm empty_node = (\<lambda>k. {})" by (simp add: owned_def empty_node_def fun_eq_iff)
  then show ?case by simp
next
  case (step nd nd')
  from node_step_owner [OF assms(1) step(2) node_reachable_inv [OF assms(1) step(1)]] step.IH show ?case by simp
qed

text \<open>C3: Refinement: every step of the node, from any reachable state, is a step of the ownership
  specification. Allocations, restarts and ends of containers never give a CPU of the pool to
  anybody; the choice of cpusetter, for a container with whatever requests, claims for it only CPUs that
  no other container's set has.\<close>

theorem node_refines_ownership:
  assumes "exclusive_node env enc mans pool cdm" "node_reachable env enc mans nd" "node_step env enc mans nd nd'"
  shows "owner_step (pool_cpus env cdm) (owned env cdm nd) (owned env cdm nd')"
  using node_step_owner [OF assms(1,3) node_reachable_inv [OF assms(1,2)]] .

text \<open>C2: Safety over the life of a node whose pools are apart: whatever is allocated, pinned, restarted and ended
  in whatever order, no CPU of an exclusive pool that is not overcommitted and single-threaded is in two of the sets
  that cpusetter has set, whatever the containers requested: resources of this pool, of other exclusive
  pools, of cloudphone pools, of the shared pool, of several of them or of none.\<close>

theorem exclusive_cpus_private:
  assumes "exclusive_node env enc mans pool cdm" "node_reachable env enc mans nd"
    and "nd_pinned nd k = Some s" "nd_pinned nd k' = Some s'" "k \<noteq> k'"
  shows "cs_elems (ch_cpuset env) s \<inter> cs_elems (ch_cpuset env) s' \<inter> pool_cpus env cdm = {}"
proof -
  have "exclusive_owners (pool_cpus env cdm) (owned env cdm nd)"
    using owner_steps_exclusive [OF node_owner_steps [OF assms(1,2)]] by (simp add: exclusive_owners_def)
  then have "owned env cdm nd k \<inter> owned env cdm nd k' = {}" using assms(5) unfolding exclusive_owners_def by blast
  with assms(3,4) show ?thesis by (auto simp: owned_def)
qed

section \<open>Example\<close>

text \<open>Two containers with one device each of a pool with the CPUs 4 and 5, and one with a device of a cloudphone pool
  with the CPUs 6 and 7, recorded in the format of Kubernetes 1.21.\<close>

definition numa_codec :: "pod_devices_entry list \<Rightarrow> cp_env" where
  "numa_codec es =
     \<lparr>cp_read = Ok [], cp_unmarshal_old = (\<lambda>b. Err []),
      cp_unmarshal_new = (\<lambda>b. Ok \<lparr>n_PodDeviceEntries = map (\<lambda>e. \<lparr>n_PodUID = PodUID e, n_ContainerName = ContainerName e,
        n_ResourceName = ResourceName e, n_DeviceIDs = [(0, DeviceIDs e)]\<rparr>) es\<rparr>)\<rparr>"

lemma numa_codec_read: "read_checkpoint (numa_codec es) = Ok \<lparr>PodDeviceEntries = es\<rparr>"
proof -
  have "TranslateNewCheckpointToOld nf = \<lparr>PodDeviceEntries = map flatten_entry (n_PodDeviceEntries nf)\<rparr>" for nf
    by (rule cp_file.equality) (simp_all add: Translate_eq_map)
  moreover have "map (\<lambda>e. \<lparr>PodUID = PodUID e, ContainerName = ContainerName e, ResourceName = ResourceName e,
      DeviceIDs = DeviceIDs e\<rparr>) es = es"
    by (rule map_idI) simp
  ultimately show ?thesis by (simp add: read_checkpoint_def numa_codec_def flatten_entry_def comp_def)
qed

definition node_demo_env :: "int list choice_env" where
  "node_demo_env = demo_choice\<lparr>ch_numOfCpus := 8, ch_poolConfig := demo_choice_config\<lparr>Pools :=
     [named_pool ''shared'' [0, 1], named_pool ''exclusive_a'' [4, 5],
      (''cloudphone'', (snd (named_pool ''cloudphone'' [6, 7]))\<lparr>CoreMap := [topo 6 1, topo 7 1]\<rparr>),
      named_pool ''default'' [2, 3]]\<rparr>\<rparr>"

definition phone_cdm :: "(int list, unit) cdm" where
  "phone_cdm = example_cdm1\<lparr>cdm_pool := (cdm_pool example_cdm1)\<lparr>CPUset := [6, 7]\<rparr>, poolType := ''cloudphone''\<rparr>"

definition demo_managers :: "(int list, unit) managers" where
  "demo_managers = [''exclusive_a'' \<mapsto> example_cdm1, ''cloudphone'' \<mapsto> phone_cdm]"

definition private_entry :: "string \<Rightarrow> string \<Rightarrow> string \<Rightarrow> pod_devices_entry" where
  "private_entry uid pool i = \<lparr>PodUID = uid, ContainerName = ''c'', ResourceName = pool_resource pool, DeviceIDs = [i]\<rparr>"

definition demo_entries :: "pod_devices_entry list" where
  "demo_entries = [private_entry ''uid'' ''exclusive_a'' ''4'', private_entry ''other'' ''exclusive_a'' ''5'',
     private_entry ''phone'' ''cloudphone'' ''6'']"

definition node_with :: "(string \<times> int list) list \<Rightarrow> int list node_state" where
  "node_with ps = \<lparr>nd_entries = demo_entries, nd_pinned = map_of (map (\<lambda>(u, s). ((u, ''c''), s)) ps)\<rparr>"

abbreviation mixed_container :: container where
  "mixed_container \<equiv> requesting [''cpu'', ''bonc.k8s.io/exclusive_a'', ''bonc.k8s.io/shared'']"

abbreviation phone_container :: container where
  "phone_container \<equiv> requesting [''bonc.k8s.io/cloudphone'']"

lemma demo_exclusive_node: "exclusive_node node_demo_env numa_codec demo_managers ''exclusive_a'' example_cdm1"
proof -
  have cs: "ch_cpuset node_demo_env = ref_cpuset" by (simp add: node_demo_env_def demo_choice_def)
  have pools: "pool_cpus node_demo_env example_cdm1 = {4, 5}" "pool_cpus node_demo_env phone_cdm = {6, 7}"
    "configured_cpus node_demo_env SharedPoolID = {0, 1}" "configured_cpus node_demo_env DefaultPoolID = {2, 3}"
    "t_Core ` snd ` set (CoreMap (configured_pool node_demo_env ''cloudphone'')) = {6, 7}"
    "HTPolicy (configured_pool node_demo_env ''exclusive_a'') \<noteq> MultiThreadHTPolicy"
    "exclusive_res (pool_resource ''exclusive_a'')" "\<not> cloudphone_res (pool_resource ''exclusive_a'')"
    by code_simp+
  have man: "demo_managers q = Some m \<longleftrightarrow> q = ''exclusive_a'' \<and> m = example_cdm1 \<or> q = ''cloudphone'' \<and> m = phone_cdm" for q m
    by (auto simp: demo_managers_def split: if_splits)
  have m: "cdm_wf ref_cpuset phone_cdm" "poolType phone_cdm = ''cloudphone''" "numCPU phone_cdm = 8"
    "poolType example_cdm1 = ''exclusive''" "numCPU example_cdm1 = 8" "Overcommitment (cdm_pool example_cdm1) \<le> 1"
    by (simp_all add: phone_cdm_def example_cdm1_def example_cdm_def cdm_wf_def effective_overcommitment_def)
  have e: "ch_numOfCpus node_demo_env = 8" "ch_addHT node_demo_env s h = s" for s h
    by (simp_all add: node_demo_env_def demo_choice_def)
  have wf: "managers_wf node_demo_env demo_managers"
    using example_cdm1_wf m e(1) unfolding managers_wf_def man by (auto simp: cs)
  have "\<forall>q m. demo_managers q = Some m \<and> q \<noteq> ''exclusive_a'' \<longrightarrow> pool_cpus node_demo_env m \<inter> {4, 5} = {}"
    by (auto simp: man pools(2))
  moreover have "t_Core ` snd ` set (CoreMap (configured_pool node_demo_env q)) \<inter> {4, 5} = {}"
    if "demo_managers q = Some m \<and> cloudphone_res (pool_resource q)" for q m
  proof -
    have "q = ''cloudphone''" using that pools(8) man by auto
    then show ?thesis by (simp only: pools(5)) simp
  qed
  ultimately have "others_apart node_demo_env demo_managers ''exclusive_a'' {4, 5}"
    unfolding others_apart_def pools(3,4) e(2) by (intro conjI) (blast, blast, blast, simp, simp)
  with wf show ?thesis
    unfolding exclusive_node_def pools(1)
    using ref.cpuset_lib_axioms numa_codec_read pools(6,7) m(6) by (simp add: cs man)
qed

text \<open>The three allocations.\<close>

lemma demo_allocations:
  "node_reachable node_demo_env numa_codec demo_managers (node_with [])"
proof -
  let ?step = "node_step node_demo_env numa_codec demo_managers"
  define n where "n k = \<lparr>nd_entries = take k demo_entries, nd_pinned = Map.empty :: container_key \<rightharpoonup> int list\<rparr>" for k
  have adv: "advertised node_demo_env example_cdm1 = {''4'', ''5''}" "advertised node_demo_env phone_cdm = {''6'', ''7''}" by code_simp+
  have mans: "demo_managers ''exclusive_a'' = Some example_cdm1" "demo_managers ''cloudphone'' = Some phone_cdm"
    by (simp_all add: demo_managers_def)
  have "?step (n 0) ((n 0)\<lparr>nd_entries := nd_entries (n 0) @ [private_entry ''uid'' ''exclusive_a'' ''4'']\<rparr>)"
    by (rule node_step.allocate [where q = "''exclusive_a''" and m = example_cdm1]) (simp_all add: mans adv n_def private_entry_def in_use_def)
  moreover have "?step (n 1) ((n 1)\<lparr>nd_entries := nd_entries (n 1) @ [private_entry ''other'' ''exclusive_a'' ''5'']\<rparr>)"
    by (rule node_step.allocate [where q = "''exclusive_a''" and m = example_cdm1]) (simp_all add: mans adv n_def demo_entries_def private_entry_def in_use_def)
  moreover have "?step (n 2) ((n 2)\<lparr>nd_entries := nd_entries (n 2) @ [private_entry ''phone'' ''cloudphone'' ''6'']\<rparr>)"
    by (rule node_step.allocate [where q = "''cloudphone''" and m = phone_cdm]) (simp_all add: mans adv n_def demo_entries_def private_entry_def in_use_def)
  ultimately have "?step (n 0) (n 1)" "?step (n 1) (n 2)" "?step (n 2) (n 3)"
    by (simp_all add: n_def demo_entries_def numeral_2_eq_2 numeral_3_eq_3)
  moreover have "n 0 = empty_node" "n 3 = node_with []"
    by (simp_all add: n_def demo_entries_def empty_node_def node_with_def numeral_3_eq_3)
  ultimately show ?thesis by (metis rtranclp.rtrancl_refl rtranclp.rtrancl_into_rtrancl)
qed

text \<open>Three choices of cpusetter.\<close>

lemma demo_choices:
  "determineCorrectCpuset (node_env node_demo_env numa_codec (node_with ps)) (choice_pod []) mixed_container = Ok ([0, 1, 4], [0, 1, 4])"
  "determineCorrectCpuset (node_env node_demo_env numa_codec (node_with ps)) ((choice_pod [])\<lparr>p_UID := ''other''\<rparr>) mixed_container =
     Ok ([0, 1, 5], [0, 1, 5])"
  "determineCorrectCpuset (node_env node_demo_env numa_codec (node_with ps)) ((choice_pod [])\<lparr>p_UID := ''phone''\<rparr>) phone_container =
     Ok ([6], [6, 6, 7])"
  by code_simp+

lemma demo_pin:
  assumes "determineCorrectCpuset (node_env node_demo_env numa_codec (node_with ps)) pod c = Ok (a, b)" "c_Name c = ''c''"
  shows "node_step node_demo_env numa_codec demo_managers (node_with ps) (node_with ((p_UID pod, b) # ps))"
  using node_step.pin [OF assms(1), of demo_managers] assms(2) by (simp add: node_with_def)

lemma demo_node_steps:
  "node_step node_demo_env numa_codec demo_managers (node_with []) (node_with [(''uid'', [0, 1, 4])])"
  "node_step node_demo_env numa_codec demo_managers (node_with [(''uid'', [0, 1, 4])])
     (node_with [(''other'', [0, 1, 5]), (''uid'', [0, 1, 4])])"
  "node_step node_demo_env numa_codec demo_managers (node_with [(''other'', [0, 1, 5]), (''uid'', [0, 1, 4])])
     (node_with [(''phone'', [6, 6, 7]), (''other'', [0, 1, 5]), (''uid'', [0, 1, 4])])"
proof -
  have c: "p_UID (choice_pod []) = ''uid''" "c_Name mixed_container = ''c''" "c_Name phone_container = ''c''"
    by (simp_all add: choice_pod_def requesting_def)
  show "node_step node_demo_env numa_codec demo_managers (node_with []) (node_with [(''uid'', [0, 1, 4])])"
    using demo_pin [OF demo_choices(1) c(2), of "[]"] c(1) by simp
  show "node_step node_demo_env numa_codec demo_managers (node_with [(''uid'', [0, 1, 4])])
     (node_with [(''other'', [0, 1, 5]), (''uid'', [0, 1, 4])])"
    using demo_pin [OF demo_choices(2) c(2), of "[(''uid'', [0, 1, 4])]"] by simp
  show "node_step node_demo_env numa_codec demo_managers (node_with [(''other'', [0, 1, 5]), (''uid'', [0, 1, 4])])
     (node_with [(''phone'', [6, 6, 7]), (''other'', [0, 1, 5]), (''uid'', [0, 1, 4])])"
    using demo_pin [OF demo_choices(3) c(3), of "[(''other'', [0, 1, 5]), (''uid'', [0, 1, 4])]"] by simp
qed

lemma demo_reachable_node:
  "node_reachable node_demo_env numa_codec demo_managers (node_with [(''phone'', [6, 6, 7]), (''other'', [0, 1, 5]), (''uid'', [0, 1, 4])])"
  using demo_allocations demo_node_steps by (meson rtranclp.rtrancl_into_rtrancl)

theorem node_refines_ownership_witness:
  "owner_step {4, 5} (owned node_demo_env example_cdm1 (node_with []))
     (owned node_demo_env example_cdm1 (node_with [(''uid'', [0, 1, 4])]))"
proof -
  have "pool_cpus node_demo_env example_cdm1 = {4, 5}" by code_simp
  with node_refines_ownership [OF demo_exclusive_node demo_allocations demo_node_steps(1)] show ?thesis by simp
qed

theorem exclusive_cpus_private_witness:
  "\<exists>nd. node_reachable node_demo_env numa_codec demo_managers nd \<and> nd_pinned nd (''uid'', ''c'') = Some [0, 1, 4] \<and>
     nd_pinned nd (''other'', ''c'') = Some [0, 1, 5] \<and> nd_pinned nd (''phone'', ''c'') = Some [6, 6, 7] \<and>
     {0, 1, 4} \<inter> {0, 1, 5} \<inter> {4, 5 :: int} = {}"
proof -
  let ?nd = "node_with [(''phone'', [6, 6, 7]), (''other'', [0, 1, 5]), (''uid'', [0, 1, 4])]"
  have p: "nd_pinned ?nd (''uid'', ''c'') = Some [0, 1, 4]" "nd_pinned ?nd (''other'', ''c'') = Some [0, 1, 5]"
    "nd_pinned ?nd (''phone'', ''c'') = Some [6, 6, 7]"
    by (simp_all add: node_with_def)
  have "pool_cpus node_demo_env example_cdm1 = {4, 5}" "cs_elems (ch_cpuset node_demo_env) xs = set xs" for xs
    by code_simp (simp add: node_demo_env_def demo_choice_def)
  with exclusive_cpus_private [OF demo_exclusive_node demo_reachable_node p(1,2)]
  have "{0, 1, 4} \<inter> {0, 1, 5} \<inter> {4, 5 :: int} = {}" by simp
  with p demo_reachable_node show ?thesis by blast
qed

end
