(* ===== verification/Handler_Frame.thy ===== *)
theory Handler_Frame
  imports Set_Handler
begin

text \<open>
  Which files cpusetter touches. Handling a pod changes only \<^verbatim>\<open>cpuset.cpus\<close> files below the cpuset root
  and files in the CPU directory of that pod; the reconciliation changes only the CPU directories of
  the kubelet's pods, and the \<^verbatim>\<open>cpuset.cpus\<close> of leaves that belong to one of their containers and hold
  all CPUs of the machine. The lemmas follow the call structure of \<^verbatim>\<open>pkg/sethandler/controller.go\<close>
  bottom up, over the relation \<open>unchanged_outside\<close> between the trees before and after a call.
\<close>

section \<open>Regions of the tree\<close>

definition below :: "path \<Rightarrow> path set" where
  "below p = range (\<lambda>q. p @ q)"

definition cpuset_files :: "path \<Rightarrow> path set" where
  "cpuset_files p = range (\<lambda>q. p @ q @ [''cpuset.cpus''])"

definition unchanged_outside :: "path set \<Rightarrow> node \<Rightarrow> node \<Rightarrow> bool" where
  "unchanged_outside A fs fs' \<longleftrightarrow> (\<forall>f. f \<notin> A \<longrightarrow> read_file fs' f = read_file fs f)"

lemma unchanged_refl [simp]: "unchanged_outside A fs fs"
  by (simp add: unchanged_outside_def)

lemma unchanged_trans [trans]:
  "unchanged_outside A fs fs1 \<Longrightarrow> unchanged_outside A fs1 fs2 \<Longrightarrow> unchanged_outside A fs fs2"
  by (simp add: unchanged_outside_def)

lemma unchanged_mono: "unchanged_outside A fs fs' \<Longrightarrow> A \<subseteq> B \<Longrightarrow> unchanged_outside B fs fs'"
  by (auto simp: unchanged_outside_def)

lemma below_append: "below (p @ q) \<subseteq> below p"
  by (auto simp: below_def)

lemma mem_below [simp]: "p @ q \<in> below p"
  by (simp add: below_def)

lemma below_Cons [simp]: "[] \<in> below p \<longleftrightarrow> p = []" "m # q \<in> below (n # p) \<longleftrightarrow> m = n \<and> q \<in> below p" "q \<in> below []"
  by (auto simp: below_def)

lemma unchanged_os_write: "os_write env fs p c = Some fs' \<Longrightarrow> p \<in> A \<Longrightarrow> unchanged_outside A fs fs'"
  unfolding unchanged_outside_def using cgroup.rd_wr_other by metis

lemma unchanged_write_files:
  "write_files env fs ws = (fs', e) \<Longrightarrow> fst ` set ws \<subseteq> A \<Longrightarrow> unchanged_outside A fs fs'"
proof (induction env fs ws rule: write_files.induct)
  case (2 env fs p c ws)
  show ?case
  proof (cases "os_write env fs p c")
    case (Some fs1)
    with 2 have "unchanged_outside A fs1 fs'" by simp
    with 2(3) unchanged_os_write [OF Some, of A] show ?thesis by (auto intro: unchanged_trans)
  qed (use 2 in auto)
qed simp

lemma unchanged_mkdir_all: "mkdir_all t p = Some t' \<Longrightarrow> unchanged_outside A t t'"
proof -
  have "mkdir_all t p = Some t' \<Longrightarrow> read_file t' f = read_file t f" for f
  proof (induction t p arbitrary: t' f rule: mkdir_all.induct)
    case (3 es n p)
    then obtain u where u: "mkdir_all (case map_of es n of None \<Rightarrow> Dir [] | Some t \<Rightarrow> t) p = Some u"
      "t' = Dir (put_entry n u es)" by auto
    have "read_file u g = read_file (case map_of es n of None \<Rightarrow> Dir [] | Some t \<Rightarrow> t) g" for g
      using 3(1) [OF u(1)] .
    moreover have "read_file (Dir []) g = None" for g by (cases g) simp_all
    ultimately show ?case unfolding u(2) by (cases f) (auto split: option.splits)
  qed auto
  then show "mkdir_all t p = Some t' \<Longrightarrow> unchanged_outside A t t'" by (simp add: unchanged_outside_def)
qed

lemma unchanged_set_node: "unchanged_outside (below p) t (set_node t p u)"
proof -
  have "f \<notin> below p \<Longrightarrow> read_file (set_node t p u) f = read_file t f" for f
  proof (induction t p u arbitrary: f rule: set_node.induct)
    case (3 es n p u)
    then show ?case by (cases f) (auto split: option.splits)
  qed auto
  then show ?thesis by (simp add: unchanged_outside_def)
qed

section \<open>Where the walks lead\<close>

text \<open>A walk calls its function with paths below its root only.\<close>

lemma walk_inv:
  "(\<And>s q d e. q \<in> below root \<Longrightarrow> I s \<Longrightarrow> I (fst (fn s q d e))) \<Longrightarrow> p \<in> below root \<Longrightarrow> I s \<Longrightarrow>
     I (fst (walk_node bad fn s p t))"
  "(\<And>s q d e. q \<in> below root \<Longrightarrow> I s \<Longrightarrow> I (fst (fn s q d e))) \<Longrightarrow> p \<in> below root \<Longrightarrow> I s \<Longrightarrow>
     I (fst (walk_entries bad fn s p es))"
proof (induction bad fn s p t and bad fn s p es rule: walk_node_walk_entries.induct)
  case (2 bad fn s p es)
  obtain s1 r where f: "fn s p True (bad p) = (s1, r)" by fastforce
  have "I s1" using 2(2) [OF 2(3,4), of True "bad p"] f by simp
  with 2(1) [OF f [symmetric] _ 2(2,3)] f show ?case by simp
next
  case (4 bad fn s p n t es)
  obtain s1 r where w: "walk_node bad fn s (p @ [n]) t = (s1, r)" by fastforce
  have "p @ [n] \<in> below root" using 4(4) by (auto simp: below_def)
  from 4(1) [OF 4(3) this 4(5)] w have "I s1" by simp
  with 4(2) [OF w [symmetric] _ 4(3,4)] w show ?case by simp
qed simp_all

lemma Walk_inv:
  assumes "\<And>s q d e. q \<in> below root \<Longrightarrow> I s \<Longrightarrow> I (fst (fn s q d e))" "I s"
  shows "I (fst (Walk bad fn s fs root))"
proof -
  have r: "root \<in> below root" using mem_below [of root "[]"] by simp
  have "I (fst (fn s root False True))" by (rule assms(1) [OF r assms(2)])
  moreover have "I (fst (walk_node bad fn s root t))" for t
    using assms(1) r assms(2) by (rule walk_inv(1))
  ultimately show ?thesis by (simp add: Walk_def case_prod_unfold split: option.split)
qed

lemma Walk_find_below:
  assumes "Walk bad (find_fn m) None fs root = (Some p, e)"
  shows "p \<in> below root \<and> m p"
proof -
  have "case fst (Walk bad (find_fn m) None fs root) of None \<Rightarrow> True | Some p \<Rightarrow> p \<in> below root \<and> m p"
    by (rule Walk_inv) (auto simp: find_fn_def split: option.splits)
  then show ?thesis unfolding assms by simp
qed

lemma Walk_last_below: "Walk bad last_fn p fs p = (q, e) \<Longrightarrow> q \<in> below p"
proof -
  have "fst (Walk bad last_fn p fs p) \<in> below p"
    by (rule Walk_inv) (use mem_below [of p "[]"] in \<open>auto simp: last_fn_def\<close>)
  then show "Walk bad last_fn p fs p = (q, e) \<Longrightarrow> q \<in> below p" by simp
qed

section \<open>The writes of one container\<close>

text \<open>A container path: nothing, when no cpuset was to be set, or strictly below the root.\<close>

definition container_path :: "path \<Rightarrow> path \<Rightarrow> bool" where
  "container_path root p \<longleftrightarrow> p = [] \<or> (p \<in> below root \<and> p \<noteq> root)"

lemma touched_applyCpuset:
  assumes "applyCpusetToContainer env fs cid s = (fs', res)" "\<not> has_id cid (se_cpusetRoot env)"
  shows "unchanged_outside (cpuset_files (se_cpusetRoot env)) fs fs' \<and> (\<forall>p. res = Inr p \<longrightarrow> container_path (se_cpusetRoot env) p)"
proof (cases "\<exists>p q. res = Inr p \<and> \<not> cs_IsEmpty (se_cs env) s")
  case False
  then have "fs' = fs" "\<forall>p. res = Inr p \<longrightarrow> p = []"
    using assms(1) applyCpusetToContainer_frame [of env fs cid s fs'] by (cases res; auto simp: applyCpusetToContainer_def)+
  then show ?thesis by (auto simp: container_path_def)
next
  case True
  then obtain p q where p: "Walk (se_bad env) (find_fn (has_id cid)) None fs (se_cpusetRoot env) = (Some p, False)"
    "Walk (se_bad env) last_fn p fs p = (q, False)" "res = Inr p"
    "os_write env fs (q @ [''cpuset.cpus'']) (cs_String (se_cs env) s) = Some fs'"
    using assms(1) by (auto simp: applyCpusetToContainer_def split: prod.splits option.splits bool.splits)
  from Walk_find_below [OF p(1)] have in_root: "p \<in> below (se_cpusetRoot env)" "has_id cid p" by simp_all
  then have "q @ [''cpuset.cpus''] \<in> cpuset_files (se_cpusetRoot env)"
    using Walk_last_below [OF p(2)] by (auto simp: below_def cpuset_files_def)
  with unchanged_os_write [OF p(4)] in_root assms(2) p(3) show ?thesis by (auto simp: container_path_def)
qed

lemma infra_loop_entry:
  "infra_loop sts dir found es = Some p \<Longrightarrow> found = Some p \<or> (\<exists>n. p = dir @ [n])"
  by (induction sts dir found es rule: infra_loop.induct) (auto split: if_splits)

lemma touched_applyInfra:
  assumes "applyCpusetToInfraContainer env fs pod p = (fs', e)" "container_path (se_cpusetRoot env) p"
  shows "unchanged_outside (cpuset_files (se_cpusetRoot env)) fs fs'"
proof (cases "p \<noteq> [] \<and> e = None \<and> fs' \<noteq> fs")
  case False
  with assms(1) show ?thesis
    by (auto simp: applyCpusetToInfraContainer_def Let_def split: if_splits option.splits)
next
  case True
  define dflt where "dflt = CPUset (SelectPool (se_cs env) (ch_poolConfig (se_choice env)) DefaultPoolID)"
  obtain i where i: "getInfraContainerPath fs (p_ContainerStatuses pod) p = Some i"
    "os_write env fs (i @ [''cpuset.cpus'']) (cs_String (se_cs env) dflt) = Some fs'"
    using assms(1) True
    by (auto simp: applyCpusetToInfraContainer_def Let_def dflt_def split: if_splits option.splits)
  then obtain n where n: "i = butlast p @ [n]"
    using infra_loop_entry by (fastforce simp: getInfraContainerPath_def split: option.splits node.splits)
  obtain q where "p = se_cpusetRoot env @ q" "q \<noteq> []" using assms(2) True by (auto simp: container_path_def below_def)
  then have "i @ [''cpuset.cpus''] \<in> cpuset_files (se_cpusetRoot env)"
    unfolding n by (auto simp: cpuset_files_def butlast_append)
  with unchanged_os_write [OF i(2)] show ?thesis by blast
qed

abbreviation pod_dir :: "'s set_env \<Rightarrow> pod \<Rightarrow> path" where
  "pod_dir env pod \<equiv> se_cpuRoot env @ [p_Namespace pod, p_Name pod]"

lemma touched_applyCpus:
  assumes "applyCpusToContainer env fs pod n cid s = (fs', e)"
  shows "unchanged_outside (below (pod_dir env pod)) fs fs'"
proof -
  define base where "base = se_cpuRoot env @ [p_Namespace pod, p_Name pod, n]"
  define made where "made = (if PathExists fs base then Some fs else if se_mkdir_ok env base then mkdir_all fs base else None)"
  note eq = assms [unfolded applyCpusToContainer_def Let_def, folded base_def, folded made_def]
  have set: "unchanged_outside (below base) g g1 \<Longrightarrow> unchanged_outside (below base) g (set_node g1 base u)" for g g1 u
    using unchanged_set_node unchanged_trans by blast
  have files: "unchanged_outside (below base) g g'" if "write_files env g (cpu_files env base s) = (g', x)" for g g' x
    using that by (rule unchanged_write_files) (auto simp: cpu_files_def Let_def)
  have "unchanged_outside (below base) fs fs'"
  proof (cases made)
    case None
    with eq show ?thesis by simp
  next
    case (Some fs1)
    then have fs1: "unchanged_outside (below base) fs fs1"
      using unchanged_mkdir_all by (auto simp: made_def split: if_splits)
    show ?thesis
    proof (cases "\<exists>es0. lookup fs1 base = Some (Dir es0)")
      case False
      with eq Some fs1 show ?thesis by (auto split: option.splits node.splits)
    next
      case True
      then obtain es0 where es0: "lookup fs1 base = Some (Dir es0)" by blast
      define fs2 where "fs2 = set_node fs1 base (Dir (if fst (IsEmpty fs1 base) then es0
        else filter (\<lambda>(n, t). \<not> se_remove_ok env (base @ [n])) es0))"
      have fs2: "unchanged_outside (below base) fs fs2" unfolding fs2_def by (rule set [OF fs1])
      have fill: "unchanged_outside (below base) fs g'"
        if "write_files env (set_node fs2 base u) (cpu_files env base s) = (g', x)" for u g' x
        by (rule unchanged_trans [OF set [OF fs2] files [OF that]])
      show ?thesis
        using eq fs2 set [OF fs2] fill
        unfolding Some es0 option.case node.case fs2_def [symmetric]
        by (auto split: option.splits node.splits prod.splits)
    qed
  qed
  moreover have "below base \<subseteq> below (pod_dir env pod)" using below_append [of "pod_dir env pod" "[n]"] by (simp add: base_def)
  ultimately show ?thesis by (rule unchanged_mono)
qed

section \<open>Handling a pod\<close>

text \<open>The files a pod owns, and pods whose containers do not have the path of the cpuset root for an id.\<close>

definition pod_files :: "'s set_env \<Rightarrow> pod \<Rightarrow> path set" where
  "pod_files env pod = cpuset_files (se_cpusetRoot env) \<union> below (pod_dir env pod)"

definition ids_below_root :: "'s set_env \<Rightarrow> pod \<Rightarrow> bool" where
  "ids_below_root env pod \<longleftrightarrow>
     (\<forall>c \<in> set (p_Containers pod). determineCid (p_ContainerStatuses pod) (c_Name c) \<noteq> [] \<longrightarrow>
        \<not> has_id (determineCid (p_ContainerStatuses pod) (c_Name c)) (se_cpusetRoot env))"

lemma touched_adjust_loop:
  assumes "adjust_loop env pod names fs path cs = (fs', r)" "set cs \<subseteq> set (p_Containers pod)" "ids_below_root env pod"
    and "container_path (se_cpusetRoot env) path"
  shows "unchanged_outside (pod_files env pod) fs fs' \<and> (\<forall>p. r = Ok p \<longrightarrow> container_path (se_cpusetRoot env) p)"
  using assms
proof (induction cs arbitrary: fs path)
  case (Cons c cs)
  define cid where "cid = determineCid (p_ContainerStatuses pod) (c_Name c)"
  show ?case
  proof (cases "c_Name c \<in> set names \<and> (\<exists>a b. determineCorrectCpuset (se_choice env) pod c = Ok (a, b)) \<and> cid \<noteq> []")
    case False
    with Cons show ?thesis by (auto simp: cid_def split: outcome.splits if_splits)
  next
    case True
    then obtain a b where ab: "determineCorrectCpuset (se_choice env) pod c = Ok (a, b)" by blast
    have "\<not> has_id cid (se_cpusetRoot env)" using Cons.prems(2,3) True by (simp add: ids_below_root_def cid_def)
    moreover obtain fs1 r1 where a1: "applyCpusetToContainer env fs cid b = (fs1, r1)" by fastforce
    ultimately have s1: "unchanged_outside (pod_files env pod) fs fs1" "\<forall>p. r1 = Inr p \<longrightarrow> container_path (se_cpusetRoot env) p"
      using touched_applyCpuset [OF a1] unchanged_mono by (auto simp: pod_files_def)
    obtain fs2 e where a2: "applyCpusToContainer env fs1 pod (c_Name c) cid a = (fs2, e)" by fastforce
    have "unchanged_outside (pod_files env pod) fs1 fs2"
      using touched_applyCpus [OF a2] by (rule unchanged_mono) (simp add: pod_files_def)
    with s1(1) have s2: "unchanged_outside (pod_files env pod) fs fs2" by (rule unchanged_trans)
    have eq: "adjust_loop env pod names fs path (c # cs) =
        (case r1 of Inl x \<Rightarrow> (fs1, Err x)
         | Inr path' \<Rightarrow> (case e of Some x \<Rightarrow> (fs2, Err x) | None \<Rightarrow> adjust_loop env pod names fs2 path' cs))"
      using True ab a1 a2 by (simp add: cid_def Let_def split: sum.splits option.splits)
    show ?thesis
    proof (cases "\<exists>p. r1 = Inr p \<and> e = None")
      case False
      with eq Cons.prems(1) s1 s2 show ?thesis by (auto split: sum.splits option.splits)
    next
      case True
      then obtain p where p: "r1 = Inr p" "e = None" by blast
      with eq Cons.prems(1) have "adjust_loop env pod names fs2 p cs = (fs', r)" by simp
      with Cons.IH [of fs2 p] Cons.prems(2,3) s1(2) p(1)
      have "unchanged_outside (pod_files env pod) fs2 fs' \<and> (\<forall>p. r = Ok p \<longrightarrow> container_path (se_cpusetRoot env) p)" by simp
      with s2 unchanged_trans show ?thesis by blast
    qed
  qed
qed auto

lemma touched_adjust:
  assumes "adjustContainerSets env w pod names = (w', r)" "ids_below_root env pod"
  shows "unchanged_outside (pod_files env pod) (w_fs w) (w_fs w')"
proof -
  obtain fs1 r1 where a: "adjust_loop env pod names (w_fs w) [] (p_Containers pod) = (fs1, r1)" by fastforce
  have l: "unchanged_outside (pod_files env pod) (w_fs w) fs1" "\<forall>p. r1 = Ok p \<longrightarrow> container_path (se_cpusetRoot env) p"
    using touched_adjust_loop [OF a order_refl assms(2)] by (simp_all add: container_path_def)
  show ?thesis
  proof (cases r1)
    case (Ok path)
    obtain fs2 e where i: "applyCpusetToInfraContainer env fs1 pod path = (fs2, e)" by fastforce
    have "unchanged_outside (pod_files env pod) fs1 fs2"
      using touched_applyInfra [OF i] l(2) Ok by (auto simp: pod_files_def intro: unchanged_mono)
    with l(1) have "unchanged_outside (pod_files env pod) (w_fs w) fs2" by (rule unchanged_trans)
    with a Ok i assms(1) show ?thesis by (cases e) (auto simp: adjustContainerSets_def split: if_splits)
  qed (use a l(1) assms(1) in \<open>auto simp: adjustContainerSets_def\<close>)
qed

lemma touched_retry:
  "retry_adjust env pod names err n w = (w', r) \<Longrightarrow> ids_below_root env pod \<Longrightarrow>
     unchanged_outside (pod_files env pod) (w_fs w) (w_fs w')"
proof (induction n arbitrary: err w)
  case (Suc n)
  obtain w1 a where a: "adjustContainerSets env w pod names = (w1, a)" by fastforce
  have "unchanged_outside (pod_files env pod) (w_fs w) (w_fs w1)" using touched_adjust [OF a Suc.prems(2)] .
  with Suc a show ?case by (cases a) (auto intro: unchanged_trans)
qed simp

text \<open>C19: Handling a pod touches nothing but its own files: whatever fails on the way, and however often the
  adjustment is tried, the only files that may change are \<^verbatim>\<open>cpuset.cpus\<close> files below the cpuset root and files
  in the CPU directory of the pod that was looked up, as long as no container id of it occurs in the path
  of the cpuset root; a pod that is not handled changes nothing.\<close>

theorem handler_touches_own_files:
  assumes "shouldPodBeHandled env newPod = (mine, pod)" "ids_below_root env pod"
    and "read_file (w_fs (fst (handlePods env w newPod))) f \<noteq> read_file (w_fs w) f"
  shows "mine \<and> ((\<exists>q. f = se_cpusetRoot env @ q @ [''cpuset.cpus'']) \<or>
    (\<exists>q. f = se_cpuRoot env @ [p_Namespace pod, p_Name pod] @ q))"
proof -
  obtain w' r where r: "handlePods env w newPod = (w', r)" by fastforce
  have "mine" using assms(1,3) by (cases mine) (simp_all add: handlePods_def)
  have "unchanged_outside (pod_files env pod) (w_fs w) (w_fs w')"
  proof (cases "gatherAllContainers pod = []")
    case True
    with r assms(1) \<open>mine\<close> show ?thesis by (simp add: handlePods_def)
  next
    case False
    with r assms(1) \<open>mine\<close> have "retry_adjust env pod (gatherAllContainers pod) None MaxRetryCount w = (w', r)"
      by (simp add: handlePods_def Let_def)
    then show ?thesis using assms(2) by (rule touched_retry)
  qed
  with assms(3) r have "f \<in> pod_files env pod" by (auto simp: unchanged_outside_def)
  with \<open>mine\<close> show ?thesis by (auto simp: pod_files_def cpuset_files_def below_def)
qed

theorem handler_touches_own_files_witness:
  "read_file (w_fs (fst (handlePods (demo_set_env (demo_set_pod ''docker://abc'')) \<lparr>w_fs = demo_fs, w_annotated = []\<rparr>
     (demo_set_pod ''docker://abc'')))) [''sys'', ''pod1'', ''abc'', ''cpuset.cpus''] \<noteq> Some ''0-8'' \<and>
   (\<exists>q. [''sys'', ''pod1'', ''abc'', ''cpuset.cpus''] = [''sys''] @ q @ [''cpuset.cpus''])"
proof -
  let ?p = "demo_set_pod ''docker://abc''" and ?w = "\<lparr>w_fs = demo_fs, w_annotated = []\<rparr>"
  let ?f = "[''sys'', ''pod1'', ''abc'', ''cpuset.cpus'']"
  obtain mine pod where h: "shouldPodBeHandled (demo_set_env ?p) ?p = (mine, pod)" by fastforce
  moreover have "shouldPodBeHandled (demo_set_env ?p) ?p = (True, ?p)" by code_simp
  ultimately have p: "shouldPodBeHandled (demo_set_env ?p) ?p = (True, ?p)" by simp
  have "ids_below_root (demo_set_env ?p) ?p" unfolding ids_below_root_def by code_simp
  moreover have f: "read_file (w_fs (fst (handlePods (demo_set_env ?p) ?w ?p))) ?f = Some ''2-3''" by code_simp
  moreover have "read_file (w_fs ?w) ?f = Some ''0-8''" by code_simp
  ultimately have "(\<exists>q. ?f = se_cpusetRoot (demo_set_env ?p) @ q @ [''cpuset.cpus'']) \<or>
      (\<exists>q. ?f = se_cpuRoot (demo_set_env ?p) @ [p_Namespace ?p, p_Name ?p] @ q)"
    using handler_touches_own_files [OF p, of ?w ?f] by simp
  then show ?thesis using f by (auto simp: demo_set_env_def)
qed

section \<open>The reconciliation\<close>

text \<open>The leaf of a container of a pod, on all CPUs of the machine.\<close>

definition loose_leaf :: "'s set_env \<Rightarrow> node \<Rightarrow> path list \<Rightarrow> (pod \<times> container) list \<Rightarrow> path \<Rightarrow> bool" where
  "loose_leaf env fs leaves pcs l \<longleftrightarrow> l \<in> set leaves \<and>
     (\<exists>(pod, c) \<in> set pcs. determineCid (p_ContainerStatuses pod) (c_Name c) \<noteq> [] \<and>
        has_id (determineCid (p_ContainerStatuses pod) (c_Name c)) l) \<and>
     cs_elems (se_cs env) (current_cpuset env fs l) = cs_elems (se_cs env) (all_cpus env)"

definition may_reconcile :: "'s set_env \<Rightarrow> node \<Rightarrow> path list \<Rightarrow> (pod \<times> container) list \<Rightarrow> path \<Rightarrow> bool" where
  "may_reconcile env fs leaves pcs f \<longleftrightarrow>
     (\<exists>(pod, c) \<in> set pcs. f \<in> below (pod_dir env pod)) \<or>
     (\<exists>l. f = l @ [''cpuset.cpus''] \<and> loose_leaf env fs leaves pcs l)"

lemma may_reconcile_mono:
  "may_reconcile env fs leaves pcs f \<Longrightarrow> set pcs \<subseteq> set pcs' \<Longrightarrow> read_file fs f = read_file fs' f \<Longrightarrow>
     may_reconcile env fs' leaves pcs' f"
  unfolding may_reconcile_def loose_leaf_def current_cpuset_def by (elim disjE exE conjE) (fastforce, auto)

lemma touched_reset_leaf:
  assumes "reset_leaf env fs l pod c cid = (fs', r)"
  shows "unchanged_outside (below (pod_dir env pod) \<union> {l @ [''cpuset.cpus'']}) fs fs'"
proof (cases "determineCorrectCpuset (se_choice env) pod c")
  case (Ok ab)
  obtain a b where ab: "ab = (a, b)" by (cases ab)
  obtain fs1 e where a: "applyCpusToContainer env fs pod (c_Name c) cid a = (fs1, e)" by fastforce
  have "unchanged_outside (below (pod_dir env pod) \<union> {l @ [''cpuset.cpus'']}) fs fs1"
    using touched_applyCpus [OF a] by (rule unchanged_mono) blast
  moreover have "unchanged_outside (below (pod_dir env pod) \<union> {l @ [''cpuset.cpus'']}) fs1 fs'"
    using assms Ok ab a by (auto simp: reset_leaf_def Let_def intro: unchanged_os_write split: option.splits)
  ultimately show ?thesis by (rule unchanged_trans)
qed (use assms in \<open>auto simp: reset_leaf_def\<close>)

lemma reconcileContainer_touches:
  assumes "cpuset_lib (se_cs env)" "reconcileContainer env fs leaves pod c = (fs', r)" "read_file fs' f \<noteq> read_file fs f"
  shows "may_reconcile env fs leaves [(pod, c)] f"
proof -
  define cid where "cid = determineCid (p_ContainerStatuses pod) (c_Name c)"
  have cid: "cid \<noteq> []" "reconcile_leaves env fs pod c cid leaves = (fs', r)"
    using assms(2,3) by (auto simp: reconcileContainer_def Let_def cid_def split: if_splits)
  then obtain l where l: "find (has_id cid) leaves = Some l"
    using assms(3) reconcile_leaves_find [of env fs pod c cid leaves] by (auto split: option.splits)
  then have mem: "l \<in> set leaves" "has_id cid l" by (auto simp: find_Some_iff)
  have "reconcile_leaves env fs pod c cid [l] = (fs', r)" using cid(2) l reconcile_leaves_find [of env fs pod c cid leaves] by simp
  then have eq: "(if cs_elems (se_cs env) (all_cpus env) = cs_elems (se_cs env) (current_cpuset env fs l)
       then reset_leaf env fs l pod c cid else (fs, Ok ())) = (fs', r)"
    using mem(2) cpuset_lib.Equals_iff [OF assms(1)] by (simp add: Let_def all_cpus_def current_cpuset_def)
  with assms(3) have all: "cs_elems (se_cs env) (all_cpus env) = cs_elems (se_cs env) (current_cpuset env fs l)"
    and reset: "reset_leaf env fs l pod c cid = (fs', r)" by (auto split: if_splits)
  have "f \<in> below (pod_dir env pod) \<union> {l @ [''cpuset.cpus'']}"
    using touched_reset_leaf [OF reset] assms(3) unfolding unchanged_outside_def by blast
  with mem all cid(1) show ?thesis by (auto simp: may_reconcile_def loose_leaf_def cid_def)
qed

lemma reconcile_loop_touches:
  assumes "cpuset_lib (se_cs env)" "read_file (fst (reconcile_loop env leaves fs pcs)) f \<noteq> read_file fs f"
  shows "may_reconcile env fs leaves pcs f"
  using assms(2)
proof (induction pcs arbitrary: fs)
  case (Cons pc pcs)
  obtain pod c where pc: "pc = (pod, c)" by (cases pc)
  obtain fs1 r where r: "reconcileContainer env fs leaves pod c = (fs1, r)" by fastforce
  show ?case
  proof (cases "read_file fs1 f = read_file fs f")
    case True
    with Cons.prems pc r have "read_file (fst (reconcile_loop env leaves fs1 pcs)) f \<noteq> read_file fs1 f"
      by (cases r) auto
    from may_reconcile_mono [OF Cons.IH [OF this] _ True, of "pc # pcs"] show ?thesis by auto
  next
    case False
    from may_reconcile_mono [OF reconcileContainer_touches [OF assms(1) r False], of "pc # pcs" fs] pc show ?thesis by simp
  qed
qed simp

text \<open>C29: The reconciliation leaves alone what is set already: a file it changes lies in the CPU directory of
  one of the kubelet's pods, or it is the \<^verbatim>\<open>cpuset.cpus\<close> of a leaf that has the id of one of their containers and
  held all CPUs of the machine before. A container on any other set, be it the right one or not, keeps it.\<close>

theorem reconcile_spares_set_containers:
  assumes "cpuset_lib (se_cs env)" "read_file (fst (reconcileCpusets env fs)) f \<noteq> read_file fs f"
  shows "\<exists>pods leaves. se_kubelet_pods env = Ok (Some pods) \<and> getLeafCpusets env fs = Some leaves \<and>
    ((\<exists>pod \<in> set pods. \<exists>q. f = se_cpuRoot env @ [p_Namespace pod, p_Name pod] @ q) \<or>
     (\<exists>l \<in> set leaves. f = l @ [''cpuset.cpus''] \<and>
        (\<exists>pod \<in> set pods. \<exists>c \<in> set (p_Containers pod). has_id (determineCid (p_ContainerStatuses pod) (c_Name c)) l) \<and>
        cs_elems (se_cs env) (current_cpuset env fs l) = cs_elems (se_cs env) (all_cpus env)))"
proof -
  obtain pods leaves where p: "se_kubelet_pods env = Ok (Some pods)" "getLeafCpusets env fs = Some leaves"
    using assms(2) by (auto simp: reconcileCpusets_def split: outcome.splits option.splits)
  let ?pcs = "concat (map (\<lambda>p. map (Pair p) (p_Containers p)) pods)"
  have "may_reconcile env fs leaves ?pcs f"
    using assms(2) p by (intro reconcile_loop_touches [OF assms(1)]) (simp add: reconcileCpusets_def)
  with p show ?thesis by (fastforce simp: may_reconcile_def loose_leaf_def below_def)
qed

theorem reconcile_spares_set_containers_witness:
  "read_file (fst (reconcileCpusets (demo_set_env (demo_set_pod ''docker://abc'')) demo_fs)) [''sys'', ''pod1'', ''abc'', ''cpuset.cpus''] =
     Some ''2-3'' \<and>
   cs_elems ref_cpuset (current_cpuset (demo_set_env (demo_set_pod ''docker://abc'')) demo_fs [''sys'', ''pod1'', ''abc'']) = {0..8}"
proof -
  let ?p = "demo_set_pod ''docker://abc''" and ?f = "[''sys'', ''pod1'', ''abc'', ''cpuset.cpus'']"
  have lib: "cpuset_lib (se_cs (demo_set_env ?p))" using ref.cpuset_lib_axioms by (simp add: demo_set_env_simps)
  have f: "read_file (fst (reconcileCpusets (demo_set_env ?p) demo_fs)) ?f = Some ''2-3''" by code_simp
  moreover have "read_file demo_fs ?f = Some ''0-8''" by code_simp
  ultimately have "read_file (fst (reconcileCpusets (demo_set_env ?p) demo_fs)) ?f \<noteq> read_file demo_fs ?f" by simp
  from reconcile_spares_set_containers [OF lib this]
  have "cs_elems (se_cs (demo_set_env ?p)) (current_cpuset (demo_set_env ?p) demo_fs [''sys'', ''pod1'', ''abc'']) =
      cs_elems (se_cs (demo_set_env ?p)) (all_cpus (demo_set_env ?p))"
    by (auto simp: demo_set_env_def)
  moreover have "cs_elems (se_cs (demo_set_env ?p)) (all_cpus (demo_set_env ?p)) = {0, 1, 2, 3, 4, 5, 6, 7, 8}" by code_simp
  moreover have "{0, 1, 2, 3, 4, 5, 6, 7, 8} = {0..8 :: int}" by auto
  ultimately show ?thesis using f by (simp add: demo_set_env_simps)
qed

end
