(* ===== verification/Fake_Lscpu.thy ===== *)
theory Fake_Lscpu
  imports Command_Line
begin

text \<open>
  The stand-in for \<^verbatim>\<open>lscpu\<close> that the tests put into the path, \<^verbatim>\<open>cmd/fakelscpu/fakelscpu.go\<close>: it prints one of two recorded
  topologies, depending on the columns it is asked for. Reading a file and the environment are
  parameters. The lemma shows which file the two calls of the topology package get.
\<close>

definition fakeCoreTopology :: string where "fakeCoreTopology = ''/testdata/fakelscpu.core''"
definition fakeNodeTopology :: string where "fakeNodeTopology = ''/testdata/fakelscpu.node''"

text \<open>What is printed: nothing when the flags are refused or the file cannot be read.\<close>

definition fakelscpu_main ::
  "(string \<Rightarrow> string) \<Rightarrow> (string \<Rightarrow> string option) \<Rightarrow> string list \<Rightarrow> string option" where
  "fakelscpu_main getenv readFile args =
     (case flag_Parse (program_flags [''p''] (\<lambda>n. None)) args of
        ExitStatus _ \<Rightarrow> None
      | Flags vs \<Rightarrow>
          (let mode = flag_value vs ''p'' [];
               topologyFilesDir = getenv ''POOLER_TEST_DIR'';
               file = (if Contains mode ''core'' then readFile (topologyFilesDir @ fakeCoreTopology)
                       else readFile (topologyFilesDir @ fakeNodeTopology))
           in case file of None \<Rightarrow> None | Some content \<Rightarrow> Some (content @ [CHR 0x0A])))"

lemma fakelscpu_main_columns:
  "fakelscpu_main getenv readFile [''-p='' @ columns] =
     map_option (\<lambda>c. c @ [CHR 0x0A])
       (readFile (getenv ''POOLER_TEST_DIR'' @ (if Contains columns ''core'' then fakeCoreTopology else fakeNodeTopology)))"
proof -
  have "flag_Parse (program_flags [''p''] (\<lambda>n. None)) [''-p='' @ columns] = Flags [(''p'', columns)]"
    by (simp add: flag_Parse_def arg_kind_def flag_name_def flag_inline_value_def program_flags_def)
  then show ?thesis by (simp add: fakelscpu_main_def flag_value_def Let_def split: option.splits)
qed

end
