(* ===== verification/Spec2Isabelle.thy ===== *)
theory Spec2Isabelle
  imports Cpu_Annotation Checkpoint Device_Plugin Plugin_Lifecycle Webhook_Server Process_Starter K8s_Client Cpu_Archive
    Node_Isolation Handler_Frame Fake_Lscpu
begin

text \<open>
  CPU-Pooler hands out the CPUs of a Kubernetes node in pools: exclusive CPUs, shared CPUs and
  the cloudphone pools with their extension devices. Four programs and a few packages work
  together, and this development models all of them.

  \<^bold>\<open>Parts and how they interact.\<close> The \<^emph>\<open>device plugin\<close> (\<^verbatim>\<open>cmd/cpu-device-plugin\<close>) advertises the CPUs of every pool
  to the kubelet as devices and tells a container which CPUs stand behind the devices it got. The
  \<^emph>\<open>webhook\<close> (\<^verbatim>\<open>cmd/webhook\<close>) checks the annotation of a pod against its requests and patches the pod so that
  its containers start through the process starter. \<^emph>\<open>cpusetter\<close> (\<^verbatim>\<open>cmd/cpusetter\<close>, \<^verbatim>\<open>pkg/sethandler\<close>) watches pods,
  reads the devices the kubelet recorded in its checkpoint, and writes the CPUs into the cgroup of the
  container. The \<^emph>\<open>process starter\<close> (\<^verbatim>\<open>cmd/process-starter\<close>) waits in the container until its cgroup has the
  promised CPUs and deals them out to the processes of the container. They share the pool
  configuration (\<^verbatim>\<open>pkg/types\<close>), the checkpoint formats (\<^verbatim>\<open>pkg/checkpoint\<close>, \<^verbatim>\<open>pkg/utils/util.go\<close>), the API server
  client (\<^verbatim>\<open>pkg/k8sclient\<close>) and the helpers of \<^verbatim>\<open>pkg/utils\<close>.

  \<^bold>\<open>Theories.\<close> One theory per component, each with its state, its operations under the names of the
  source, and its lemmas.

  \<^item> \<open>Go_Prelude\<close>: results of Go calls (value, error, panic), 64-bit wrap-around, \<^verbatim>\<open>strings\<close> and \<^verbatim>\<open>strconv\<close>, maps as
    association lists whose order is the order of one \<^verbatim>\<open>range\<close>.
  \<^item> \<open>Cpuset_Lib\<close>: the interface of \<^verbatim>\<open>k8s.io/utils/cpuset\<close> with its laws as the locale \<open>cpuset_lib\<close>.
  \<^item> \<open>Pool_Config\<close>: \<^verbatim>\<open>pkg/types/pool.go\<close>; which configuration a node uses and what a prefix selects.
  \<^item> \<open>Cpu_Annotation\<close>: \<^verbatim>\<open>pkg/types/cpu-annotation.go\<close>; decoding, validation and the sums of a container.
  \<^item> \<open>Checkpoint\<close>: \<^verbatim>\<open>pkg/checkpoint\<close> and \<^verbatim>\<open>GetCheckpointData\<close>; the translation between the formats.
  \<^item> \<open>Kube_Types\<close>: the Kubernetes objects as records of the fields that are used.
  \<^item> \<open>Device_Ids\<close>: device ids, and the locale \<open>device_decoder\<close> that the plugin and cpusetter both satisfy.
  \<^item> \<open>Device_Plugin\<close>: \<^verbatim>\<open>ListAndWatch\<close>, \<^verbatim>\<open>Allocate\<close>, \<^verbatim>\<open>GetPreferredAllocation\<close>; what is advertised and allocated, and that
    different devices of a pool that is not overcommitted mean different CPUs.
  \<^item> \<open>Cpu_Info\<close>, \<open>Dialer\<close>, \<open>Plugin_Lifecycle\<close>: the number of CPUs; dialling with retries; start, registration with the
    kubelet, kubelet restarts and signals as sequences of events with an invariant on the managers.
  \<^item> \<open>Json_Syntax\<close>, \<open>Webhook\<close>: the JSON recogniser that marshalling applies to raw values; \<^verbatim>\<open>serveMutatePod\<close> and all below it.
  \<^item> \<open>Command_Line\<close>, \<open>Access_Log\<close>, \<open>Webhook_Server\<close>: the package \<^verbatim>\<open>flag\<close> with the round trip of a command line; the request log;
    \<^verbatim>\<open>main\<close> of the webhook and the way of a request through route, handler and log.
  \<^item> \<open>Process_Starter\<close>: reading the annotation, waiting, affinity, starting.
  \<^item> \<open>File_System\<close>: directory trees, \<^verbatim>\<open>filepath.Walk\<close>, and the locale \<open>file_store\<close>, interpreted on the tree and on
    cpusetter's guarded writes.
  \<^item> \<open>Cpuset_Choice\<close>, \<open>Set_Handler\<close>: \<^verbatim>\<open>determineCorrectCpuset\<close>; writing cpusets and CPU directories, retries,
    reconciliation.
  \<^item> \<open>Handler_Frame\<close>: which files handling a pod and reconciling may change, as a relation on file systems that is
    composed from operation to operation.
  \<^item> \<open>Pod_Status\<close>, \<open>Controller\<close>: \<^verbatim>\<open>PodStatus\<close> and the waits; event filter, work queue (locale \<open>work_queue\<close>), workers,
    shutdown and \<^verbatim>\<open>main\<close> of cpusetter as a step relation with an invariant over all runs.
  \<^item> \<open>K8s_Client\<close>: the client of API server and kubelet, and what cpusetter sees through it.
  \<^item> \<open>Archive\<close>, \<open>Cpu_Archive\<close>: archives with their round trip; the archive embedded in cpusetter, from the tree that
    was packed to the directory of CPU files a container sees.
  \<^item> \<open>Node_Isolation\<close>: the life of a node as a step relation over the managers of all its pools, the kubelet checkpoint and
    cpusetter, with containers of any pools; it refines a specification of ownership, so that no CPU of an
    exclusive pool is ever in two of the sets cpusetter has set. A container on which cpusetter has not
    acted yet is still on the set it was started with and outside this claim.
  \<^item> \<open>Fake_Lscpu\<close>: the stand-in for \<^verbatim>\<open>lscpu\<close> of the tests.
  \<^item> This theory: the properties that need several programs, from the devices of the plugin to the CPUs of
    the started process: for a container of an exclusive pool (\<open>exclusive_pipeline\<close>) and for one that shares CPUs as
    well, where the pools the webhook put into its environment count too (\<open>mixed_pipeline\<close>).

  \<^bold>\<open>Conventions.\<close> Code that is not in the repository is an argument: the CPU set, topology, weighting and YAML
  packages, JSON decoding, the client libraries, the operating system. Laws of such code are
  locales, and each has an instance that evaluates, so that the examples after the theorems can be computed.
  Errors are values of one datatype per component, and a panic is an outcome of its own, with
  the operation that raises it. Faults of the operating system are predicates that say which reads
  and writes succeed; a failed copy leaves no partial file.

  \<^bold>\<open>Bounds.\<close> The JSON recogniser has fuel \<open>2 * length + 2\<close>, more than the calls an input of that length can make.
  The waits of the starter (90 rounds) and of cpusetter (5 attempts) are those of the source.
  All other loops recurse on their data. Waiting for a pod has no bound in the source and is a
  function of the events received.

  \<^bold>\<open>Not modelled.\<close> Logging, apart from the access log; file modes and symbolic links; what a gRPC server does with the nil
  listener it gets when listening failed, except that its goroutine may end the process from then on
  (rule \<open>nil_listener\<close> of \<open>plugin_run\<close>); the kubelet's side of a registration, which is an answer of the
  environment; the interleaving of two workers inside one handled event, and of the handlers of the device plugin, which the gRPC
  package may run at the same time; \<^verbatim>\<open>test/utils\<close>, which sets up file systems for the unit tests. Of the
  third-party packages only what the code relies on is stated, as laws or as parameters.
\<close>

section \<open>From the device plugin to the started process\<close>

text \<open>A container that asks for devices of one exclusive pool and of no other pool, and the devices the kubelet
  recorded for it.\<close>

definition exclusive_request :: "'s choice_env \<Rightarrow> ('s, 'w) cdm \<Rightarrow> pod \<Rightarrow> container \<Rightarrow> string \<Rightarrow> string list \<Rightarrow> bool" where
  "exclusive_request env cdm pod c pool ids \<longleftrightarrow>
     ch_numOfCpus env = numCPU cdm \<and>
     (\<forall>r \<in> set (map fst (c_Requests c)). \<not> cloudphone_res r \<and> \<not> shared_res r) \<and>
     filter exclusive_res (map fst (c_Requests c)) = [setResourceBaseName @ CHR ''/'' # pool] \<and> CHR ''/'' \<notin> set pool \<and>
     HTPolicy (SelectPool (ch_cpuset env) (ch_poolConfig env) pool) \<noteq> MultiThreadHTPolicy \<and>
     allocated_ids env pod c (setResourceBaseName @ CHR ''/'' # pool) = ids"

lemma exclusive_request_choice:
  assumes lib: "cpuset_lib (ch_cpuset env)" and wf: "cdm_wf (ch_cpuset env) cdm"
    and slots: "set slots \<subseteq> set (pool_slots (ch_cpuset env) cdm)" "slots \<noteq> []"
    and req: "exclusive_request env cdm pod c pool (slot_ids cdm slots)"
  shows "\<exists>s. determineCorrectCpuset env pod c = Ok (s, s) \<and> cs_elems (ch_cpuset env) s = fst ` set slots"
proof -
  let ?r = "setResourceBaseName @ CHR ''/'' # pool"
  have n: "ch_numOfCpus env = numCPU cdm"
    and no: "\<forall>x \<in> set (map fst (c_Requests c)). \<not> cloudphone_res x" "\<not> (\<exists>x \<in> set (map fst (c_Requests c)). shared_res x)"
    and only: "filter exclusive_res (map fst (c_Requests c)) = [?r]"
    and rest: "CHR ''/'' \<notin> set pool" "HTPolicy (SelectPool (ch_cpuset env) (ch_poolConfig env) pool) \<noteq> MultiThreadHTPolicy"
    using req unfolding exclusive_request_def by blast+
  have ids: "allocated_ids env pod c ?r = slot_device_ids (ch_numOfCpus env) slots"
    using req by (simp add: exclusive_request_def slot_ids_def slot_device_ids_def)
  have valid: "\<forall>(cpu, k) \<in> set slots. valid_slot (ch_numOfCpus env) cpu k"
    using cdm_wf_slot [OF wf] slots(1) n by auto
  from choice_exclusive [OF lib no(1) only rest ids slots(2) valid] no(2) show ?thesis by simp
qed

text \<open>Exclusivity as it is enforced: when a pool is not overcommitted and the kubelet gave two
  containers different devices of it, cpusetter puts them on disjoint sets of CPUs of the pool.\<close>

theorem exclusive_isolation_enforced:
  assumes "cpuset_lib (ch_cpuset env)" "cdm_wf (ch_cpuset env) cdm" "poolType cdm = ''exclusive''"
    and "Overcommitment (cdm_pool cdm) \<le> 1"
    and "exclusive_request env cdm podA a pool idsA" "exclusive_request env cdm podB b pool idsB"
    and "set idsA \<union> set idsB \<subseteq> set (map dev_ID (fst (list_devices (ch_cpuset env) cdm)))"
    and "idsA \<noteq> []" "idsB \<noteq> []" "set idsA \<inter> set idsB = {}"
  shows "\<exists>sA sB. determineCorrectCpuset env podA a = Ok (sA, sA) \<and> determineCorrectCpuset env podB b = Ok (sB, sB) \<and>
    cs_elems (ch_cpuset env) sA \<inter> cs_elems (ch_cpuset env) sB = {} \<and>
    cs_elems (ch_cpuset env) sA \<union> cs_elems (ch_cpuset env) sB \<subseteq> cs_elems (ch_cpuset env) (CPUset (cdm_pool cdm)) \<and>
    cs_elems (ch_cpuset env) sA \<noteq> {} \<and> cs_elems (ch_cpuset env) sB \<noteq> {}"
proof -
  let ?cs = "ch_cpuset env"
  have ids: "map dev_ID (fst (list_devices ?cs cdm)) = slot_ids cdm (pool_slots ?cs cdm)"
    using assms(3) by (simp add: list_devices_exclusive slot_ids_def case_prod_unfold comp_def)
  obtain x where x: "set x \<subseteq> set (pool_slots ?cs cdm)" "idsA = slot_ids cdm x"
    using ids_are_slots [of idsA cdm] assms(7) unfolding ids by auto
  obtain y where y: "set y \<subseteq> set (pool_slots ?cs cdm)" "idsB = slot_ids cdm y"
    using ids_are_slots [of idsB cdm] assms(7) unfolding ids by auto
  have ne: "x \<noteq> []" "y \<noteq> []" and disj: "set x \<inter> set y = {}"
    using x y assms(8-10) by (auto simp: slot_ids_def)
  have "fst ` set x \<inter> fst ` set y = {}" using slots_one_per_cpu [OF assms(4) x(1) y(1) disj] .
  moreover have "fst ` set x \<union> fst ` set y \<subseteq> cs_elems ?cs (CPUset (cdm_pool cdm))"
    using x(1) y(1) pool_slots_elems [of ?cs cdm] by auto
  moreover obtain sA where "determineCorrectCpuset env podA a = Ok (sA, sA)" "cs_elems ?cs sA = fst ` set x"
    using exclusive_request_choice [OF assms(1,2) x(1) ne(1) assms(5) [unfolded x(2)]] by blast
  moreover obtain sB where "determineCorrectCpuset env podB b = Ok (sB, sB)" "cs_elems ?cs sB = fst ` set y"
    using exclusive_request_choice [OF assms(1,2) y(1) ne(2) assms(6) [unfolded y(2)]] by blast
  ultimately show ?thesis using ne by (intro exI [of _ sA] exI [of _ sB]) simp
qed

lemma settles_first:
  assumes "\<forall>j \<le> k. cgroup j \<noteq> None" "cs_elems cs (fst (cs_Parse cs (the (cgroup k)))) = cs_elems cs e"
  shows "\<exists>i \<le> k. settles_at cs e cgroup i"
proof -
  define P where "P i \<longleftrightarrow> cs_elems cs (fst (cs_Parse cs (the (cgroup i)))) = cs_elems cs e" for i
  have "P k" using assms(2) by (simp add: P_def)
  then have "P (LEAST i. P i)" by (rule LeastI)
  then obtain m where m: "P m" "\<forall>j < m. \<not> P j" "m \<le> k"
    using \<open>P k\<close> not_less_Least [of _ P] Least_le [of P k] by metis
  have "\<forall>j < Suc m. cgroup j \<noteq> None" using assms(1) m(3) by simp
  with m(1,2) have "settles_at cs e cgroup m" unfolding settles_at_def P_def [symmetric] by blast
  with m(3) show ?thesis by blast
qed

text \<open>The process starter goes on as soon as its cgroup has the set it expects.\<close>

lemma starter_settles:
  assumes lib: "cpuset_lib cs" and sets: "poll_sets cs getenv = Some (cl, ex, sh, e)"
    and s: "cs_elems cs e = cs_elems cs s" "\<forall>x \<in> cs_elems cs s. 0 \<le> x"
    and cg: "k < 90" "\<forall>j \<le> k. cgroup j \<noteq> None" "cgroup k = Some (cs_String cs s)"
  shows "pollCPUSetCompletion cs getenv cgroup = Polled (cs_List cs cl) (cs_List cs ex) (cs_List cs sh)"
proof -
  have "cs_elems cs (fst (cs_Parse cs (cs_String cs s))) = cs_elems cs e"
    using cpuset_lib.Parse_String_fst [OF lib s(2)] s(1) by simp
  then have "\<exists>i \<le> k. settles_at cs e cgroup i" using settles_first [OF cg(2), of cs e] cg(3) by simp
  then have "\<exists>i < 90. settles_at cs e cgroup i" using cg(1) by (meson le_less_trans)
  then show ?thesis using poll_completion [OF lib, of getenv cgroup] sets by simp
qed

text \<open>The process starter in a container of an exclusive pool, once its cgroup has the promised set.\<close>

lemma starter_sees:
  assumes lib: "cpuset_lib cs" and nn: "\<forall>x \<in> cs_elems cs s. 0 \<le> x" and ne: "cs_elems cs s \<noteq> {}"
    and env: "getenv ''CPU_POOLS'' = ExclusivePoolID" "getenv ''EXCLUSIVE_CPUS'' = cs_String cs s"
    and cg: "k < 90" "\<forall>j \<le> k. cgroup j \<noteq> None" "cgroup k = Some (cs_String cs s)"
  shows "pollCPUSetCompletion cs getenv cgroup = Polled [] (cs_List cs s) []"
proof -
  obtain t where t: "cs_Parse cs (cs_String cs s) = (t, True)" "cs_elems cs t = cs_elems cs s"
    using cpuset_lib.Parse_String [OF lib nn] by blast
  have "\<not> cs_IsEmpty cs t" using t(2) ne cpuset_lib.IsEmpty_iff [OF lib] by simp
  then have sets: "poll_sets cs getenv = Some (cs_zero cs, t, cs_zero cs, t)"
    using env t(1) by (simp add: poll_sets_def Let_def ExclusivePoolID_def CloudphonePoolID_def SharedPoolID_def)
  have "cs_List cs t = cs_List cs s" by (rule cpuset_lib.List_cong [OF lib t(2)])
  moreover have "cs_List cs (cs_zero cs) = []" using cpuset_lib.elems_zero [OF lib] by (simp add: cs_elems_def)
  ultimately show ?thesis using starter_settles [OF lib sets t(2) nn cg] by simp
qed

text \<open>C1: The three programs agree on the CPUs of an exclusive container. For the devices the kubelet
  recorded, the set cpusetter chooses has the same rendering as the environment variable the
  device plugin returned for them, and the process starter, which has that variable, accepts the
  set as soon as it is in the cgroup and goes on with exactly the CPUs behind the devices.\<close>

theorem exclusive_pipeline:
  assumes "cpuset_lib (ch_cpuset env)" "cdm_wf (ch_cpuset env) cdm" "poolType cdm = ''exclusive''"
    and "HTPolicy (cdm_pool cdm) \<noteq> MultiThreadHTPolicy"
    and "set slots \<subseteq> set (pool_slots (ch_cpuset env) cdm)" "slots \<noteq> []"
    and "exclusive_request env cdm pod c pool (slot_ids cdm slots)"
  shows "\<exists>s devs cdm'. determineCorrectCpuset env pod c = Ok (s, s) \<and>
    allocate_container (ch_cpuset env) addHT sw_next cdm (slot_ids cdm slots) =
      Ok (\<lparr>cr_Envs = [(''EXCLUSIVE_CPUS'', cs_String (ch_cpuset env) s)], cr_Devices = devs\<rparr>, cdm') \<and>
    (\<forall>getenv cgroup k. getenv ''CPU_POOLS'' = ExclusivePoolID \<and> getenv ''EXCLUSIVE_CPUS'' = cs_String (ch_cpuset env) s \<and>
       k < 90 \<and> (\<forall>j \<le> k. cgroup j \<noteq> None) \<and> cgroup k = Some (cs_String (ch_cpuset env) s) \<longrightarrow>
       pollCPUSetCompletion (ch_cpuset env) getenv cgroup = Polled [] (sorted_list_of_set (fst ` set slots)) [])"
proof -
  let ?cs = "ch_cpuset env"
  obtain s where s: "determineCorrectCpuset env pod c = Ok (s, s)" "cs_elems ?cs s = fst ` set slots"
    using exclusive_request_choice [OF assms(1,2,5,6,7)] by blast
  have "cs_String ?cs (cs_New ?cs (map fst slots)) = cs_String ?cs s"
    by (rule cpuset_lib.String_canonical [OF assms(1)]) (simp add: s(2) cpuset_lib.elems_New [OF assms(1)])
  then obtain devs cdm' where alloc: "allocate_container ?cs addHT sw_next cdm (slot_ids cdm slots) =
      Ok (\<lparr>cr_Envs = [(''EXCLUSIVE_CPUS'', cs_String ?cs s)], cr_Devices = devs\<rparr>, cdm')"
    using allocate_exclusive [OF assms(1-6), of addHT sw_next] by auto
  have list: "cs_List ?cs s = sorted_list_of_set (fst ` set slots)"
    using cpuset_lib.List_sorted [OF assms(1)] cpuset_lib.List_distinct [OF assms(1)] s(2)
    by (metis cs_elems_def sorted_list_of_set.idem_if_sorted_distinct)
  have "fst ` set slots \<subseteq> cs_elems ?cs (CPUset (cdm_pool cdm))"
    using assms(5) pool_slots_elems [of ?cs cdm] by auto
  then have nn: "\<forall>x \<in> cs_elems ?cs s. 0 \<le> x" using assms(2) s(2) by (auto simp: cdm_wf_def)
  have ne: "cs_elems ?cs s \<noteq> {}" using s(2) assms(6) by simp
  show ?thesis
    using s(1) alloc starter_sees [OF assms(1) nn ne] unfolding list by blast
qed

section \<open>Containers of an exclusive and the shared pool\<close>

definition mixed_request :: "'s choice_env \<Rightarrow> ('s, 'w) cdm \<Rightarrow> pod \<Rightarrow> container \<Rightarrow> string \<Rightarrow> string list \<Rightarrow> bool" where
  "mixed_request env cdm pod c pool ids \<longleftrightarrow>
     ch_numOfCpus env = numCPU cdm \<and>
     (\<forall>r \<in> set (map fst (c_Requests c)). \<not> cloudphone_res r) \<and> (\<exists>r \<in> set (map fst (c_Requests c)). shared_res r) \<and>
     filter exclusive_res (map fst (c_Requests c)) = [setResourceBaseName @ CHR ''/'' # pool] \<and> CHR ''/'' \<notin> set pool \<and>
     HTPolicy (SelectPool (ch_cpuset env) (ch_poolConfig env) pool) \<noteq> MultiThreadHTPolicy \<and>
     allocated_ids env pod c (setResourceBaseName @ CHR ''/'' # pool) = ids"

text \<open>The manager of the shared pool, which every manager was told by the validation of the pools.\<close>

definition shared_manager :: "'s choice_env \<Rightarrow> ('s, 'w) cdm \<Rightarrow> 's pool \<Rightarrow> bool" where
  "shared_manager env shm p \<longleftrightarrow>
     poolType shm = ''shared'' \<and> HTPolicy (cdm_pool shm) \<noteq> MultiThreadHTPolicy \<and> 0 < numCPU shm \<and>
     cs_Size (ch_cpuset env) (CPUset (cdm_pool shm)) * 1000 \<le> 4294967296 \<and>
     shared_pools (ch_poolConfig env) = [p] \<and> sharedPoolCPUs shm = fst (validatePools (ch_cpuset env) (ch_poolConfig env)) \<and>
     cs_elems (ch_cpuset env) (CPUset p) \<noteq> {} \<and> (\<forall>x \<in> cs_elems (ch_cpuset env) (CPUset p). 0 \<le> x)"

lemma SelectPool_shared: "shared_pools pc = [p] \<Longrightarrow> SelectPool cs pc SharedPoolID = p"
proof -
  have "map snd (filter (\<lambda>(n, p). HasPrefix n SharedPoolID) ps) = [p] \<Longrightarrow> SelectPool_loop z ps SharedPoolID = p" for z ps
    by (induction ps) (auto split: if_splits)
  then show "shared_pools pc = [p] \<Longrightarrow> SelectPool cs pc SharedPoolID = p" by (simp add: shared_pools_def SelectPool_def)
qed

lemma shared_manager_cpus:
  assumes "cpuset_lib (ch_cpuset env)" "shared_manager env shm p"
  shows "sharedPoolCPUs shm = cs_String (ch_cpuset env) (CPUset p)"
proof -
  have sp: "shared_pools (ch_poolConfig env) = [p]" and ne: "cs_elems (ch_cpuset env) (CPUset p) \<noteq> {}"
    using assms(2) by (simp_all add: shared_manager_def)
  then have "cs_String (ch_cpuset env) (CPUset p) \<noteq> []" using cpuset_lib.String_empty_iff [OF assms(1)] by simp
  with sp validatePools_loop_eq [of "Pools (ch_poolConfig env)" "ch_cpuset env" "[]"] assms(2) show ?thesis
    by (simp add: shared_manager_def validatePools_def shared_pools_def)
qed

text \<open>The sets the starter waits for in a container of both kinds of pools.\<close>

lemma starter_sees_mixed:
  assumes lib: "cpuset_lib cs" and ex: "cs_elems cs x \<noteq> {}" "\<forall>i \<in> cs_elems cs x. 0 \<le> i"
    and sh: "cs_elems cs y \<noteq> {}" "\<forall>i \<in> cs_elems cs y. 0 \<le> i" and s: "cs_elems cs s = cs_elems cs x \<union> cs_elems cs y"
    and env: "getenv ''CPU_POOLS'' = ExclusivePoolID @ ''&'' @ SharedPoolID"
      "getenv ''EXCLUSIVE_CPUS'' = cs_String cs x" "getenv ''SHARED_CPUS'' = cs_String cs y"
    and cg: "k < 90" "\<forall>j \<le> k. cgroup j \<noteq> None" "cgroup k = Some (cs_String cs s)"
  shows "pollCPUSetCompletion cs getenv cgroup = Polled [] (cs_List cs x) (cs_List cs y)"
proof -
  obtain tx where tx: "cs_Parse cs (cs_String cs x) = (tx, True)" "cs_elems cs tx = cs_elems cs x"
    using cpuset_lib.Parse_String [OF lib ex(2)] by blast
  obtain ty where ty: "cs_Parse cs (cs_String cs y) = (ty, True)" "cs_elems cs ty = cs_elems cs y"
    using cpuset_lib.Parse_String [OF lib sh(2)] by blast
  have ne: "\<not> cs_IsEmpty cs tx" "\<not> cs_IsEmpty cs ty" using tx(2) ty(2) ex(1) sh(1) cpuset_lib.IsEmpty_iff [OF lib] by simp_all
  have kind: "ExclusivePoolID @ ''&'' @ SharedPoolID \<noteq> CloudphonePoolID" by (simp add: pool_ids)
  have sets: "poll_sets cs getenv = Some (cs_zero cs, tx, ty, cs_Union cs tx [ty])"
    unfolding poll_sets_def Let_def env using kind ne tx(1) ty(1) by simp
  have u: "cs_elems cs (cs_Union cs tx [ty]) = cs_elems cs s"
    using s tx(2) ty(2) by (simp add: cpuset_lib.elems_Union [OF lib])
  have nn: "\<forall>i \<in> cs_elems cs s. 0 \<le> i" using s ex(2) sh(2) by auto
  have l: "cs_List cs tx = cs_List cs x" "cs_List cs ty = cs_List cs y"
    by (rule cpuset_lib.List_cong [OF lib tx(2)], rule cpuset_lib.List_cong [OF lib ty(2)])
  have "cs_List cs (cs_zero cs) = []" using cpuset_lib.elems_zero [OF lib] by (simp add: cs_elems_def)
  with starter_settles [OF lib sets u nn cg] l show ?thesis by simp
qed

text \<open>C4: All four programs agree on a container that uses an exclusive and the shared pool. The set cpusetter
  chooses is the union of what the two managers of the device plugin told the container, and the
  process starter, to which the webhook gave the pools the container requests, accepts that set and
  goes on with the CPUs behind its devices as exclusive and the CPUs of the shared pool as shared ones.\<close>

theorem mixed_pipeline:
  assumes "cpuset_lib (ch_cpuset env)" "cdm_wf (ch_cpuset env) cdm" "poolType cdm = ''exclusive''"
    and "HTPolicy (cdm_pool cdm) \<noteq> MultiThreadHTPolicy"
    and "set slots \<subseteq> set (pool_slots (ch_cpuset env) cdm)" "slots \<noteq> []"
    and "mixed_request env cdm pod c pool (slot_ids cdm slots)" "shared_manager env shm p"
    and "set ids \<subseteq> set (map dev_ID (fst (list_devices (ch_cpuset env) shm)))" "ids \<noteq> []"
    and "exclusiveCPURequests r > 0" "sharedCPURequests r > 0"
  shows "\<exists>s x devs cdm' devs' shm'. determineCorrectCpuset env pod c = Ok (s, s) \<and>
    allocate_container (ch_cpuset env) addHT sw_next cdm (slot_ids cdm slots) =
      Ok (\<lparr>cr_Envs = [(''EXCLUSIVE_CPUS'', x)], cr_Devices = devs\<rparr>, cdm') \<and>
    allocate_container (ch_cpuset env) addHT sw_next shm ids =
      Ok (\<lparr>cr_Envs = [(''SHARED_CPUS'', cs_String (ch_cpuset env) (CPUset p))], cr_Devices = devs'\<rparr>, shm') \<and>
    (\<forall>getenv cgroup k. getenv ''CPU_POOLS'' = pool_env_value r \<and> getenv ''EXCLUSIVE_CPUS'' = x \<and>
       getenv ''SHARED_CPUS'' = cs_String (ch_cpuset env) (CPUset p) \<and>
       k < 90 \<and> (\<forall>j \<le> k. cgroup j \<noteq> None) \<and> cgroup k = Some (cs_String (ch_cpuset env) s) \<longrightarrow>
       pollCPUSetCompletion (ch_cpuset env) getenv cgroup =
         Polled [] (sorted_list_of_set (fst ` set slots)) (cs_List (ch_cpuset env) (CPUset p)))"
proof -
  let ?cs = "ch_cpuset env" and ?x = "cs_New (ch_cpuset env) (map fst slots)"
  note m = assms(7) [unfolded mixed_request_def]
  have n: "ch_numOfCpus env = numCPU cdm" using m by blast
  have ids: "allocated_ids env pod c (setResourceBaseName @ CHR ''/'' # pool) = slot_device_ids (ch_numOfCpus env) slots"
    using m by (simp add: slot_ids_def slot_device_ids_def)
  have valid: "\<forall>(cpu, k) \<in> set slots. valid_slot (ch_numOfCpus env) cpu k"
    using cdm_wf_slot [OF assms(2)] assms(5) n by auto
  have p: "SelectPool ?cs (ch_poolConfig env) SharedPoolID = p" "cs_elems ?cs (CPUset p) \<noteq> {}" "\<forall>i \<in> cs_elems ?cs (CPUset p). 0 \<le> i"
    using assms(8) SelectPool_shared by (auto simp: shared_manager_def)
  have x: "cs_elems ?cs ?x = fst ` set slots" by (simp add: cpuset_lib.elems_New [OF assms(1)])
  obtain s where s: "determineCorrectCpuset env pod c = Ok (s, s)" "cs_elems ?cs s = cs_elems ?cs ?x \<union> cs_elems ?cs (CPUset p)"
    using choice_exclusive [OF assms(1) _ _ _ _ ids assms(6) valid] m p(1) x by auto
  have nn: "\<forall>i \<in> cs_elems ?cs ?x. 0 \<le> i" using x valid by (auto simp: valid_slot_def)
  have list: "cs_List ?cs ?x = sorted_list_of_set (fst ` set slots)"
    using cpuset_lib.List_sorted [OF assms(1)] cpuset_lib.List_distinct [OF assms(1)] x
    by (metis cs_elems_def sorted_list_of_set.idem_if_sorted_distinct)
  obtain devs cdm' where ex: "allocate_container ?cs addHT sw_next cdm (slot_ids cdm slots) =
      Ok (\<lparr>cr_Envs = [(''EXCLUSIVE_CPUS'', cs_String ?cs ?x)], cr_Devices = devs\<rparr>, cdm')"
    using allocate_exclusive [OF assms(1-6), of addHT sw_next] by blast
  obtain devs' shm' where sh: "allocate_container ?cs addHT sw_next shm ids =
      Ok (\<lparr>cr_Envs = [(''SHARED_CPUS'', cs_String ?cs (CPUset p))], cr_Devices = devs'\<rparr>, shm')"
    using allocate_shared [OF assms(1) _ _ _ _ assms(9,10), of addHT sw_next] assms(8) shared_manager_cpus [OF assms(1,8)]
    by (auto simp: shared_manager_def)
  have "pool_env_value r = ExclusivePoolID @ ''&'' @ SharedPoolID" using assms(11,12) by (simp add: pool_env_value_def)
  with starter_sees_mixed [OF assms(1) _ nn p(2,3) s(2)] x assms(6) s(1) ex sh list show ?thesis by auto
qed

section \<open>Examples\<close>

text \<open>A node with eight CPUs on which the kubelet gave devices of one pool to two containers.\<close>

definition node_choice :: "string list \<Rightarrow> string list \<Rightarrow> int list choice_env" where
  "node_choice idsA idsB = demo_choice\<lparr>ch_numOfCpus := 8,
     ch_checkpoint := \<lparr>cp_read = Ok [], cp_unmarshal_old = (\<lambda>b. Ok \<lparr>PodDeviceEntries =
       [demo_entry ''bonc.k8s.io/exclusive_a'' idsA, (demo_entry ''bonc.k8s.io/exclusive_a'' idsB)\<lparr>PodUID := ''other''\<rparr>]\<rparr>),
       cp_unmarshal_new = (\<lambda>b. Err [])\<rparr>\<rparr>"

abbreviation other_pod :: pod where
  "other_pod \<equiv> (choice_pod [])\<lparr>p_UID := ''other''\<rparr>"

lemma node_choice_lib: "cpuset_lib (ch_cpuset (node_choice a b))" "ch_cpuset (node_choice a b) = ref_cpuset"
  using demo_lib by (simp_all add: node_choice_def demo_choice_def)

lemma node_choice_request:
  "exclusive_request (node_choice [''4''] [''5'']) example_cdm1 (choice_pod []) (requesting [''cpu'', ''bonc.k8s.io/exclusive_a''])
     ''exclusive_a'' [''4'']"
  "exclusive_request (node_choice [''4''] [''5'']) example_cdm1 other_pod (requesting [''cpu'', ''bonc.k8s.io/exclusive_a''])
     ''exclusive_a'' [''5'']"
  "exclusive_request (node_choice [''13'', ''4''] []) example_cdm (choice_pod []) (requesting [''cpu'', ''bonc.k8s.io/exclusive_a''])
     ''exclusive_a'' (slot_ids example_cdm [(5, 1), (4, 0)])"
  unfolding exclusive_request_def by code_simp+

theorem exclusive_isolation_enforced_witness:
  "\<exists>sA sB. determineCorrectCpuset (node_choice [''4''] [''5'']) (choice_pod []) (requesting [''cpu'', ''bonc.k8s.io/exclusive_a'']) = Ok (sA, sA) \<and>
     determineCorrectCpuset (node_choice [''4''] [''5'']) other_pod (requesting [''cpu'', ''bonc.k8s.io/exclusive_a'']) = Ok (sB, sB) \<and>
     set sA \<inter> set sB = {}"
proof -
  let ?e = "node_choice [''4''] [''5'']"
  have ids: "map dev_ID (fst (list_devices ref_cpuset example_cdm1)) = [''4'', ''5'']" by code_simp
  have h: "poolType example_cdm1 = ''exclusive''" "Overcommitment (cdm_pool example_cdm1) \<le> 1"
    "set [''4''] \<union> set [''5''] \<subseteq> set (map dev_ID (fst (list_devices (ch_cpuset ?e) example_cdm1)))"
    "[''4''] \<noteq> []" "[''5''] \<noteq> []" "set [''4''] \<inter> set [''5''] = {}"
    unfolding node_choice_lib(2) ids by (simp_all add: example_cdm1_def example_cdm_def)
  have wf: "cdm_wf (ch_cpuset ?e) example_cdm1" using example_cdm1_wf by (simp add: node_choice_lib(2))
  from exclusive_isolation_enforced [OF node_choice_lib(1) wf h(1,2) node_choice_request(1,2) h(3-6)]
  show ?thesis by (auto simp: node_choice_lib(2))
qed

theorem exclusive_pipeline_witness:
  "\<exists>s devs cdm'.
     determineCorrectCpuset (node_choice [''13'', ''4''] []) (choice_pod []) (requesting [''cpu'', ''bonc.k8s.io/exclusive_a'']) = Ok (s, s) \<and>
     allocate_container ref_cpuset (\<lambda>s _. s) (\<lambda>w. (None, w)) example_cdm (slot_ids example_cdm [(5, 1), (4, 0)]) =
       Ok (\<lparr>cr_Envs = [(''EXCLUSIVE_CPUS'', cs_String ref_cpuset s)], cr_Devices = devs\<rparr>, cdm')"
proof -
  let ?e = "node_choice [''13'', ''4''] []"
  have wf: "cdm_wf (ch_cpuset ?e) example_cdm" using example_cdm_wf by (simp add: node_choice_lib(2))
  have h: "poolType example_cdm = ''exclusive''" "HTPolicy (cdm_pool example_cdm) \<noteq> MultiThreadHTPolicy"
    "set [(5, 1), (4, 0)] \<subseteq> set (pool_slots (ch_cpuset ?e) example_cdm)" "[(5, 1), (4, 0 :: int)] \<noteq> ([] :: (int \<times> int) list)"
    unfolding node_choice_lib(2)
    by (simp_all add: example_pool_slots) (simp_all add: example_cdm_def MultiThreadHTPolicy_def)
  from exclusive_pipeline [OF node_choice_lib(1) wf h node_choice_request(3), of "\<lambda>s _. s" "\<lambda>w. (None, w)"]
  show ?thesis unfolding node_choice_lib(2) by blast
qed

lemma first_shared_device:
  assumes "poolType cdm = ''shared''" "0 < wrap64 (cs_Size cs (CPUset (cdm_pool cdm)) * 1000)"
  shows "''0'' \<in> set (map dev_ID (fst (list_devices cs cdm)))"
proof -
  have "dev_ID (shared_device 0) = ''0''" by code_simp
  moreover have "0 \<in> set [0..wrap64 (cs_Size cs (CPUset (cdm_pool cdm)) * 1000) - 1]" using assms(2) by simp
  ultimately show ?thesis
    by (metis (no_types, lifting) assms(1) fst_conv image_eqI list.set_map list_devices_def)
qed

definition example_shared_cdm :: "(int list, unit) cdm" where
  "example_shared_cdm = example_cdm\<lparr>cdm_pool := snd (named_pool ''shared'' [0, 1]), poolType := ''shared'', sharedPoolCPUs := ''0-1''\<rparr>"

lemma example_shared_manager:
  "shared_manager (node_choice a b) example_shared_cdm (snd (named_pool ''shared'' [0, 1]))"
  "''0'' \<in> set (map dev_ID (fst (list_devices ref_cpuset example_shared_cdm)))"
proof -
  have pc: "ch_poolConfig (node_choice a b) = demo_choice_config" by (simp add: node_choice_def demo_choice_def)
  have "shared_pools demo_choice_config = [snd (named_pool ''shared'' [0, 1])]"
    "fst (validatePools ref_cpuset demo_choice_config) = ''0-1''"
    "HTPolicy (cdm_pool example_shared_cdm) \<noteq> MultiThreadHTPolicy"
    "CPUset (cdm_pool example_shared_cdm) = [0, 1]" "CPUset (snd (named_pool ''shared'' [0, 1])) = [0, 1]"
    "cs_elems ref_cpuset [0, 1] = {0, 1}" by code_simp+
  moreover have "cs_Size ref_cpuset [0, 1] = 2" by code_simp
  ultimately show "shared_manager (node_choice a b) example_shared_cdm (snd (named_pool ''shared'' [0, 1]))"
    unfolding shared_manager_def node_choice_lib(2) pc by (simp add: example_shared_cdm_def example_cdm_def)
  show "''0'' \<in> set (map dev_ID (fst (list_devices ref_cpuset example_shared_cdm)))"
    by (rule first_shared_device) (code_simp, code_simp)
qed

lemma node_choice_mixed:
  "mixed_request (node_choice [''13'', ''4''] []) example_cdm (choice_pod [])
     (requesting [''cpu'', ''bonc.k8s.io/exclusive_a'', ''bonc.k8s.io/shared'']) ''exclusive_a'' (slot_ids example_cdm [(5, 1), (4, 0)])"
  unfolding mixed_request_def by code_simp

theorem mixed_pipeline_witness:
  "\<exists>s x devs cdm' devs' shm'.
     determineCorrectCpuset (node_choice [''13'', ''4''] []) (choice_pod [])
       (requesting [''cpu'', ''bonc.k8s.io/exclusive_a'', ''bonc.k8s.io/shared'']) = Ok (s, s) \<and>
     allocate_container ref_cpuset (\<lambda>s _. s) (\<lambda>w. (None, w)) example_cdm (slot_ids example_cdm [(5, 1), (4, 0)]) =
       Ok (\<lparr>cr_Envs = [(''EXCLUSIVE_CPUS'', x)], cr_Devices = devs\<rparr>, cdm') \<and>
     allocate_container ref_cpuset (\<lambda>s _. s) (\<lambda>w. (None, w)) example_shared_cdm [''0''] =
       Ok (\<lparr>cr_Envs = [(''SHARED_CPUS'', ''0-1'')], cr_Devices = devs'\<rparr>, shm')"
proof -
  let ?e = "node_choice [''13'', ''4''] []"
  have wf: "cdm_wf (ch_cpuset ?e) example_cdm" using example_cdm_wf by (simp add: node_choice_lib(2))
  have h: "poolType example_cdm = ''exclusive''" "HTPolicy (cdm_pool example_cdm) \<noteq> MultiThreadHTPolicy"
    "set [(5, 1), (4, 0)] \<subseteq> set (pool_slots (ch_cpuset ?e) example_cdm)" "[(5, 1), (4, 0 :: int)] \<noteq> ([] :: (int \<times> int) list)"
    unfolding node_choice_lib(2)
    by (simp_all add: example_pool_slots) (simp_all add: example_cdm_def MultiThreadHTPolicy_def)
  have i: "set [''0''] \<subseteq> set (map dev_ID (fst (list_devices (ch_cpuset ?e) example_shared_cdm)))" "[''0''] \<noteq> []"
    using example_shared_manager(2) by (simp_all add: node_choice_lib(2))
  have r: "exclusiveCPURequests (mixed_requests 500 2) > 0" "sharedCPURequests (mixed_requests 500 2) > 0"
    by (simp_all add: mixed_requests_def)
  have str: "cs_String ref_cpuset (CPUset (snd (named_pool ''shared'' [0, 1]))) = ''0-1''" by code_simp
  from mixed_pipeline [OF node_choice_lib(1) wf h node_choice_mixed example_shared_manager(1) i r,
      of "\<lambda>s _. s" "\<lambda>w. (None, w)"]
  show ?thesis unfolding node_choice_lib(2) str by (elim exE conjE) (intro exI conjI; assumption)
qed

end
